(* ===== verification/Prelude.thy ===== *)
theory Prelude
  imports Main "HOL-Library.Word"
begin

text \<open>
  Shared vocabulary of the development: the machine types of the 32-bit MINIX target, the
  outcome type of C code that can leave the defined behaviour of C, bounds-checked array
  access, and the generic lemmas on outcomes, lists and words that the component theories
  share.  Nothing here models a particular source file.
\<close>

section \<open>Machine types\<close>

text \<open>
  \<open>byte\<close> is \<open>char\<close> as a bit pattern, \<open>u32\<close> is \<open>uint32_t\<close>, \<open>size_t\<close> and the bit pattern
  of \<open>pid_t\<close>; where the code compares such a value as a signed \<open>int\<close> the model writes \<open>sint\<close>.
  Return codes of C functions are of type \<open>int\<close>.
\<close>

type_synonym byte = "8 word"
type_synonym u32 = "32 word"

lemma sint_nonneg_iff: "0 \<le> sint (w :: u32) \<longleftrightarrow> unat w < 2 ^ 31"
proof -
  have lt: "uint w < 2 ^ 31 + 2 ^ 31" and "0 \<le> uint w" using uint_lt2p [of w] by simp_all
  have "bit (uint w) 31 \<longleftrightarrow> 2 ^ 31 \<le> uint w"
  proof (cases "2 ^ 31 \<le> uint w")
    case True
    with lt have "uint w div 2 ^ 31 = 1"
      by (intro int_div_pos_eq [where r = "uint w - 2 ^ 31"]) simp_all
    with True show ?thesis by (simp add: bit_iff_odd)
  next
    case False
    with \<open>0 \<le> uint w\<close> have "uint w div 2 ^ 31 = 0" by simp
    with False show ?thesis by (simp add: bit_iff_odd)
  qed
  moreover have "0 \<le> sint w \<longleftrightarrow> \<not> bit (uint w) 31"
    unfolding sint_uint signed_take_bit_nonnegative_iff by simp
  moreover have "unat w < 2 ^ 31 \<longleftrightarrow> int (unat w) < int (2 ^ 31)"
    by (rule of_nat_less_iff [symmetric])
  ultimately show ?thesis by auto
qed

lemma sint_eq_unat:
  assumes "unat (w :: u32) < 2 ^ 31"
  shows "sint w = int (unat w)"
proof -
  have "uint w < 2 ^ 31"
    using assms by (metis of_nat_less_iff of_nat_numeral of_nat_power uint_nat)
  then have "signed_take_bit 31 (uint w) = uint w"
    by (intro signed_take_bit_int_eq_self) (simp_all add: order_trans [of _ 0])
  then show ?thesis by (simp add: sint_uint)
qed

lemma sint_eq_unat_minus:
  assumes "\<not> unat (w :: u32) < 2 ^ 31"
  shows "sint w = int (unat w) - 2 ^ 32"
proof -
  have lt: "unat w < 2 ^ 32" using unsigned_less [of w] by simp
  define v :: u32 where "v = w - 2 ^ 31"
  have "sint w = signed_take_bit 31 (int (unat w))" by (simp add: sint_uint)
  also have "\<dots> = (int (unat w) + 2 ^ 31) mod 2 ^ 32 - 2 ^ 31"
    by (simp add: signed_take_bit_eq_take_bit_shift take_bit_eq_mod)
  also have "(int (unat w) + 2 ^ 31) mod 2 ^ 32 = int (unat w) + 2 ^ 31 - 2 ^ 32"
  proof (rule int_mod_pos_eq [where q = 1])
    have "int (2 ^ 31) \<le> int (unat w)" using assms by (simp only: of_nat_le_iff not_less)
    then show "0 \<le> int (unat w) + 2 ^ 31 - 2 ^ 32" by simp
    have "int (unat w) < int (2 ^ 32)" using lt by (simp only: of_nat_less_iff)
    then show "int (unat w) + 2 ^ 31 - 2 ^ 32 < 2 ^ 32" by simp
  qed simp
  finally show ?thesis by simp
qed

lemma index_range_iff:
  assumes "n < 2 ^ 31"
  shows "(0 \<le> sint (w :: u32) \<and> sint w < int n) \<longleftrightarrow> unat w < n"
proof (cases "unat w < 2 ^ 31")
  case True
  then have "sint w = int (unat w)" by (rule sint_eq_unat)
  then show ?thesis by linarith
next
  case False
  then have "\<not> 0 \<le> sint w" by (simp add: sint_nonneg_iff)
  with False assms show ?thesis by linarith
qed

section \<open>Outcomes\<close>

text \<open>
  A C function either returns (\<open>Inr\<close>) or leaves the defined behaviour of the language or
  stops the process (\<open>Inl\<close>): a failed \<open>assert\<close>, an access outside an array, a dereference
  of a pointer to no live block, a bad \<open>free\<close>, a division by zero, a call of \<open>isdigit\<close>
  outside its domain, a MINIX \<open>panic\<close>, an overflow of a signed number; \<open>Blocked\<close> is a call that waits for
  ever.
\<close>

datatype fault =
    Assert_Failed
  | Out_Of_Bounds
  | Bad_Pointer
  | Bad_Free
  | Div_By_Zero
  | Bad_Ctype
  | Panic
  | Signed_Overflow
  | Blocked

type_synonym 'a cres = "fault + 'a"

definition rbind :: "'a cres \<Rightarrow> ('a \<Rightarrow> 'b cres) \<Rightarrow> 'b cres" where
  "rbind x f = (case x of Inl e \<Rightarrow> Inl e | Inr v \<Rightarrow> f v)"

definition no_fault :: "'a cres \<Rightarrow> bool" where
  "no_fault x = (case x of Inl _ \<Rightarrow> False | Inr _ \<Rightarrow> True)"

named_theorems outcome "equations and equivalences of outcomes"

lemma rbind_Inr [simp, outcome]: "rbind (Inr v) f = f v"
  by (simp add: rbind_def)

lemma rbind_Inl [simp, outcome]: "rbind (Inl e) f = Inl e"
  by (simp add: rbind_def)

lemma rbind_eq_Inr [outcome]: "rbind x f = Inr y \<longleftrightarrow> (\<exists>v. x = Inr v \<and> f v = Inr y)"
  by (cases x) simp_all

lemma rbind_eq_Inl [outcome]:
  "rbind x f = Inl e \<longleftrightarrow> x = Inl e \<or> (\<exists>v. x = Inr v \<and> f v = Inl e)"
  by (cases x) simp_all

lemma rbind_assoc: "rbind (rbind x f) g = rbind x (\<lambda>v. rbind (f v) g)"
  by (cases x) simp_all

lemma rbind_cong [fundef_cong]:
  "x = y \<Longrightarrow> (\<And>v. y = Inr v \<Longrightarrow> f v = g v) \<Longrightarrow> rbind x f = rbind y g"
  by (cases y) simp_all

lemma no_fault_simps [simp, outcome]: "no_fault (Inr v)" "\<not> no_fault (Inl e)"
  by (simp_all add: no_fault_def)

lemma no_fault_iff: "no_fault x \<longleftrightarrow> (\<exists>v. x = Inr v)"
  by (cases x) simp_all

lemma no_faultE:
  assumes "no_fault x"
  obtains v where "x = Inr v"
  using assms by (auto simp: no_fault_iff)

lemma no_fault_rbind [outcome]:
  "no_fault (rbind x f) \<longleftrightarrow> (\<exists>v. x = Inr v \<and> no_fault (f v))"
  by (cases x) simp_all

text \<open>A loop over a list of values that stops at the first fault.\<close>

primrec for_each :: "('i \<Rightarrow> 's \<Rightarrow> 's cres) \<Rightarrow> 'i list \<Rightarrow> 's \<Rightarrow> 's cres" where
  "for_each f [] s = Inr s"
| "for_each f (i # is) s = rbind (f i s) (for_each f is)"

lemma for_each_append: "for_each f (xs @ ys) s = rbind (for_each f xs s) (for_each f ys)"
  by (induction xs arbitrary: s) (simp_all add: rbind_assoc cong: rbind_cong)

text \<open>The rule for loops over the indices below \<open>n\<close>: an invariant that every round keeps.\<close>

lemma for_each_upt:
  assumes "P 0 s" and "\<And>k s. k < n \<Longrightarrow> P k s \<Longrightarrow> \<exists>t. f k s = Inr t \<and> P (Suc k) t"
  shows "\<exists>t. for_each f [0..<n] s = Inr t \<and> P n t"
  using assms(2)
proof (induction n)
  case 0
  with assms(1) show ?case by simp
next
  case (Suc n)
  then obtain t where t: "for_each f [0..<n] s = Inr t" "P n t" by (meson less_SucI)
  with Suc.prems [of n] obtain u where "f n t = Inr u" "P (Suc n) u" by blast
  with t show ?case by (simp add: for_each_append)
qed

text \<open>The kinds of start of a system process that SEF tells apart.\<close>

datatype init_type = SEF_INIT_FRESH | SEF_INIT_LU | SEF_INIT_RESTART

section \<open>Arrays\<close>

text \<open>Reading and writing element \<open>i\<close> of an array, for an index of type \<open>int\<close>.\<close>

definition in_range :: "'a list \<Rightarrow> int \<Rightarrow> bool" where
  "in_range xs i \<longleftrightarrow> 0 \<le> i \<and> i < int (length xs)"

definition aget :: "'a list \<Rightarrow> int \<Rightarrow> 'a cres" where
  "aget xs i = (if in_range xs i then Inr (xs ! nat i) else Inl Out_Of_Bounds)"

definition aput :: "'a list \<Rightarrow> int \<Rightarrow> 'a \<Rightarrow> 'a list cres" where
  "aput xs i v = (if in_range xs i then Inr (xs[nat i := v]) else Inl Out_Of_Bounds)"

lemma in_range_int [simp]: "in_range xs (int n) \<longleftrightarrow> n < length xs"
  by (simp add: in_range_def)

lemma aget_int [simp]:
  "aget xs (int n) = (if n < length xs then Inr (xs ! n) else Inl Out_Of_Bounds)"
  by (simp add: aget_def)

lemma aput_int [simp]:
  "aput xs (int n) v = (if n < length xs then Inr (xs[n := v]) else Inl Out_Of_Bounds)"
  by (simp add: aput_def)

lemma aget_outside: "\<not> in_range xs i \<Longrightarrow> aget xs i = Inl Out_Of_Bounds"
  by (simp add: aget_def)

text \<open>A loop that reads the elements of an array at given indices is a loop over the elements.\<close>

lemma for_each_aget:
  "set js \<subseteq> {..<length xs} \<Longrightarrow>
   for_each (\<lambda>i s. rbind (aget xs (int i)) (\<lambda>c. f c s)) js s = for_each f (map ((!) xs) js) s"
  by (induction js arbitrary: s) (simp_all cong: rbind_cong)

lemma for_each_array:
  assumes "n \<le> length xs"
  shows "for_each (\<lambda>i s. rbind (aget xs (int i)) (\<lambda>c. f c s)) [0..<n] s = for_each f (take n xs) s"
proof -
  have "map ((!) xs) [0..<n] = take n xs"
    using assms by (intro nth_equalityI) simp_all
  then show ?thesis using assms by (subst for_each_aget) auto
qed

text \<open>\<open>overwrite off src dst\<close> is \<open>dst\<close> after the bytes \<open>src\<close> were copied to offset \<open>off\<close>.\<close>

definition overwrite :: "nat \<Rightarrow> 'a list \<Rightarrow> 'a list \<Rightarrow> 'a list" where
  "overwrite off src dst = take off dst @ src @ drop (off + length src) dst"

lemma length_overwrite [simp]:
  "off + length src \<le> length dst \<Longrightarrow> length (overwrite off src dst) = length dst"
  by (simp add: overwrite_def)

lemma overwrite_0: "overwrite 0 src dst = src @ drop (length src) dst"
  by (simp add: overwrite_def)

lemma take_overwrite_0 [simp]: "take (length src) (overwrite 0 src dst) = src"
  by (simp add: overwrite_0)

section \<open>Functions changed at one point\<close>

lemma inj_on_upd:
  "inj_on f A \<Longrightarrow> v \<notin> f ` (A - {i}) \<Longrightarrow> inj_on (f(i := v)) (insert i A)"
  by (auto simp: inj_on_def)

lemma inj_on_upd_outside: "inj_on f A \<Longrightarrow> inj_on (f(i := v)) (A - {i})"
  by (auto simp: inj_on_def)

lemma sum_upd:
  fixes f :: "'a \<Rightarrow> 'b::comm_monoid_add"
  assumes "finite A"
  shows "sum (f(i := v)) (insert i A) = v + sum f (A - {i})"
    and "sum (f(i := v)) (A - {i}) = sum f (A - {i})"
proof -
  have "sum (f(i := v)) (A - {i}) = sum f (A - {i})"
    by (intro sum.cong) auto
  then show "sum (f(i := v)) (insert i A) = v + sum f (A - {i})"
    and "sum (f(i := v)) (A - {i}) = sum f (A - {i})"
    using assms by (simp_all add: sum.insert_remove)
qed

section \<open>Lists\<close>

lemma take_Suc_update:
  "k < length xs \<Longrightarrow> take (Suc k) (xs[k := v]) = take k xs @ [v]"
  by (simp add: take_Suc_conv_app_nth)

lemma fold_upt_fill:
  "n \<le> length xs \<Longrightarrow>
   fold (\<lambda>i ys. ys[i := f i]) [0..<n] xs = map f [0..<n] @ drop n xs"
proof (induction n)
  case 0
  then show ?case by simp
next
  case (Suc n)
  then have *: "fold (\<lambda>i ys. ys[i := f i]) [0..<n] xs = map f [0..<n] @ drop n xs"
    by simp
  from Suc.prems have "drop n xs = xs ! n # drop (Suc n) xs"
    by (simp add: Cons_nth_drop_Suc)
  with * show ?case by (simp add: list_update_append)
qed

end
