(* ===== verification/Chardriver.thy ===== *)
theory Chardriver
  imports Prelude
begin

unbundle bit_operations_syntax

text \<open>
  The framework of character drivers, \<open>lib/libchardriver/chardriver.c\<close>: it receives requests,
  keeps the list of opened minor devices, calls the hooks of a driver and sends the replies.
  The driver is a record of optional hooks over a state of its own.  The numbers MINIX gives to
  error codes and flags are a parameter, the record \<open>codes\<close>.
\<close>

section \<open>Messages\<close>

text \<open>\<open>M_TYPE\<close> is any other message type; \<open>is_cdev_rq\<close> tells which of them are in the range of
  character device requests.\<close>

datatype m_type =
    CDEV_OPEN | CDEV_CLOSE | CDEV_READ | CDEV_WRITE | CDEV_IOCTL | CDEV_CANCEL | CDEV_SELECT
  | BDEV_OPEN | M_TYPE nat

record codes =
  EIO :: int
  ENOTTY :: int
  EBADF :: int
  ENXIO :: int
  EINVAL :: int
  EINTR :: int
  EDONTREPLY :: int
  SUSPEND :: int
  ERESTART :: int
  CDEV_CLONED :: int
  CDEV_CTTY :: int
  is_cdev_rq :: "nat \<Rightarrow> bool"
  DS_MAX_KEYLEN :: nat

text \<open>
  A message holds one of the structures of a union; the fields are grouped by structure: open and close,
  read, write and ioctl, cancel, select, block driver requests, notifications.
\<close>

record message =
  m_type :: m_type
  m_source :: u32
  oc_minor :: u32
  oc_access :: int
  oc_user :: u32
  oc_id :: u32
  rw_minor :: u32
  rw_pos :: "64 word"
  rw_grant :: u32
  rw_count :: u32
  rw_flags :: int
  rw_request :: u32
  rw_user :: u32
  rw_id :: u32
  ca_minor :: u32
  ca_id :: u32
  se_minor :: u32
  se_ops :: u32
  bdev_id :: u32
  interrupts :: u32
  timestamp :: u32

datatype notifier = HARDWARE | CLOCK | OTHER_PROC

text \<open>What the code reads of \<open>ipc_status\<close> and of the endpoint of a notification.\<close>

record ipc_status =
  is_ipc_notify :: bool
  call_sendrec :: bool
  notifier :: notifier

datatype reply =
    CDEV_REPLY (status: int) (reply_id: u32)
  | CDEV_SEL1_REPLY (status: int) (sel_minor: u32)
  | CDEV_SEL2_REPLY (status: int) (sel_minor: u32)
  | BDEV_REPLY (status: int) (reply_id: u32)

datatype send_call = ipc_sendnb | asynsend3

section \<open>Drivers and the state of the framework\<close>

type_synonym 's hook = "'s \<Rightarrow> (int \<times> 's) cres"

record 's chardriver =
  cdr_open :: "(u32 \<Rightarrow> int \<Rightarrow> u32 \<Rightarrow> 's hook) option"
  cdr_close :: "(u32 \<Rightarrow> 's hook) option"
  cdr_read :: "(u32 \<Rightarrow> 64 word \<Rightarrow> u32 \<Rightarrow> u32 \<Rightarrow> u32 \<Rightarrow> int \<Rightarrow> u32 \<Rightarrow> 's hook) option"
  cdr_write :: "(u32 \<Rightarrow> 64 word \<Rightarrow> u32 \<Rightarrow> u32 \<Rightarrow> u32 \<Rightarrow> int \<Rightarrow> u32 \<Rightarrow> 's hook) option"
  cdr_ioctl :: "(u32 \<Rightarrow> u32 \<Rightarrow> u32 \<Rightarrow> u32 \<Rightarrow> int \<Rightarrow> u32 \<Rightarrow> u32 \<Rightarrow> 's hook) option"
  cdr_cancel :: "(u32 \<Rightarrow> u32 \<Rightarrow> u32 \<Rightarrow> 's hook) option"
  cdr_select :: "(u32 \<Rightarrow> u32 \<Rightarrow> u32 \<Rightarrow> 's hook) option"
  cdr_intr :: "(u32 \<Rightarrow> 's \<Rightarrow> 's cres) option"
  cdr_alarm :: "(u32 \<Rightarrow> 's \<Rightarrow> 's cres) option"
  cdr_other :: "(message \<Rightarrow> ipc_status \<Rightarrow> 's \<Rightarrow> 's cres) option"

text \<open>\<open>sent\<close> are the replies so far, the latest first; the length of \<open>open_devs\<close> is
  \<open>MAX_NR_OPEN_DEVICES\<close>.\<close>

record 's cdstate =
  running :: bool
  open_devs :: "u32 list"
  next_open_devs_slot :: nat
  sent :: "(u32 \<times> reply \<times> send_call) list"
  priv :: 's

section \<open>Opened minor devices\<close>

definition clear_open_devs :: "'s cdstate \<Rightarrow> 's cdstate" where
  "clear_open_devs st = st\<lparr>next_open_devs_slot := 0\<rparr>"

definition opened :: "'s cdstate \<Rightarrow> u32 list" where
  "opened st = take (next_open_devs_slot st) (open_devs st)"

definition is_open_dev :: "u32 \<Rightarrow> 's cdstate \<Rightarrow> bool" where
  "is_open_dev minor st \<longleftrightarrow> minor \<in> set (opened st)"

definition set_open_dev :: "u32 \<Rightarrow> 's cdstate \<Rightarrow> 's cdstate cres" where
  "set_open_dev minor st =
     (if length (open_devs st) \<le> next_open_devs_slot st then Inl Panic
      else Inr (st\<lparr>open_devs := (open_devs st)[next_open_devs_slot st := minor],
                   next_open_devs_slot := Suc (next_open_devs_slot st)\<rparr>))"

text \<open>
  The outcomes of the system calls of \<open>chardriver_announce\<close>: clearing the references of blocked
  callers, the driver's own label, publishing the event under a key.
\<close>

record announce_sys =
  sys_statectl :: int
  own_label :: "int + string"
  publish_up :: "string \<Rightarrow> int"

definition announce_key :: "codes \<Rightarrow> string \<Rightarrow> string" where
  "announce_key C label = take (DS_MAX_KEYLEN C - 1) (''drv.chr.'' @ label)"

definition chardriver_announce :: "codes \<Rightarrow> announce_sys \<Rightarrow> 's cdstate \<Rightarrow> 's cdstate cres" where
  "chardriver_announce C A st =
     (if sys_statectl A \<noteq> 0 then Inl Panic
      else case own_label A of
        Inl r \<Rightarrow> Inl Panic
      | Inr label \<Rightarrow>
          if publish_up A (announce_key C label) \<noteq> 0 then Inl Panic
          else Inr (clear_open_devs st))"

section \<open>Replies\<close>

definition emit :: "u32 \<Rightarrow> reply \<Rightarrow> send_call \<Rightarrow> 's cdstate \<Rightarrow> 's cdstate" where
  "emit endpt msg call st = st\<lparr>sent := (endpt, msg, call) # sent st\<rparr>"

definition chardriver_reply_task :: "codes \<Rightarrow> u32 \<Rightarrow> u32 \<Rightarrow> int \<Rightarrow> 's cdstate \<Rightarrow> 's cdstate cres" where
  "chardriver_reply_task C endpt i r st =
     (if r = EDONTREPLY C \<or> r = SUSPEND C then Inl Panic
      else Inr (emit endpt (CDEV_REPLY r i) asynsend3 st))"

definition chardriver_reply_select :: "codes \<Rightarrow> u32 \<Rightarrow> u32 \<Rightarrow> int \<Rightarrow> 's cdstate \<Rightarrow> 's cdstate cres" where
  "chardriver_reply_select C endpt minor r st =
     (if r = EDONTREPLY C \<or> r = SUSPEND C then Inl Panic
      else Inr (emit endpt (CDEV_SEL2_REPLY r minor) asynsend3 st))"

definition send_reply :: "u32 \<Rightarrow> reply \<Rightarrow> ipc_status \<Rightarrow> 's cdstate \<Rightarrow> 's cdstate" where
  "send_reply endpt msg ips st = emit endpt msg (if call_sendrec ips then ipc_sendnb else asynsend3) st"

definition chardriver_reply :: "codes \<Rightarrow> message \<Rightarrow> ipc_status \<Rightarrow> int \<Rightarrow> 's cdstate \<Rightarrow> 's cdstate cres" where
  "chardriver_reply C m ips r st =
     (if r = EDONTREPLY C then
        (if m_type m \<in> {CDEV_READ, CDEV_WRITE, CDEV_IOCTL, CDEV_CANCEL} then Inr st else Inl Panic)
      else if r = SUSPEND C then Inl Panic
      else if r = ERESTART C then Inr st
      else let answer = (\<lambda>msg. Inr (send_reply (m_source m) msg ips st))
      in case m_type m of
           CDEV_OPEN \<Rightarrow> answer (CDEV_REPLY r (oc_id m))
         | CDEV_CLOSE \<Rightarrow> answer (CDEV_REPLY r (oc_id m))
         | CDEV_READ \<Rightarrow> answer (CDEV_REPLY r (rw_id m))
         | CDEV_WRITE \<Rightarrow> answer (CDEV_REPLY r (rw_id m))
         | CDEV_IOCTL \<Rightarrow> answer (CDEV_REPLY r (rw_id m))
         | CDEV_CANCEL \<Rightarrow> answer (CDEV_REPLY r (ca_id m))
         | CDEV_SELECT \<Rightarrow> answer (CDEV_SEL1_REPLY r (se_minor m))
         | _ \<Rightarrow> Inl Panic)"

section \<open>Calling the hooks\<close>

definition call_hook :: "'s hook \<Rightarrow> 's cdstate \<Rightarrow> (int \<times> 's cdstate) cres" where
  "call_hook f st = rbind (f (priv st)) (\<lambda>(r, s). Inr (r, st\<lparr>priv := s\<rparr>))"

definition do_open :: "codes \<Rightarrow> 's chardriver \<Rightarrow> message \<Rightarrow> 's cdstate \<Rightarrow> (int \<times> 's cdstate) cres" where
  "do_open C cdp m st =
     (case cdr_open cdp of
        None \<Rightarrow> Inr (0, st)
      | Some f \<Rightarrow>
          rbind (call_hook (f (oc_minor m) (oc_access m) (oc_user m)) st) (\<lambda>(r, st).
            if 0 \<le> r \<and> r AND CDEV_CLONED C \<noteq> 0 then
              let minor = word_of_int (r AND NOT (CDEV_CLONED C OR CDEV_CTTY C))
              in if \<not> is_open_dev minor st
                 then rbind (set_open_dev minor st) (\<lambda>st. Inr (r, st))
                 else Inr (r, st)
            else Inr (r, st)))"

definition do_close :: "'s chardriver \<Rightarrow> message \<Rightarrow> 's cdstate \<Rightarrow> (int \<times> 's cdstate) cres" where
  "do_close cdp m st =
     (case cdr_close cdp of
        None \<Rightarrow> Inr (0, st)
      | Some f \<Rightarrow> call_hook (f (oc_minor m)) st)"

definition do_transfer :: "codes \<Rightarrow> 's chardriver \<Rightarrow> message \<Rightarrow> bool \<Rightarrow> 's cdstate \<Rightarrow> (int \<times> 's cdstate) cres" where
  "do_transfer C cdp m do_write st =
     (case if do_write then cdr_write cdp else cdr_read cdp of
        None \<Rightarrow> Inr (EIO C, st)
      | Some f \<Rightarrow> call_hook (f (rw_minor m) (rw_pos m) (m_source m) (rw_grant m) (rw_count m)
                     (rw_flags m) (rw_id m)) st)"

definition do_ioctl :: "codes \<Rightarrow> 's chardriver \<Rightarrow> message \<Rightarrow> 's cdstate \<Rightarrow> (int \<times> 's cdstate) cres" where
  "do_ioctl C cdp m st =
     (case cdr_ioctl cdp of
        None \<Rightarrow> Inr (ENOTTY C, st)
      | Some f \<Rightarrow> call_hook (f (rw_minor m) (rw_request m) (m_source m) (rw_grant m) (rw_flags m)
                     (rw_user m) (rw_id m)) st)"

definition do_cancel :: "codes \<Rightarrow> 's chardriver \<Rightarrow> message \<Rightarrow> 's cdstate \<Rightarrow> (int \<times> 's cdstate) cres" where
  "do_cancel C cdp m st =
     (case cdr_cancel cdp of
        None \<Rightarrow> Inr (EDONTREPLY C, st)
      | Some f \<Rightarrow> call_hook (f (ca_minor m) (m_source m) (ca_id m)) st)"

definition do_select :: "codes \<Rightarrow> 's chardriver \<Rightarrow> message \<Rightarrow> 's cdstate \<Rightarrow> (int \<times> 's cdstate) cres" where
  "do_select C cdp m st =
     (case cdr_select cdp of
        None \<Rightarrow> Inr (EBADF C, st)
      | Some f \<Rightarrow> call_hook (f (se_minor m) (se_ops m) (m_source m)) st)"

definition do_block_open :: "codes \<Rightarrow> message \<Rightarrow> ipc_status \<Rightarrow> 's cdstate \<Rightarrow> 's cdstate" where
  "do_block_open C m ips st = send_reply (m_source m) (BDEV_REPLY (ENXIO C) (bdev_id m)) ips st"

section \<open>Processing a message\<close>

definition call_quiet :: "('s \<Rightarrow> 's cres) option \<Rightarrow> 's cdstate \<Rightarrow> 's cdstate cres" where
  "call_quiet f st =
     (case f of None \<Rightarrow> Inr st | Some g \<Rightarrow> rbind (g (priv st)) (\<lambda>s. Inr (st\<lparr>priv := s\<rparr>)))"

definition chardriver_get_minor :: "codes \<Rightarrow> message \<Rightarrow> int + u32" where
  "chardriver_get_minor C m =
     (case m_type m of
        CDEV_OPEN \<Rightarrow> Inr (oc_minor m)
      | CDEV_CLOSE \<Rightarrow> Inr (oc_minor m)
      | CDEV_CANCEL \<Rightarrow> Inr (ca_minor m)
      | CDEV_SELECT \<Rightarrow> Inr (se_minor m)
      | CDEV_READ \<Rightarrow> Inr (rw_minor m)
      | CDEV_WRITE \<Rightarrow> Inr (rw_minor m)
      | CDEV_IOCTL \<Rightarrow> Inr (rw_minor m)
      | _ \<Rightarrow> Inl (EINVAL C))"

definition IS_CDEV_RQ :: "codes \<Rightarrow> m_type \<Rightarrow> bool" where
  "IS_CDEV_RQ C t = (case t of BDEV_OPEN \<Rightarrow> False | M_TYPE n \<Rightarrow> is_cdev_rq C n | _ \<Rightarrow> True)"

definition process_notify :: "'s chardriver \<Rightarrow> message \<Rightarrow> ipc_status \<Rightarrow> 's cdstate \<Rightarrow> 's cdstate cres" where
  "process_notify cdp m ips st =
     (case notifier ips of
        HARDWARE \<Rightarrow> call_quiet (map_option (\<lambda>f. f (interrupts m)) (cdr_intr cdp)) st
      | CLOCK \<Rightarrow> call_quiet (map_option (\<lambda>f. f (timestamp m)) (cdr_alarm cdp)) st
      | OTHER_PROC \<Rightarrow> call_quiet (map_option (\<lambda>f. f m ips) (cdr_other cdp)) st)"

text \<open>The switch over the request: \<open>None\<close> is its default branch.\<close>

definition run_request ::
  "codes \<Rightarrow> 's chardriver \<Rightarrow> message \<Rightarrow> 's cdstate \<Rightarrow> (int \<times> 's cdstate) cres option" where
  "run_request C cdp m st =
     (case m_type m of
        CDEV_OPEN \<Rightarrow> Some (do_open C cdp m st)
      | CDEV_CLOSE \<Rightarrow> Some (do_close cdp m st)
      | CDEV_READ \<Rightarrow> Some (do_transfer C cdp m False st)
      | CDEV_WRITE \<Rightarrow> Some (do_transfer C cdp m True st)
      | CDEV_IOCTL \<Rightarrow> Some (do_ioctl C cdp m st)
      | CDEV_CANCEL \<Rightarrow> Some (do_cancel C cdp m st)
      | CDEV_SELECT \<Rightarrow> Some (do_select C cdp m st)
      | _ \<Rightarrow> None)"

definition dispatch :: "codes \<Rightarrow> 's chardriver \<Rightarrow> message \<Rightarrow> ipc_status \<Rightarrow> 's cdstate \<Rightarrow> 's cdstate cres" where
  "dispatch C cdp m ips st =
     (case run_request C cdp m st of
        None \<Rightarrow> call_quiet (map_option (\<lambda>f. f m ips) (cdr_other cdp)) st
      | Some x \<Rightarrow> rbind x (\<lambda>(r, st). chardriver_reply C m ips r st))"

definition chardriver_process ::
  "codes \<Rightarrow> 's chardriver \<Rightarrow> message \<Rightarrow> ipc_status \<Rightarrow> 's cdstate \<Rightarrow> 's cdstate cres" where
  "chardriver_process C cdp m ips st =
     (if is_ipc_notify ips then process_notify cdp m ips st
      else if m_type m = BDEV_OPEN then Inr (do_block_open C m ips st)
      else if IS_CDEV_RQ C (m_type m) then
        case chardriver_get_minor C m of
          Inl r \<Rightarrow> Inr st
        | Inr minor \<Rightarrow>
            if is_open_dev minor st then dispatch C cdp m ips st
            else if m_type m \<noteq> CDEV_OPEN then Inr st
            else rbind (set_open_dev minor st) (dispatch C cdp m ips)
      else dispatch C cdp m ips st)"

section \<open>The main loop\<close>

text \<open>
  What \<open>sef_receive_status\<close> yields: a message, or an error code (not \<open>OK\<close>), possibly after a signal handler
  called \<open>chardriver_terminate\<close>.  The loop runs over the messages received so far.
\<close>

datatype event = Received message ipc_status | Failed int bool

definition chardriver_terminate :: "'s cdstate \<Rightarrow> 's cdstate" where
  "chardriver_terminate st = st\<lparr>running := False\<rparr>"

fun task_loop :: "codes \<Rightarrow> 's chardriver \<Rightarrow> event list \<Rightarrow> 's cdstate \<Rightarrow> 's cdstate cres" where
  "task_loop C cdp [] st = Inr st"
| "task_loop C cdp (ev # evs) st =
     (if \<not> running st then Inr st
      else case ev of
        Received m ips \<Rightarrow> rbind (chardriver_process C cdp m ips st) (task_loop C cdp evs)
      | Failed r stop \<Rightarrow>
          let st = (if stop then chardriver_terminate st else st)
          in if r = EINTR C \<and> \<not> running st then Inr st else Inl Panic)"

definition chardriver_task :: "codes \<Rightarrow> 's chardriver \<Rightarrow> event list \<Rightarrow> 's cdstate \<Rightarrow> 's cdstate cres" where
  "chardriver_task C cdp evs st = task_loop C cdp evs (st\<lparr>running := True\<rparr>)"

section \<open>The table of opened devices\<close>

definition table_ok :: "u32 set \<Rightarrow> 's cdstate \<Rightarrow> bool" where
  "table_ok M st \<longleftrightarrow>
     next_open_devs_slot st \<le> length (open_devs st) \<and> distinct (opened st)
     \<and> set (opened st) \<subseteq> M \<and> card M \<le> length (open_devs st)"

lemma table_frame [simp]:
  "table_ok M (st\<lparr>priv := s\<rparr>) = table_ok M st" "table_ok M (st\<lparr>sent := l\<rparr>) = table_ok M st"
  "table_ok M (st\<lparr>running := b\<rparr>) = table_ok M st"
  "is_open_dev k (st\<lparr>priv := s\<rparr>) = is_open_dev k st"
  by (simp_all add: table_ok_def opened_def is_open_dev_def)

lemma set_open_dev_ok:
  assumes "table_ok M st" and "k \<in> M" and "finite M" and "\<not> is_open_dev k st"
  shows "\<exists>t. set_open_dev k st = Inr t \<and> table_ok M t \<and> opened t = opened st @ [k]
    \<and> priv t = priv st \<and> sent t = sent st \<and> running t = running st"
proof -
  have "insert k (set (opened st)) \<subseteq> M" using assms(1,2) by (auto simp: table_ok_def)
  then have "card (insert k (set (opened st))) \<le> card M" using assms(3) by (rule card_mono [rotated])
  moreover have "card (set (opened st)) = next_open_devs_slot st"
    using assms(1) distinct_card [of "opened st"] by (simp add: table_ok_def opened_def)
  ultimately have lt: "next_open_devs_slot st < length (open_devs st)"
    using assms(1,4) by (simp add: table_ok_def is_open_dev_def)
  let ?t = "st\<lparr>open_devs := (open_devs st)[next_open_devs_slot st := k],
    next_open_devs_slot := Suc (next_open_devs_slot st)\<rparr>"
  have "opened ?t = opened st @ [k]"
    using lt by (simp add: opened_def take_Suc_update)
  moreover have "set_open_dev k st = Inr ?t" using lt by (simp add: set_open_dev_def)
  ultimately show ?thesis
    using assms lt by (auto simp: table_ok_def is_open_dev_def)
qed

section \<open>Replies\<close>

text \<open>The reply to a request with status \<open>r\<close>.\<close>

definition answer :: "message \<Rightarrow> int \<Rightarrow> reply" where
  "answer m r =
     (if m_type m = CDEV_SELECT then CDEV_SEL1_REPLY r (se_minor m)
      else CDEV_REPLY r (if m_type m \<in> {CDEV_OPEN, CDEV_CLOSE} then oc_id m
        else if m_type m = CDEV_CANCEL then ca_id m else rw_id m))"

definition requests :: "m_type set" where
  "requests = {CDEV_OPEN, CDEV_CLOSE, CDEV_READ, CDEV_WRITE, CDEV_IOCTL, CDEV_CANCEL, CDEV_SELECT}"

definition suspendable :: "m_type set" where
  "suspendable = {CDEV_READ, CDEV_WRITE, CDEV_IOCTL, CDEV_CANCEL}"

lemma chardriver_reply_answer:
  assumes "m_type m \<in> requests"
  shows "chardriver_reply C m ips r st =
    (if r = EDONTREPLY C then if m_type m \<in> suspendable then Inr st else Inl Panic
     else if r = SUSPEND C then Inl Panic
     else if r = ERESTART C then Inr st
     else Inr (send_reply (m_source m) (answer m r) ips st))"
  using assms by (auto simp: chardriver_reply_def answer_def requests_def suspendable_def)

lemma requests_rq: "m_type m \<in> requests \<Longrightarrow> IS_CDEV_RQ C (m_type m) \<and> m_type m \<noteq> BDEV_OPEN
    \<and> (\<exists>k. chardriver_get_minor C m = Inr k) \<and> (\<exists>x. run_request C cdp m st = Some x)"
  by (auto simp: requests_def IS_CDEV_RQ_def chardriver_get_minor_def run_request_def)

lemma call_hook_frame:
  "call_hook f st = Inr (r, t) \<Longrightarrow> sent t = sent st \<and> opened t = opened st \<and> running t = running st"
  by (auto simp: call_hook_def rbind_eq_Inr opened_def)

lemma set_open_dev_sent: "set_open_dev k st = Inr t \<Longrightarrow> sent t = sent st \<and> running t = running st"
  by (auto simp: set_open_dev_def split: if_splits)

lemma run_request_sent:
  "run_request C cdp m st = Some (Inr (r, t)) \<Longrightarrow> sent t = sent st"
  by (auto simp: run_request_def do_open_def do_close_def do_transfer_def do_ioctl_def do_cancel_def
      do_select_def rbind_eq_Inr Let_def split: m_type.splits option.splits if_splits
      dest!: call_hook_frame set_open_dev_sent)

lemma call_quiet_sent: "call_quiet f st = Inr t \<Longrightarrow> sent t = sent st"
  by (auto simp: call_quiet_def rbind_eq_Inr split: option.splits)

lemma process_opened:
  assumes "\<not> is_ipc_notify ips" and "m_type m \<in> requests"
    and "chardriver_get_minor C m = Inr k" and "is_open_dev k st" and "run_request C cdp m st = Some x"
  shows "chardriver_process C cdp m ips st = rbind x (\<lambda>(r, t). chardriver_reply C m ips r t)"
  using assms requests_rq [OF assms(2), of C cdp st] by (simp add: chardriver_process_def dispatch_def)

section \<open>The contract of a driver's hooks\<close>

text \<open>The hook a request reaches, and the status without one.\<close>

definition hook_of :: "'s chardriver \<Rightarrow> message \<Rightarrow> 's hook option" where
  "hook_of cdp m =
     (case m_type m of
        CDEV_OPEN \<Rightarrow> map_option (\<lambda>f. f (oc_minor m) (oc_access m) (oc_user m)) (cdr_open cdp)
      | CDEV_CLOSE \<Rightarrow> map_option (\<lambda>f. f (oc_minor m)) (cdr_close cdp)
      | CDEV_READ \<Rightarrow> map_option (\<lambda>f. f (rw_minor m) (rw_pos m) (m_source m) (rw_grant m) (rw_count m)
          (rw_flags m) (rw_id m)) (cdr_read cdp)
      | CDEV_WRITE \<Rightarrow> map_option (\<lambda>f. f (rw_minor m) (rw_pos m) (m_source m) (rw_grant m) (rw_count m)
          (rw_flags m) (rw_id m)) (cdr_write cdp)
      | CDEV_IOCTL \<Rightarrow> map_option (\<lambda>f. f (rw_minor m) (rw_request m) (m_source m) (rw_grant m) (rw_flags m)
          (rw_user m) (rw_id m)) (cdr_ioctl cdp)
      | CDEV_CANCEL \<Rightarrow> map_option (\<lambda>f. f (ca_minor m) (m_source m) (ca_id m)) (cdr_cancel cdp)
      | CDEV_SELECT \<Rightarrow> map_option (\<lambda>f. f (se_minor m) (se_ops m) (m_source m)) (cdr_select cdp)
      | _ \<Rightarrow> None)"

definition default_status :: "codes \<Rightarrow> message \<Rightarrow> int" where
  "default_status C m =
     (case m_type m of
        CDEV_READ \<Rightarrow> EIO C | CDEV_WRITE \<Rightarrow> EIO C | CDEV_IOCTL \<Rightarrow> ENOTTY C
      | CDEV_CANCEL \<Rightarrow> EDONTREPLY C | CDEV_SELECT \<Rightarrow> EBADF C | _ \<Rightarrow> 0)"

text \<open>A status the framework can answer: not a forbidden pseudo-reply, not a cloned device.\<close>

definition ok_status :: "codes \<Rightarrow> m_type \<Rightarrow> int \<Rightarrow> bool" where
  "ok_status C ty r \<longleftrightarrow>
     r \<noteq> SUSPEND C \<and> (r = EDONTREPLY C \<longrightarrow> ty \<in> suspendable)
     \<and> \<not> (ty = CDEV_OPEN \<and> 0 \<le> r \<and> r AND CDEV_CLONED C \<noteq> 0)"

text \<open>The codes differ where the framework tells them apart.\<close>

definition sane_codes :: "codes \<Rightarrow> bool" where
  "sane_codes C \<longleftrightarrow>
     SUSPEND C \<notin> {0, EIO C, ENOTTY C, EBADF C, EDONTREPLY C} \<and> EDONTREPLY C \<notin> {0, EBADF C}"

lemma default_ok: "sane_codes C \<Longrightarrow> m_type m \<in> requests \<Longrightarrow> ok_status C (m_type m) (default_status C m)"
  by (auto simp: sane_codes_def requests_def ok_status_def default_status_def suspendable_def)

lemma run_request_hook:
  assumes "m_type m \<in> requests"
  shows "run_request C cdp m st =
    (case hook_of cdp m of
       None \<Rightarrow> Some (Inr (default_status C m, st))
     | Some f \<Rightarrow> if m_type m = CDEV_OPEN then Some (do_open C cdp m st) else Some (call_hook f st))"
  using assms
  by (auto simp: requests_def run_request_def hook_of_def default_status_def do_open_def do_close_def
      do_transfer_def do_ioctl_def do_cancel_def do_select_def split: option.split)

lemma do_open_plain:
  assumes "m_type m = CDEV_OPEN" and "hook_of cdp m = Some f" and "f (priv st) = Inr (r, s)"
    and "ok_status C CDEV_OPEN r"
  shows "do_open C cdp m st = Inr (r, st\<lparr>priv := s\<rparr>)"
  using assms by (auto simp: hook_of_def do_open_def call_hook_def ok_status_def)

locale driver_hooks =
  fixes C :: codes
    and cdp :: "'s chardriver"
    and inv :: "'s \<Rightarrow> bool"
    and ok :: "message \<Rightarrow> bool"
    and minors :: "u32 set"
  assumes codes_law: "ok m \<Longrightarrow> sane_codes C"
    and minors_law: "finite minors" "ok m \<Longrightarrow> chardriver_get_minor C m = Inr k \<Longrightarrow> k \<in> minors"
    and hook_law: "inv s \<Longrightarrow> ok m \<Longrightarrow> hook_of cdp m = Some f \<Longrightarrow>
      \<exists>r t. f s = Inr (r, t) \<and> inv t \<and> ok_status C (m_type m) r"
    and intr_law: "inv s \<Longrightarrow> cdr_intr cdp = Some g \<Longrightarrow> \<exists>t. g w s = Inr t \<and> inv t"
    and alarm_law: "inv s \<Longrightarrow> cdr_alarm cdp = Some g \<Longrightarrow> \<exists>t. g w s = Inr t \<and> inv t"
    and other_law: "inv s \<Longrightarrow> cdr_other cdp = Some h \<Longrightarrow> \<exists>t. h m ips s = Inr t \<and> inv t"
begin

definition safe :: "'s cdstate \<Rightarrow> bool" where
  "safe st \<longleftrightarrow> inv (priv st) \<and> table_ok minors st"

lemma request_runs:
  assumes st: "safe st" and m: "ok m" "m_type m \<in> requests"
  shows "\<exists>r t. run_request C cdp m st = Some (Inr (r, t)) \<and> safe t \<and> ok_status C (m_type m) r"
proof (cases "hook_of cdp m")
  case None
  then show ?thesis
    using st default_ok [OF codes_law [OF m(1)] m(2)] by (simp add: run_request_hook [OF m(2)])
next
  case (Some f)
  obtain r s where s: "f (priv st) = Inr (r, s)" "inv s" "ok_status C (m_type m) r"
    using hook_law [OF _ m(1) Some, of "priv st"] st unfolding safe_def by blast
  have "safe (st\<lparr>priv := s\<rparr>)" using st s(2) by (simp add: safe_def)
  with s do_open_plain [OF _ Some s(1), of C] show ?thesis
    unfolding run_request_hook [OF m(2)] Some by (auto simp: call_hook_def)
qed

lemma reply_runs:
  assumes "ok_status C (m_type m) r" and "m_type m \<in> requests" and "safe st"
  shows "\<exists>t. chardriver_reply C m ips r st = Inr t \<and> safe t"
  using assms by (auto simp: chardriver_reply_answer ok_status_def safe_def send_reply_def emit_def)

lemma quiet_runs:
  assumes "safe st" and "\<And>g s. f = Some g \<Longrightarrow> inv s \<Longrightarrow> \<exists>t. g s = Inr t \<and> inv t"
  shows "\<exists>t. call_quiet f st = Inr t \<and> safe t"
proof (cases f)
  case None
  with assms(1) show ?thesis by (simp add: call_quiet_def)
next
  case (Some g)
  from assms(2) [OF this, of "priv st"] assms(1) obtain s where "g (priv st) = Inr s" "inv s"
    by (auto simp: safe_def)
  with Some assms(1) show ?thesis by (auto simp: call_quiet_def safe_def)
qed

lemma dispatch_runs:
  assumes "safe st" and "ok m"
  shows "\<exists>t. dispatch C cdp m ips st = Inr t \<and> safe t"
proof (cases "m_type m \<in> requests")
  case True
  from request_runs [OF assms True] obtain r t where
    "run_request C cdp m st = Some (Inr (r, t))" "safe t" "ok_status C (m_type m) r" by blast
  with reply_runs [OF _ True] show ?thesis by (simp add: dispatch_def)
next
  case False
  then have "run_request C cdp m st = None"
    by (cases "m_type m") (auto simp: requests_def run_request_def)
  moreover have "\<exists>t. call_quiet (map_option (\<lambda>f. f m ips) (cdr_other cdp)) st = Inr t \<and> safe t"
    by (rule quiet_runs [OF assms(1)]) (use other_law in auto)
  ultimately show ?thesis by (simp add: dispatch_def)
qed

lemma notify_runs:
  assumes "safe st"
  shows "\<exists>t. process_notify cdp m ips st = Inr t \<and> safe t"
  unfolding process_notify_def
  by (cases "notifier ips"; simp; rule quiet_runs [OF assms])
    (use intr_law alarm_law other_law in auto)

lemma process_runs:
  assumes st: "safe st" and m: "ok m"
  shows "\<exists>t. chardriver_process C cdp m ips st = Inr t \<and> safe t"
proof -
  have block: "safe (do_block_open C m ips st)"
    using st by (simp add: do_block_open_def send_reply_def emit_def safe_def)
  have new: "\<exists>t. rbind (set_open_dev k st) (dispatch C cdp m ips) = Inr t \<and> safe t"
    if "chardriver_get_minor C m = Inr k" "\<not> is_open_dev k st" for k
  proof -
    from set_open_dev_ok [OF _ minors_law(2) [OF m that(1)] minors_law(1) that(2)] st
    obtain t where "set_open_dev k st = Inr t" "safe t" by (auto simp: safe_def)
    with dispatch_runs [OF this(2) m] show ?thesis by simp
  qed
  show ?thesis
    using st block new notify_runs [OF st] dispatch_runs [OF st m]
    by (auto simp: chardriver_process_def split: sum.split)
qed

text \<open>The task survives every sequence of acceptable messages and keeps the invariant of the driver.\<close>

lemma loop_runs:
  "safe st \<Longrightarrow> \<forall>ev\<in>set evs. \<exists>m ips. ev = Received m ips \<and> ok m \<Longrightarrow>
   \<exists>t. task_loop C cdp evs st = Inr t \<and> safe t"
proof (induction evs arbitrary: st)
  case Nil
  then show ?case by simp
next
  case (Cons ev evs)
  then obtain m ips where ev: "ev = Received m ips" "ok m" by auto
  from process_runs [OF Cons.prems(1) ev(2)] obtain t where
    "chardriver_process C cdp m ips st = Inr t" "safe t" by blast
  with Cons ev show ?case by auto
qed

lemma task_runs:
  assumes "safe st" and "\<forall>ev\<in>set evs. \<exists>m ips. ev = Received m ips \<and> ok m"
  shows "\<exists>t. chardriver_task C cdp evs st = Inr t \<and> safe t"
proof -
  have "safe (st\<lparr>running := True\<rparr>)" using assms(1) by (simp add: safe_def)
  from loop_runs [OF this assms(2)] show ?thesis by (simp add: chardriver_task_def)
qed

end

end
