(* ===== verification/Stack.thy ===== *)
theory Stack
  imports Prelude
begin

text \<open>
  The stack of free indices, \<open>new/usr/src/minix/drivers/examples/clipboard/stack.h\<close> and
  \<open>stack.c\<close>, and the contract it offers its client, the locale \<open>bounded_stack\<close>.
\<close>

section \<open>The stack of stack.c\<close>

text \<open>
  \<open>struct Stack\<close> holds an array and a pointer into it.  The pointer is an address, so the
  record carries the address of \<open>value[0]\<close> (field \<open>base\<close>, counted in elements) and \<open>current\<close>
  is the absolute address the C field holds.  A pointer outside the array, which static
  zero-initialisation or a byte copy of the structure to another address can produce, is
  thereby a value of the model.
\<close>

definition STACK_SIZE :: nat where
  "STACK_SIZE = 100"

record bstack =
  base :: nat
  vals :: "u32 list"
  current :: nat

definition lower_bound :: "bstack \<Rightarrow> nat" where
  "lower_bound s = base s"

definition upper_bound :: "bstack \<Rightarrow> nat" where
  "upper_bound s = base s + STACK_SIZE"

definition deref :: "bstack \<Rightarrow> nat \<Rightarrow> u32 cres" where
  "deref s p = aget (vals s) (int p - int (lower_bound s))"

definition push :: "u32 \<Rightarrow> bstack \<Rightarrow> bstack cres" where
  "push v s =
     (if current s \<noteq> upper_bound s
      then rbind (aput (vals s) (int (current s) - int (lower_bound s)) v)
             (\<lambda>vs. Inr (s\<lparr>vals := vs, current := Suc (current s)\<rparr>))
      else Inr s)"

definition is_empty :: "bstack \<Rightarrow> bool" where
  "is_empty s \<longleftrightarrow> current s = lower_bound s"

text \<open>\<open>top\<close> is a constant of HOL, hence the suffix.  The decrement of a null pointer leaves C.\<close>

definition top_stack :: "bstack \<Rightarrow> u32 cres" where
  "top_stack s =
     (if is_empty s then Inl Assert_Failed
      else if current s = 0 then Inl Bad_Pointer
      else deref s (current s - 1))"

definition pop :: "bstack \<Rightarrow> bstack cres" where
  "pop s =
     (if current s \<le> lower_bound s then Inl Bad_Pointer
      else Inr (s\<lparr>current := current s - 1\<rparr>))"

definition init :: "bstack \<Rightarrow> bstack" where
  "init s =
     (let vs = fold (\<lambda>i vs. vs[i := of_nat i]) [0..<STACK_SIZE] (vals s)
      in s\<lparr>vals := vs, current := upper_bound s\<rparr>)"

definition clear :: "bstack \<Rightarrow> bstack" where
  "clear s = s\<lparr>current := lower_bound s\<rparr>"

section \<open>Well-formed stacks and their contents\<close>

definition wf_stack :: "bstack \<Rightarrow> bool" where
  "wf_stack s \<longleftrightarrow>
     length (vals s) = STACK_SIZE \<and> lower_bound s \<le> current s \<and> current s \<le> upper_bound s"

text \<open>The elements, the next to be popped first.\<close>

definition elems :: "bstack \<Rightarrow> u32 list" where
  "elems s = rev (take (current s - lower_bound s) (vals s))"

lemmas stack_bounds = lower_bound_def upper_bound_def STACK_SIZE_def

lemma length_elems: "wf_stack s \<Longrightarrow> length (elems s) = current s - lower_bound s"
  by (auto simp: wf_stack_def elems_def stack_bounds)

lemma wf_init: "length (vals s) = STACK_SIZE \<Longrightarrow> wf_stack (init s)"
  by (simp add: init_def wf_stack_def stack_bounds fold_upt_fill)

lemma elems_init:
  "length (vals s) = STACK_SIZE \<Longrightarrow> elems (init s) = rev (map of_nat [0..<STACK_SIZE])"
  by (simp add: init_def elems_def stack_bounds fold_upt_fill)

lemma wf_clear: "length (vals s) = STACK_SIZE \<Longrightarrow> wf_stack (clear s) \<and> elems (clear s) = []"
  by (simp add: clear_def wf_stack_def elems_def stack_bounds)

lemma is_empty_elems: "wf_stack s \<Longrightarrow> is_empty s \<longleftrightarrow> elems s = []"
  by (auto simp: is_empty_def elems_def wf_stack_def stack_bounds)

lemma elems_ConsD:
  assumes "wf_stack s" and "elems s = x # xs"
  shows "\<exists>k. current s = Suc (lower_bound s + k) \<and> k < STACK_SIZE
           \<and> k < length (vals s) \<and> vals s ! k = x \<and> rev (take k (vals s)) = xs"
proof -
  from assms have len: "length (vals s) = STACK_SIZE" and up: "current s \<le> upper_bound s"
    and lt: "lower_bound s < current s"
    by (auto simp: wf_stack_def elems_def dest: le_neq_implies_less)
  define k where "k = current s - Suc (lower_bound s)"
  from lt up have k: "current s = Suc (lower_bound s + k)" "k < STACK_SIZE"
    by (simp_all add: k_def stack_bounds)
  from assms(2) have "rev (take (Suc k) (vals s)) = x # xs"
    by (simp add: elems_def k(1))
  with k(2) len have "vals s ! k = x \<and> rev (take k (vals s)) = xs"
    by (simp add: take_Suc_conv_app_nth)
  with k len show ?thesis by auto
qed

lemma top_elems: "wf_stack s \<Longrightarrow> elems s = x # xs \<Longrightarrow> top_stack s = Inr x"
  by (drule (1) elems_ConsD)
    (auto simp: top_stack_def is_empty_def deref_def wf_stack_def lower_bound_def)

lemma pop_elems:
  assumes "wf_stack s" and "elems s = x # xs"
  shows "\<exists>t. pop s = Inr t \<and> wf_stack t \<and> elems t = xs \<and> base t = base s"
proof -
  from elems_ConsD [OF assms] obtain k where
    "current s = Suc (lower_bound s + k)" "rev (take k (vals s)) = xs"
    by blast
  with assms(1) show ?thesis
    by (simp add: pop_def wf_stack_def elems_def lower_bound_def upper_bound_def)
qed

lemma push_elems:
  assumes "wf_stack s" and "length (elems s) < STACK_SIZE"
  shows "\<exists>t. push x s = Inr t \<and> wf_stack t \<and> elems t = x # elems s \<and> base t = base s"
proof -
  obtain k where k: "current s = base s + k" "k < STACK_SIZE" "length (vals s) = STACK_SIZE"
    using assms by (auto simp: length_elems wf_stack_def stack_bounds
        dest!: le_Suc_ex)
  then have "aput (vals s) (int (current s) - int (lower_bound s)) x = Inr ((vals s)[k := x])"
    by (simp add: lower_bound_def)
  with k show ?thesis
    by (auto simp: push_def wf_stack_def elems_def stack_bounds take_Suc_update)
qed

lemma push_full: "wf_stack s \<Longrightarrow> length (elems s) = STACK_SIZE \<Longrightarrow> push x s = Inr s"
  by (auto simp: length_elems push_def wf_stack_def stack_bounds)

section \<open>The contract of a bounded stack\<close>

text \<open>What a client may rely on: a last-in first-out list of at most \<open>cap\<close> elements.\<close>

locale bounded_stack =
  fixes push_op :: "'a \<Rightarrow> 's \<Rightarrow> 's cres"
    and pop_op :: "'s \<Rightarrow> 's cres"
    and top_op :: "'s \<Rightarrow> 'a cres"
    and empty_op :: "'s \<Rightarrow> bool"
    and content :: "'s \<Rightarrow> 'a list"
    and good :: "'s \<Rightarrow> bool"
    and cap :: nat
  assumes bounded: "good s \<Longrightarrow> length (content s) \<le> cap"
    and empty_law: "good s \<Longrightarrow> empty_op s \<longleftrightarrow> content s = []"
    and top_law: "good s \<Longrightarrow> content s = x # xs \<Longrightarrow> top_op s = Inr x"
    and pop_law: "good s \<Longrightarrow> content s = x # xs \<Longrightarrow>
      \<exists>t. pop_op s = Inr t \<and> good t \<and> content t = xs"
    and push_law: "good s \<Longrightarrow> length (content s) < cap \<Longrightarrow>
      \<exists>t. push_op x s = Inr t \<and> good t \<and> content t = x # content s"
    and push_full_law: "good s \<Longrightarrow> length (content s) = cap \<Longrightarrow> push_op x s = Inr s"
begin

lemma take_one:
  assumes "good s" and "\<not> empty_op s"
  obtains x t where "top_op s = Inr x" and "pop_op s = Inr t" and "good t"
    and "content s = x # content t"
proof -
  from assms obtain x xs where c: "content s = x # xs"
    using empty_law by (cases "content s") auto
  with assms(1) obtain t where "pop_op s = Inr t" "good t" "content t = xs"
    using pop_law by blast
  with c top_law [OF assms(1) c] that show thesis by simp
qed

lemma push_no_fault:
  assumes "good s"
  obtains t where "push_op x s = Inr t" and "good t"
proof (cases "length (content s) = cap")
  case True
  with assms push_full_law that show thesis by blast
next
  case False
  with bounded [OF assms] have "length (content s) < cap" by simp
  with push_law [OF assms] that show thesis by blast
qed

lemma give_one:
  assumes "good s" and "distinct (x # content s)" and "set (x # content s) \<subseteq> A"
    and "finite A" and "card A \<le> cap"
  obtains t where "push_op x s = Inr t" and "good t" and "content t = x # content s"
proof -
  have "length (x # content s) = card (set (x # content s))"
    using assms(2) by (simp only: distinct_card)
  also have "\<dots> \<le> card A" using assms(3,4) by (rule card_mono [rotated])
  finally have "length (content s) < cap" using assms(5) by simp
  with push_law [OF assms(1)] that show thesis by blast
qed

lemma push_then_pop:
  assumes "good s" and "length (content s) < cap"
  shows "\<exists>t u. push_op x s = Inr t \<and> top_op t = Inr x \<and> pop_op t = Inr u
           \<and> good u \<and> content u = content s"
  using push_law [OF assms] top_law pop_law by metis

end

interpretation free_ids: bounded_stack push pop top_stack is_empty elems wf_stack STACK_SIZE
proof unfold_locales
  show "length (elems s) \<le> STACK_SIZE" if "wf_stack s" for s
    using that by (auto simp: length_elems wf_stack_def stack_bounds)
qed (use is_empty_elems top_elems pop_elems push_elems push_full in \<open>blast+\<close>)

section \<open>Properties\<close>

text \<open>The stack of free indices is last-in first-out: what was pushed is on top, and popping it gives
  back the stack as it was; a push on a full stack of 100 elements is silently dropped, and \<open>top\<close> on an empty
  stack stops at the assertion.\<close>

theorem stack_lifo:
  assumes "wf_stack s"
  shows "(if length (elems s) = STACK_SIZE then push v s = Inr s
      else (\<exists>t u. push v s = Inr t \<and> top_stack t = Inr v \<and> pop t = Inr u \<and> wf_stack u \<and> elems u = elems s))
    \<and> (if elems s = [] then top_stack s = Inl Assert_Failed else top_stack s = Inr (hd (elems s)))"
proof
  show "if length (elems s) = STACK_SIZE then push v s = Inr s
      else (\<exists>t u. push v s = Inr t \<and> top_stack t = Inr v \<and> pop t = Inr u \<and> wf_stack u \<and> elems u = elems s)"
    using free_ids.push_then_pop [OF assms] free_ids.push_full_law [OF assms] free_ids.bounded [OF assms]
    by (auto simp: le_less)
  show "if elems s = [] then top_stack s = Inl Assert_Failed else top_stack s = Inr (hd (elems s))"
    using free_ids.empty_law [OF assms] free_ids.top_law [OF assms]
    by (cases "elems s") (simp_all add: top_stack_def)
qed

theorem stack_lifo_witness:
  "\<exists>t u. push 5 (clear \<lparr>base = 8, vals = replicate 100 0, current = 0\<rparr>) = Inr t \<and> top_stack t = Inr 5
    \<and> pop t = Inr u \<and> elems u = []"
proof -
  let ?s = "clear \<lparr>base = 8, vals = replicate 100 0, current = 0\<rparr>"
  have s: "wf_stack ?s \<and> elems ?s = []" by (rule wf_clear) (simp add: STACK_SIZE_def)
  with stack_lifo [of ?s 5] show ?thesis by (auto simp: STACK_SIZE_def)
qed

text \<open>Initialisation fills the stack with the indices 0 to 99, 99 on top, whatever the memory held before,
  and clearing empties it.\<close>

theorem stack_init:
  assumes "length (vals s) = STACK_SIZE"
  shows "wf_stack (init s) \<and> elems (init s) = rev (map of_nat [0..<STACK_SIZE])
    \<and> top_stack (init s) = Inr 99 \<and> wf_stack (clear s) \<and> is_empty (clear s)"
proof -
  have "elems (init s) = of_nat 99 # rev (map of_nat [0..<99])"
    using elems_init [OF assms] upt_Suc_append [of 0 99] by (simp add: STACK_SIZE_def)
  from top_elems [OF wf_init [OF assms] this] show ?thesis
    using wf_init [OF assms] elems_init [OF assms] wf_clear [OF assms] is_empty_elems by simp
qed

theorem stack_init_witness:
  "top_stack (init \<lparr>base = 8, vals = replicate 100 77, current = 0\<rparr>) = Inr 99"
  using stack_init [of "\<lparr>base = 8, vals = replicate 100 77, current = 0\<rparr>"] by (simp add: STACK_SIZE_def)

end
