(* ===== verification/CHeap.thy ===== *)
theory CHeap
  imports Prelude
begin

text \<open>
  The part of the C run-time the driver uses for its entry buffers: \<open>malloc\<close>, \<open>free\<close> and
  \<open>memcpy\<close> from and to a heap block.  The heap keeps the live blocks by address, the bytes
  still available to \<open>malloc\<close>, and what fresh memory happens to contain; address 0 is the
  null pointer \<open>malloc\<close> returns when it has no room.  The locale \<open>allocator\<close> is the contract.
\<close>

section \<open>Blocks\<close>

record heap =
  blocks :: "nat \<rightharpoonup> byte list"
  brk :: nat
  avail :: nat
  stale :: "nat \<Rightarrow> byte"

definition NULL :: nat where
  "NULL = 0"

definition malloc :: "nat \<Rightarrow> heap \<Rightarrow> nat \<times> heap" where
  "malloc n h =
     (if avail h < n then (NULL, h)
      else (brk h, h\<lparr>blocks := (blocks h)(brk h \<mapsto> map (stale h) [0..<n]),
                     brk := Suc (brk h), avail := avail h - n\<rparr>))"

definition free :: "nat \<Rightarrow> heap \<Rightarrow> heap cres" where
  "free p h =
     (if p = NULL then Inr h
      else case blocks h p of
        None \<Rightarrow> Inl Bad_Free
      | Some bs \<Rightarrow> Inr (h\<lparr>blocks := (blocks h)(p := None), avail := avail h + length bs\<rparr>))"

text \<open>\<open>memcpy\<close> of the first \<open>n\<close> bytes of an array into a block, and out of a block.\<close>

definition memcpy_in :: "nat \<Rightarrow> byte list \<Rightarrow> nat \<Rightarrow> heap \<Rightarrow> heap cres" where
  "memcpy_in p src n h =
     (if n = 0 then Inr h
      else if length src < n then Inl Out_Of_Bounds
      else case blocks h p of
        None \<Rightarrow> Inl Bad_Pointer
      | Some bs \<Rightarrow>
          if length bs < n then Inl Out_Of_Bounds
          else Inr (h\<lparr>blocks := (blocks h)(p \<mapsto> overwrite 0 (take n src) bs)\<rparr>))"

definition memcpy_out :: "nat \<Rightarrow> nat \<Rightarrow> heap \<Rightarrow> byte list cres" where
  "memcpy_out p n h =
     (if n = 0 then Inr []
      else case blocks h p of
        None \<Rightarrow> Inl Bad_Pointer
      | Some bs \<Rightarrow> if length bs < n then Inl Out_Of_Bounds else Inr (take n bs))"

definition wf_heap :: "heap \<Rightarrow> bool" where
  "wf_heap h \<longleftrightarrow> 0 < brk h \<and> (\<forall>p bs. blocks h p = Some bs \<longrightarrow> 0 < p \<and> p < brk h)"

lemma wf_heapD: "wf_heap h \<Longrightarrow> blocks h p = Some bs \<Longrightarrow> 0 < p \<and> p < brk h"
  by (auto simp: wf_heap_def)

lemma malloc_succeeds:
  assumes "wf_heap h" and "n \<le> avail h"
  shows "\<exists>p k bs. malloc n h = (p, k) \<and> p \<noteq> NULL \<and> blocks h p = None \<and> length bs = n
           \<and> blocks k = (blocks h)(p \<mapsto> bs) \<and> avail k + n = avail h \<and> wf_heap k"
proof -
  have "malloc n h = (brk h, h\<lparr>blocks := (blocks h)(brk h \<mapsto> map (stale h) [0..<n]),
      brk := Suc (brk h), avail := avail h - n\<rparr>)"
    using assms(2) by (simp add: malloc_def)
  moreover have "blocks h (brk h) = None" and "brk h \<noteq> NULL"
    using assms(1) by (auto simp: wf_heap_def NULL_def)
  moreover have "wf_heap (h\<lparr>blocks := (blocks h)(brk h \<mapsto> map (stale h) [0..<n]),
      brk := Suc (brk h), avail := avail h - n\<rparr>)"
    using assms(1) by (auto simp: wf_heap_def less_Suc_eq)
  ultimately show ?thesis using assms(2) by (auto intro!: exI [of _ "map (stale h) [0..<n]"])
qed

lemma malloc_fails: "avail h < n \<Longrightarrow> malloc n h = (NULL, h)"
  by (simp add: malloc_def)

lemma malloc_wf: "wf_heap h \<Longrightarrow> malloc n h = (p, k) \<Longrightarrow> wf_heap k"
  by (auto simp: malloc_def wf_heap_def less_Suc_eq split: if_splits)

lemma free_block:
  assumes "wf_heap h" and "blocks h p = Some bs"
  shows "\<exists>k. free p h = Inr k \<and> blocks k = (blocks h)(p := None)
           \<and> avail k = avail h + length bs \<and> wf_heap k"
  using assms by (auto simp: free_def wf_heap_def NULL_def split: if_splits)

lemma memcpy_in_block:
  assumes "wf_heap h" and "blocks h p = Some bs" and "n \<le> length src" and "n = length bs"
  shows "\<exists>k. memcpy_in p src n h = Inr k \<and> blocks k = (blocks h)(p \<mapsto> take n src)
           \<and> avail k = avail h \<and> wf_heap k"
  using assms by (auto simp: memcpy_in_def wf_heap_def overwrite_0 fun_upd_idem split: if_splits)

lemma memcpy_out_block:
  "blocks h p = Some bs \<Longrightarrow> n \<le> length bs \<Longrightarrow> memcpy_out p n h = Inr (take n bs)"
  by (auto simp: memcpy_out_def)

section \<open>The contract of the allocator\<close>

locale allocator =
  fixes alloc :: "nat \<Rightarrow> 'h \<Rightarrow> nat \<times> 'h"
    and release :: "nat \<Rightarrow> 'h \<Rightarrow> 'h cres"
    and fill :: "nat \<Rightarrow> byte list \<Rightarrow> nat \<Rightarrow> 'h \<Rightarrow> 'h cres"
    and fetch :: "nat \<Rightarrow> nat \<Rightarrow> 'h \<Rightarrow> byte list cres"
    and live :: "'h \<Rightarrow> nat \<rightharpoonup> byte list"
    and room :: "'h \<Rightarrow> nat"
    and sound :: "'h \<Rightarrow> bool"
  assumes alloc_law: "sound h \<Longrightarrow> n \<le> room h \<Longrightarrow>
      \<exists>p k bs. alloc n h = (p, k) \<and> p \<noteq> NULL \<and> live h p = None \<and> length bs = n
        \<and> live k = (live h)(p \<mapsto> bs) \<and> room k + n = room h \<and> sound k"
    and release_law: "sound h \<Longrightarrow> live h p = Some bs \<Longrightarrow>
      \<exists>k. release p h = Inr k \<and> live k = (live h)(p := None)
        \<and> room k = room h + length bs \<and> sound k"
    and fill_law: "sound h \<Longrightarrow> live h p = Some bs \<Longrightarrow> n \<le> length src \<Longrightarrow> n = length bs \<Longrightarrow>
      \<exists>k. fill p src n h = Inr k \<and> live k = (live h)(p \<mapsto> take n src)
        \<and> room k = room h \<and> sound k"
    and fetch_law: "live h p = Some bs \<Longrightarrow> n \<le> length bs \<Longrightarrow> fetch p n h = Inr (take n bs)"
begin

text \<open>Allocating a block and copying into it, the driver's way to keep a text.\<close>

lemma store_copy:
  assumes "sound h" and "n \<le> room h" and "n \<le> length src"
  obtains p k m where "alloc n h = (p, k)" and "fill p src n k = Inr m"
    and "p \<noteq> NULL" and "live h p = None" and "live m = (live h)(p \<mapsto> take n src)"
    and "room m + n = room h" and "sound m"
proof -
  from alloc_law [OF assms(1,2)] obtain p k bs where
    a: "alloc n h = (p, k)" "p \<noteq> NULL" "live h p = None" "length bs = n"
      "live k = (live h)(p \<mapsto> bs)" "room k + n = room h" "sound k"
    by blast
  then have "live k p = Some bs" by simp
  with a(4,7) assms(3) obtain m where
    "fill p src n k = Inr m" "live m = (live k)(p \<mapsto> take n src)" "room m = room k" "sound m"
    using fill_law by blast
  with a show thesis using that by simp
qed

lemma fetch_all: "live h p = Some bs \<Longrightarrow> fetch p (length bs) h = Inr bs"
  using fetch_law [of h p bs "length bs"] by simp

end

interpretation c_heap: allocator malloc free memcpy_in memcpy_out blocks avail wf_heap
  by unfold_locales
    (use malloc_succeeds free_block memcpy_in_block memcpy_out_block in \<open>blast+\<close>)

end
