(* ===== verification/Protocol.thy ===== *)
theory Protocol
  imports Prelude
begin

unbundle bit_operations_syntax

text \<open>
  The messages between the library functions and the device, \<open>clipboard_protocol.h\<close> (the same
  file in \<open>lib/libc/misc\<close> and in the driver's directory): their layout in memory, the sizes
  that tell a lock from a set, and the requests encoded in the \<open>size\<close> argument of \<open>read\<close>.
\<close>

section \<open>Constants\<close>

definition ENTRY_LEN_LIMIT :: nat where
  "ENTRY_LEN_LIMIT = 1024"

definition BUF_MAX_COUNT :: nat where
  "BUF_MAX_COUNT = 100"

section \<open>Messages\<close>

record clipboard_lock_msg =
  l_pid :: u32
  l_id :: u32
  l_buffer_len :: u32

record clipboard_get_msg =
  g_buffer_len :: u32
  g_decompressed_len :: u32
  g_buffer :: "byte list"

record clipboard_set_msg =
  s_pid :: u32
  s_buffer_len :: u32
  s_decompressed_len :: u32
  s_buffer :: "byte list"

definition LOCK_SIZE :: nat where
  "LOCK_SIZE = 4 + 4 + 4"

definition GET_SIZE :: nat where
  "GET_SIZE = 4 + 4 + ENTRY_LEN_LIMIT"

definition SET_SIZE :: nat where
  "SET_SIZE = 4 + 4 + 4 + ENTRY_LEN_LIMIT"

lemmas protocol_sizes =
  LOCK_SIZE_def GET_SIZE_def SET_SIZE_def ENTRY_LEN_LIMIT_def BUF_MAX_COUNT_def

section \<open>Requests in the size argument of read\<close>

definition IS_PID_QUERY :: "u32 \<Rightarrow> bool" where
  "IS_PID_QUERY sz \<longleftrightarrow> unat sz < GET_SIZE"

text \<open>The macro ignores its parameter and tests the variable \<open>size\<close> of its use site.\<close>

definition IS_CORRECT_ID :: "u32 \<Rightarrow> bool" where
  "IS_CORRECT_ID sz \<longleftrightarrow> unat sz < BUF_MAX_COUNT"

definition ENCODE_ID :: "u32 \<Rightarrow> u32" where
  "ENCODE_ID i = i"

definition DECODE_ID :: "u32 \<Rightarrow> u32" where
  "DECODE_ID sz = sz"

definition ENCODE_PID :: "u32 \<Rightarrow> u32" where
  "ENCODE_PID pid = of_nat GET_SIZE + pid"

definition DECODE_PID :: "u32 \<Rightarrow> u32" where
  "DECODE_PID sz = sz - of_nat GET_SIZE"

lemma decode_encode_pid: "DECODE_PID (ENCODE_PID pid) = pid"
  by (simp add: DECODE_PID_def ENCODE_PID_def)

lemma unat_encode_pid:
  "unat pid < 2 ^ 32 - GET_SIZE \<Longrightarrow> unat (ENCODE_PID pid) = GET_SIZE + unat pid"
  by (simp add: ENCODE_PID_def protocol_sizes unat_word_ariths)

lemma encode_pid_no_query:
  "unat pid < 2 ^ 32 - GET_SIZE \<Longrightarrow> \<not> IS_PID_QUERY (ENCODE_PID pid)"
  by (simp add: IS_PID_QUERY_def unat_encode_pid)

lemma encode_pid_wraps:
  assumes "2 ^ 32 - GET_SIZE \<le> unat pid"
  shows "IS_PID_QUERY (ENCODE_PID pid)"
proof -
  have "unat pid < 2 ^ 32" using unsigned_less [of pid] by simp
  with assms have "(GET_SIZE + unat pid) mod 2 ^ 32 = GET_SIZE + unat pid - 2 ^ 32"
    by (simp add: protocol_sizes le_mod_geq)
  then have "unat (ENCODE_PID pid) = GET_SIZE + unat pid - 2 ^ 32"
    by (simp add: ENCODE_PID_def protocol_sizes unat_word_ariths)
  with \<open>unat pid < 2 ^ 32\<close> show ?thesis
    by (simp add: IS_PID_QUERY_def protocol_sizes)
qed

lemma negative_pid_iff:
  "2 ^ 32 - GET_SIZE \<le> unat (pid :: u32) \<longleftrightarrow> - int GET_SIZE \<le> sint pid \<and> sint pid < 0"
proof (cases "unat pid < 2 ^ 31")
  case True
  then have "0 \<le> sint pid" by (simp only: sint_nonneg_iff)
  with True show ?thesis by (simp add: GET_SIZE_def ENTRY_LEN_LIMIT_def)
next
  case False
  have "sint pid = int (unat pid) - 2 ^ 32" by (rule sint_eq_unat_minus [OF False])
  moreover have "int (unat pid) < int (2 ^ 32)"
    using unsigned_less [of pid] by (simp only: of_nat_less_iff) simp
  moreover have "GET_SIZE = 1032" by (simp add: GET_SIZE_def ENTRY_LEN_LIMIT_def)
  moreover obtain n where n: "unat pid = n" by blast
  ultimately show ?thesis by (simp only: n) (simp, linarith)
qed

section \<open>Layout in memory\<close>

text \<open>The target is little-endian, and the structures have no padding.\<close>

definition put32 :: "u32 \<Rightarrow> byte list" where
  "put32 w = [ucast w, ucast (drop_bit 8 w), ucast (drop_bit 16 w), ucast (drop_bit 24 w)]"

fun get32 :: "byte list \<Rightarrow> u32" where
  "get32 (a # b # c # d # _) =
     ucast a OR push_bit 8 (ucast b) OR push_bit 16 (ucast c) OR push_bit 24 (ucast d)"
| "get32 _ = 0"

lemma length_put32 [simp]: "length (put32 w) = 4"
  by (simp add: put32_def)

lemma get32_put32 [simp]: "get32 (put32 w @ bs) = w"
proof -
  have "ucast (ucast w :: byte) OR push_bit 8 (ucast (ucast (drop_bit 8 w) :: byte))
      OR push_bit 16 (ucast (ucast (drop_bit 16 w) :: byte))
      OR push_bit 24 (ucast (ucast (drop_bit 24 w) :: byte)) = w"
  proof (rule bit_word_eqI)
    fix n
    assume "n < LENGTH(32)"
    then show "bit ((ucast (ucast w :: byte) :: u32) OR push_bit 8 (ucast (ucast (drop_bit 8 w) :: byte))
      OR push_bit 16 (ucast (ucast (drop_bit 16 w) :: byte))
      OR push_bit 24 (ucast (ucast (drop_bit 24 w) :: byte))) n = bit w n"
      by (cases "24 \<le> n"; cases "16 \<le> n") (auto simp: bit_simps)
  qed
  then show ?thesis by (simp add: put32_def)
qed

lemma get32_append [simp]: "4 \<le> length bs \<Longrightarrow> get32 (bs @ xs) = get32 bs"
  by (cases bs rule: get32.cases) auto

lemma drop_put32 [simp]: "drop 4 (put32 w @ bs) = bs"
  by (simp add: put32_def)

definition lock_bytes :: "clipboard_lock_msg \<Rightarrow> byte list" where
  "lock_bytes m = put32 (l_pid m) @ put32 (l_id m) @ put32 (l_buffer_len m)"

definition get_bytes :: "clipboard_get_msg \<Rightarrow> byte list" where
  "get_bytes m = put32 (g_buffer_len m) @ put32 (g_decompressed_len m) @ g_buffer m"

definition set_bytes :: "clipboard_set_msg \<Rightarrow> byte list" where
  "set_bytes m =
     put32 (s_pid m) @ put32 (s_buffer_len m) @ put32 (s_decompressed_len m) @ s_buffer m"

text \<open>A message structure read from memory that holds at least its bytes.\<close>

definition lock_of :: "byte list \<Rightarrow> clipboard_lock_msg" where
  "lock_of bs = \<lparr>l_pid = get32 bs, l_id = get32 (drop 4 bs), l_buffer_len = get32 (drop 8 bs)\<rparr>"

definition get_of :: "byte list \<Rightarrow> clipboard_get_msg" where
  "get_of bs = \<lparr>g_buffer_len = get32 bs, g_decompressed_len = get32 (drop 4 bs),
     g_buffer = take ENTRY_LEN_LIMIT (drop 8 bs)\<rparr>"

definition set_of :: "byte list \<Rightarrow> clipboard_set_msg" where
  "set_of bs = \<lparr>s_pid = get32 bs, s_buffer_len = get32 (drop 4 bs),
     s_decompressed_len = get32 (drop 8 bs), s_buffer = take ENTRY_LEN_LIMIT (drop 12 bs)\<rparr>"

lemma length_lock_bytes [simp]: "length (lock_bytes m) = LOCK_SIZE"
  by (simp add: lock_bytes_def LOCK_SIZE_def)

lemma length_get_bytes: "length (g_buffer m) = ENTRY_LEN_LIMIT \<Longrightarrow> length (get_bytes m) = GET_SIZE"
  by (simp add: get_bytes_def GET_SIZE_def)

lemma length_set_bytes: "length (s_buffer m) = ENTRY_LEN_LIMIT \<Longrightarrow> length (set_bytes m) = SET_SIZE"
  by (simp add: set_bytes_def SET_SIZE_def)

lemma drop_put32s [simp]:
  "drop 8 (put32 v @ put32 w @ bs) = bs"
  "drop 12 (put32 u @ put32 v @ put32 w @ bs) = bs"
  by (simp_all add: put32_def)

lemma lock_of_bytes: "lock_of (lock_bytes m @ rest) = m"
  by (simp add: lock_of_def lock_bytes_def)

lemma get_of_bytes: "length (g_buffer m) = ENTRY_LEN_LIMIT \<Longrightarrow> get_of (get_bytes m @ rest) = m"
  by (simp add: get_of_def get_bytes_def)

lemma set_of_bytes: "length (s_buffer m) = ENTRY_LEN_LIMIT \<Longrightarrow> set_of (set_bytes m @ rest) = m"
  by (simp add: set_of_def set_bytes_def)

end
