(* ===== verification/Clipboard.thy ===== *)
theory Clipboard
  imports Stack CHeap Protocol
begin

text \<open>
  The state of the clipboard driver and the operations that change it, \<open>bw386389.h\<close> and the
  first half of \<open>bw386389.c\<close>: storing a text, locking an entry, taking the text of a locked
  entry, initialisation.  The handlers that decode requests are in theory \<open>Device_IO\<close>, the
  invariant and the abstract specification in theory \<open>Clipboard_Spec\<close>.
\<close>

section \<open>State\<close>

datatype slot_state = EMPTY | USED | LOCKED

record entry =
  buffer_len :: u32
  decompressed_len :: u32
  source_pid :: u32
  locking_pid :: u32
  buffer :: nat
  in_use :: slot_state

record clipboard =
  entries :: "entry list"
  available_entries :: bstack

text \<open>The driver process: its static variable \<open>CLIPBOARD\<close> and its heap.\<close>

record driver =
  CLIPBOARD :: clipboard
  mem :: heap

definition OK :: int where
  "OK = 0"

text \<open>\<open>CLIPBOARD\<close> as a fresh process finds it: static storage is zero, the stack lies at \<open>a\<close>.\<close>

definition static_entry :: entry where
  "static_entry = \<lparr>buffer_len = 0, decompressed_len = 0, source_pid = 0, locking_pid = 0,
     buffer = NULL, in_use = EMPTY\<rparr>"

definition static_clipboard :: "nat \<Rightarrow> clipboard" where
  "static_clipboard a = \<lparr>entries = replicate BUF_MAX_COUNT static_entry,
     available_entries = \<lparr>base = a, vals = replicate STACK_SIZE 0, current = 0\<rparr>\<rparr>"

section \<open>Access to the entries\<close>

text \<open>The macros \<open>entry(id)\<close>, \<open>slot(id)\<close>, \<open>busy(id)\<close>, \<open>locked(id)\<close>, \<open>lock_by\<close> and \<open>unlock\<close>.\<close>

definition entry_at :: "int \<Rightarrow> driver \<Rightarrow> entry cres" where
  "entry_at i d = aget (entries (CLIPBOARD d)) i"

definition put_entry :: "nat \<Rightarrow> entry \<Rightarrow> driver \<Rightarrow> driver" where
  "put_entry i e d = d\<lparr>CLIPBOARD := (CLIPBOARD d)\<lparr>entries := (entries (CLIPBOARD d))[i := e]\<rparr>\<rparr>"

definition upd_entry :: "int \<Rightarrow> (entry \<Rightarrow> entry) \<Rightarrow> driver \<Rightarrow> driver cres" where
  "upd_entry i f d = rbind (entry_at i d) (\<lambda>e. Inr (put_entry (nat i) (f e) d))"

definition busy :: "entry \<Rightarrow> bool" where
  "busy e \<longleftrightarrow> in_use e = USED"

definition locked :: "entry \<Rightarrow> bool" where
  "locked e \<longleftrightarrow> in_use e = LOCKED"

definition lock_by :: "int \<Rightarrow> u32 \<Rightarrow> driver \<Rightarrow> driver cres" where
  "lock_by i pid = upd_entry i (\<lambda>e. e\<lparr>in_use := LOCKED, locking_pid := pid\<rparr>)"

definition unlock :: "int \<Rightarrow> driver \<Rightarrow> driver cres" where
  "unlock i = upd_entry i (\<lambda>e. e\<lparr>in_use := USED\<rparr>)"

definition set_available :: "bstack \<Rightarrow> driver \<Rightarrow> driver" where
  "set_available s d = d\<lparr>CLIPBOARD := (CLIPBOARD d)\<lparr>available_entries := s\<rparr>\<rparr>"

section \<open>Operations\<close>

definition delete_entry :: "u32 \<Rightarrow> driver \<Rightarrow> driver cres" where
  "delete_entry i d =
     rbind (entry_at (int (unat i)) d) (\<lambda>e.
       if \<not> locked e then Inl Assert_Failed
       else rbind (push i (available_entries (CLIPBOARD d))) (\<lambda>s.
         rbind (free (buffer e) (mem d)) (\<lambda>h.
           upd_entry (int (unat i)) (\<lambda>e. e\<lparr>in_use := EMPTY\<rparr>)
             ((set_available s d)\<lparr>mem := h\<rparr>))))"

text \<open>The loop of \<open>get_lock_id\<close>, from index \<open>i\<close> on.\<close>

function get_lock_from :: "u32 \<Rightarrow> entry list \<Rightarrow> nat \<Rightarrow> int" where
  "get_lock_from pid es i =
     (if i < BUF_MAX_COUNT
      then if locking_pid (es ! i) = pid \<and> locked (es ! i) then int i
           else get_lock_from pid es (Suc i)
      else - 1)"
  by pat_completeness auto
termination
  by (relation "measure (\<lambda>(pid, es, i). BUF_MAX_COUNT - i)") auto

declare get_lock_from.simps [simp del]

definition get_lock_id :: "u32 \<Rightarrow> driver \<Rightarrow> int" where
  "get_lock_id pid d = get_lock_from pid (entries (CLIPBOARD d)) 0"

definition do_clipboard_real_set :: "int \<Rightarrow> clipboard_set_msg \<Rightarrow> driver \<Rightarrow> driver cres" where
  "do_clipboard_real_set i msg d =
     (let (p, h) = malloc (unat (s_buffer_len msg)) (mem d)
      in rbind (memcpy_in p (s_buffer msg) (unat (s_buffer_len msg)) h) (\<lambda>h'.
           upd_entry i (\<lambda>e. e\<lparr>buffer := p, buffer_len := s_buffer_len msg,
               decompressed_len := s_decompressed_len msg, source_pid := s_pid msg,
               in_use := USED\<rparr>) (d\<lparr>mem := h'\<rparr>)))"

definition do_clipboard_set :: "clipboard_set_msg \<Rightarrow> driver \<Rightarrow> (int \<times> driver) cres" where
  "do_clipboard_set msg d =
     (if is_empty (available_entries (CLIPBOARD d)) then Inr (- 1, d)
      else rbind (top_stack (available_entries (CLIPBOARD d))) (\<lambda>v.
        rbind (pop (available_entries (CLIPBOARD d))) (\<lambda>s.
          let d' = set_available s d
          in rbind (entry_at (sint v) d') (\<lambda>e.
               if busy e \<or> locked e then Inr (- 1, d')
               else rbind (do_clipboard_real_set (sint v) msg d') (\<lambda>d''. Inr (sint v, d''))))))"

definition do_clipboard_lock :: "clipboard_lock_msg \<Rightarrow> driver \<Rightarrow> (int \<times> driver) cres" where
  "do_clipboard_lock msg d =
     (let i = get_lock_id (l_pid msg) d
      in rbind (if 0 \<le> i then unlock i d else Inr d) (\<lambda>d'.
           let i' = sint (l_id msg)
           in rbind (entry_at i' d') (\<lambda>e.
                if locked e \<or> \<not> busy e then Inr (- 1, d')
                else if l_buffer_len msg < decompressed_len e then Inr (- 1, d')
                else rbind (lock_by i' (l_pid msg) d') (\<lambda>d''. Inr (OK, d'')))))"

definition do_clipboard_get ::
  "clipboard_get_msg \<Rightarrow> u32 \<Rightarrow> driver \<Rightarrow> (int \<times> clipboard_get_msg \<times> driver) cres" where
  "do_clipboard_get msg pid d =
     (let i = get_lock_id pid d
      in if i < 0 then Inr (- 1, msg, d)
         else rbind (entry_at i d) (\<lambda>e.
           if length (g_buffer msg) < unat (buffer_len e) then Inl Out_Of_Bounds
           else rbind (memcpy_out (buffer e) (unat (buffer_len e)) (mem d)) (\<lambda>bs.
             let msg' = \<lparr>g_buffer_len = buffer_len e, g_decompressed_len = decompressed_len e,
                         g_buffer = overwrite 0 bs (g_buffer msg)\<rparr>
             in rbind (delete_entry (of_int i) d) (\<lambda>d'. Inr (OK, msg', d')))))"

definition clear_slots :: "entry list \<Rightarrow> entry list" where
  "clear_slots es = fold (\<lambda>i es. es[i := (es ! i)\<lparr>in_use := EMPTY\<rparr>]) [0..<BUF_MAX_COUNT] es"

definition clipboard_init :: "driver \<Rightarrow> driver" where
  "clipboard_init d =
     (let d' = set_available (init (available_entries (CLIPBOARD d))) d
      in d'\<lparr>CLIPBOARD := (CLIPBOARD d')\<lparr>entries := clear_slots (entries (CLIPBOARD d'))\<rparr>\<rparr>)"

section \<open>Basic facts\<close>

lemma put_entry_fields [simp]:
  "entries (CLIPBOARD (put_entry i e d)) = (entries (CLIPBOARD d))[i := e]"
  "available_entries (CLIPBOARD (put_entry i e d)) = available_entries (CLIPBOARD d)"
  "mem (put_entry i e d) = mem d"
  by (simp_all add: put_entry_def)

lemma set_available_fields [simp]:
  "entries (CLIPBOARD (set_available s d)) = entries (CLIPBOARD d)"
  "available_entries (CLIPBOARD (set_available s d)) = s"
  "mem (set_available s d) = mem d"
  by (simp_all add: set_available_def)

lemma entry_at_int [simp]:
  "entry_at (int i) d =
     (if i < length (entries (CLIPBOARD d)) then Inr (entries (CLIPBOARD d) ! i)
      else Inl Out_Of_Bounds)"
  by (simp add: entry_at_def)

lemma upd_entry_int [simp]:
  "i < length (entries (CLIPBOARD d)) \<Longrightarrow>
   upd_entry (int i) f d = Inr (put_entry i (f (entries (CLIPBOARD d) ! i)) d)"
  by (simp add: upd_entry_def)

lemma get_lock_from_spec:
  "i \<le> BUF_MAX_COUNT \<Longrightarrow>
   (get_lock_from pid es i = - 1 \<and>
      (\<forall>j. i \<le> j \<and> j < BUF_MAX_COUNT \<longrightarrow> \<not> (locking_pid (es ! j) = pid \<and> locked (es ! j)))) \<or>
   (\<exists>k. get_lock_from pid es i = int k \<and> i \<le> k \<and> k < BUF_MAX_COUNT \<and>
      locking_pid (es ! k) = pid \<and> locked (es ! k) \<and>
      (\<forall>j. i \<le> j \<and> j < k \<longrightarrow> \<not> (locking_pid (es ! j) = pid \<and> locked (es ! j))))"
proof (induction pid es i rule: get_lock_from.induct)
  case (1 pid es i)
  consider (stop) "\<not> i < BUF_MAX_COUNT"
    | (found) "i < BUF_MAX_COUNT" "locking_pid (es ! i) = pid \<and> locked (es ! i)"
    | (next_i) "i < BUF_MAX_COUNT" "\<not> (locking_pid (es ! i) = pid \<and> locked (es ! i))"
    by blast
  then show ?case
  proof cases
    case stop
    then show ?thesis by (auto simp: get_lock_from.simps)
  next
    case found
    then show ?thesis
      by (intro disjI2 exI [of _ i]) (auto simp: get_lock_from.simps)
  next
    case next_i
    then have eq: "get_lock_from pid es i = get_lock_from pid es (Suc i)"
      by (subst get_lock_from.simps) auto
    have split_le: "i \<le> j \<longleftrightarrow> j = i \<or> Suc i \<le> j" for j by auto
    from "1.IH" [OF next_i] next_i(1) show ?thesis
      unfolding eq using next_i(2) by (auto simp: split_le)
  qed
qed

lemma clear_slots_map:
  "length es = BUF_MAX_COUNT \<Longrightarrow> clear_slots es = map (\<lambda>e. e\<lparr>in_use := EMPTY\<rparr>) es"
proof -
  have "fold (\<lambda>i es. es[i := (es ! i)\<lparr>in_use := EMPTY\<rparr>]) [0..<n] es =
      map (\<lambda>e. e\<lparr>in_use := EMPTY\<rparr>) (take n es) @ drop n es" if "n \<le> length es" for n
    using that
  proof (induction n)
    case 0
    then show ?case by simp
  next
    case (Suc n)
    then have "n < length es" by simp
    with Suc show ?case
      by (simp add: nth_append list_update_append take_Suc_conv_app_nth Cons_nth_drop_Suc [symmetric])
  qed
  from this [of "length es"] show "length es = BUF_MAX_COUNT \<Longrightarrow>
      clear_slots es = map (\<lambda>e. e\<lparr>in_use := EMPTY\<rparr>) es"
    by (simp add: clear_slots_def)
qed

end
