(* ===== verification/Clipboard_Spec.thy ===== *)
theory Clipboard_Spec
  imports Clipboard
begin

text \<open>
  The invariant of the driver's state, the abstract clipboard it implements (a partial map
  from identifiers to texts with an owner and an optional holder of the lock), and the
  refinement lemmas: storing, locking and taking implement their abstract counterparts and
  keep the invariant.
\<close>

section \<open>The invariant\<close>

definition ent :: "driver \<Rightarrow> nat \<Rightarrow> entry" where
  "ent d i = entries (CLIPBOARD d) ! i"

definition occupied :: "driver \<Rightarrow> nat set" where
  "occupied d = {i \<in> {..<BUF_MAX_COUNT}. in_use (ent d i) \<noteq> EMPTY}"

text \<open>The stack holds exactly the indices of the empty entries, each once.\<close>

definition wf_free :: "driver \<Rightarrow> bool" where
  "wf_free d \<longleftrightarrow>
     wf_stack (available_entries (CLIPBOARD d))
     \<and> distinct (elems (available_entries (CLIPBOARD d)))
     \<and> set (elems (available_entries (CLIPBOARD d))) = of_nat ` ({..<BUF_MAX_COUNT} - occupied d)"

text \<open>Every occupied entry owns a live block of its length, no block is shared or leaked.\<close>

definition holds_text :: "driver \<Rightarrow> nat \<Rightarrow> bool" where
  "holds_text d i \<longleftrightarrow>
     (case blocks (mem d) (buffer (ent d i)) of
        None \<Rightarrow> False
      | Some bs \<Rightarrow> length bs = unat (buffer_len (ent d i)) \<and> length bs \<le> ENTRY_LEN_LIMIT)"

definition wf_mem :: "driver \<Rightarrow> bool" where
  "wf_mem d \<longleftrightarrow>
     wf_heap (mem d)
     \<and> (\<forall>i\<in>occupied d. holds_text d i)
     \<and> inj_on (\<lambda>i. buffer (ent d i)) (occupied d)
     \<and> dom (blocks (mem d)) = (\<lambda>i. buffer (ent d i)) ` occupied d"

text \<open>A process holds at most one lock.\<close>

definition locks :: "driver \<Rightarrow> nat set" where
  "locks d = {i \<in> {..<BUF_MAX_COUNT}. locked (ent d i)}"

definition wf_locks :: "driver \<Rightarrow> bool" where
  "wf_locks d \<longleftrightarrow> inj_on (\<lambda>i. locking_pid (ent d i)) (locks d)"

text \<open>Free memory and the memory of the texts together, which the operations keep constant.\<close>

definition capacity :: "driver \<Rightarrow> nat" where
  "capacity d = avail (mem d) + (\<Sum>i\<in>occupied d. unat (buffer_len (ent d i)))"

definition wf_driver :: "driver \<Rightarrow> bool" where
  "wf_driver d \<longleftrightarrow>
     length (entries (CLIPBOARD d)) = BUF_MAX_COUNT
     \<and> wf_free d \<and> wf_mem d \<and> wf_locks d
     \<and> BUF_MAX_COUNT * ENTRY_LEN_LIMIT \<le> capacity d"

lemmas wf_parts = wf_driver_def wf_free_def wf_mem_def wf_locks_def

lemma finite_occupied [simp]: "finite (occupied d)"
  by (simp add: occupied_def)

lemma occupied_less: "i \<in> occupied d \<Longrightarrow> i < BUF_MAX_COUNT"
  by (simp add: occupied_def)

lemma ent_put:
  "length (entries (CLIPBOARD d)) = BUF_MAX_COUNT \<Longrightarrow> i < BUF_MAX_COUNT \<Longrightarrow>
   ent (put_entry i e d) = (ent d)(i := e)"
  by (simp add: ent_def fun_eq_iff)

lemma ent_frame [simp]:
  "ent (set_available s d) = ent d" "ent (d\<lparr>mem := h\<rparr>) = ent d"
  by (simp_all add: ent_def fun_eq_iff)

lemma sets_frame [simp]:
  "occupied (set_available s d) = occupied d" "occupied (d\<lparr>mem := h\<rparr>) = occupied d"
  "locks (set_available s d) = locks d" "locks (d\<lparr>mem := h\<rparr>) = locks d"
  by (simp_all add: occupied_def locks_def)

lemma occupied_put:
  "length (entries (CLIPBOARD d)) = BUF_MAX_COUNT \<Longrightarrow> i < BUF_MAX_COUNT \<Longrightarrow>
   occupied (put_entry i e d) =
     (if in_use e = EMPTY then occupied d - {i} else insert i (occupied d))"
  by (auto simp: occupied_def ent_put split: if_splits)

lemma locks_put:
  "length (entries (CLIPBOARD d)) = BUF_MAX_COUNT \<Longrightarrow> i < BUF_MAX_COUNT \<Longrightarrow>
   locks (put_entry i e d) = (if locked e then insert i (locks d) else locks d - {i})"
  by (auto simp: locks_def ent_put split: if_splits)

lemma of_nat_index [simp]:
  assumes "i < BUF_MAX_COUNT"
  shows "unat (of_nat i :: u32) = i" and "sint (of_nat i :: u32) = int i"
proof -
  have le: "i < 2 ^ 31" using assms by (simp add: BUF_MAX_COUNT_def)
  then show "unat (of_nat i :: u32) = i"
    by (simp add: unat_of_nat take_bit_nat_eq_self)
  have "signed_take_bit 31 (int i) = int i"
    using le by (intro signed_take_bit_int_eq_self) simp_all
  then show "sint (of_nat i :: u32) = int i"
    by (simp add: signed_of_nat)
qed

lemma of_nat_index_inj:
  "i < BUF_MAX_COUNT \<Longrightarrow> j < BUF_MAX_COUNT \<Longrightarrow> (of_nat i :: u32) = of_nat j \<longleftrightarrow> i = j"
  using of_nat_index(1) by metis

lemma holds_text_iff:
  "holds_text d i \<longleftrightarrow> (\<exists>bs. blocks (mem d) (buffer (ent d i)) = Some bs
     \<and> length bs = unat (buffer_len (ent d i)) \<and> length bs \<le> ENTRY_LEN_LIMIT)"
  by (simp add: holds_text_def split: option.split)

lemma wf_holds_text: "wf_driver d \<Longrightarrow> i \<in> occupied d \<Longrightarrow> holds_text d i"
  by (simp add: wf_driver_def wf_mem_def)

section \<open>The lock table\<close>

lemma get_lock_id_none:
  "get_lock_id pid d < 0 \<longleftrightarrow>
   (\<forall>j<BUF_MAX_COUNT. \<not> (locking_pid (ent d j) = pid \<and> locked (ent d j)))"
  using get_lock_from_spec [of 0 pid "entries (CLIPBOARD d)"]
  by (auto simp: get_lock_id_def ent_def)

lemma get_lock_id_range: "get_lock_id pid d = - 1 \<or> (\<exists>k<BUF_MAX_COUNT. get_lock_id pid d = int k)"
  using get_lock_from_spec [of 0 pid "entries (CLIPBOARD d)"] by (auto simp: get_lock_id_def)

lemma get_lock_id_some:
  assumes "0 \<le> get_lock_id pid d"
  obtains k where "get_lock_id pid d = int k" "k < BUF_MAX_COUNT"
    "locking_pid (ent d k) = pid" "locked (ent d k)"
  using assms get_lock_from_spec [of 0 pid "entries (CLIPBOARD d)"]
  by (auto simp: get_lock_id_def ent_def)

lemma get_lock_id_unique:
  assumes "wf_locks d" and "k \<in> locks d" and "locking_pid (ent d k) = pid"
  shows "get_lock_id pid d = int k"
proof -
  from assms have "0 \<le> get_lock_id pid d"
    using get_lock_id_none [of pid d] by (auto simp: not_less [symmetric] locks_def)
  then obtain j where "get_lock_id pid d = int j" "j \<in> locks d" "locking_pid (ent d j) = pid"
    by (rule get_lock_id_some) (simp add: locks_def)
  with assms show ?thesis by (auto simp: wf_locks_def dest: inj_onD)
qed

section \<open>How the operations change the state\<close>

lemma ent_selectors:
  assumes "ent d' = (ent d)(i := e)"
  shows "(\<lambda>j. buffer (ent d' j)) = (\<lambda>j. buffer (ent d j))(i := buffer e)"
    and "(\<lambda>j. locking_pid (ent d' j)) = (\<lambda>j. locking_pid (ent d j))(i := locking_pid e)"
    and "(\<lambda>j. unat (buffer_len (ent d' j))) =
      (\<lambda>j. unat (buffer_len (ent d j)))(i := unat (buffer_len e))"
  by (simp_all add: assms fun_eq_iff)

text \<open>
  An entry of a well-formed state is replaced, its stack and heap with it: what has to hold
  for the new state to be well-formed.
\<close>

lemma wf_put:
  assumes wf: "wf_driver d" and i: "i < BUF_MAX_COUNT"
    and d': "d' = put_entry i e ((set_available s d)\<lparr>mem := h\<rparr>)"
    and free: "wf_free d'"
    and h: "wf_heap h" "dom (blocks h) = (\<lambda>j. buffer (ent d j)) ` (occupied d - {i})
      \<union> (if in_use e = EMPTY then {} else {buffer e})"
    and owns: "in_use e \<noteq> EMPTY \<Longrightarrow> holds_text d' i \<and>
      buffer e \<notin> (\<lambda>j. buffer (ent d j)) ` (occupied d - {i})"
    and keep: "\<And>j. j \<in> occupied d - {i} \<Longrightarrow>
      blocks h (buffer (ent d j)) = blocks (mem d) (buffer (ent d j))"
    and lock: "locked e \<Longrightarrow> locking_pid e \<notin> (\<lambda>j. locking_pid (ent d j)) ` (locks d - {i})"
    and cap: "capacity d' = capacity d"
  shows "wf_driver d'"
proof -
  let ?b = "(set_available s d)\<lparr>mem := h\<rparr>"
  have len: "length (entries (CLIPBOARD ?b)) = BUF_MAX_COUNT"
    using wf by (simp add: wf_driver_def)
  have new: "mem d' = h" "available_entries (CLIPBOARD d') = s"
      "length (entries (CLIPBOARD d')) = BUF_MAX_COUNT"
    using wf by (simp_all add: d' wf_driver_def)
  have ent: "ent d' = (ent d)(i := e)"
    using ent_put [OF len i] by (simp add: d')
  have occ: "occupied d' = (if in_use e = EMPTY then occupied d - {i} else insert i (occupied d))"
    using occupied_put [OF len i] by (simp add: d')
  have lks: "locks d' = (if locked e then insert i (locks d) else locks d - {i})"
    using locks_put [OF len i] by (simp add: d')
  have inj: "inj_on (\<lambda>j. buffer (ent d j)) (occupied d)"
      "inj_on (\<lambda>j. locking_pid (ent d j)) (locks d)"
    using wf by (simp_all add: wf_parts)
  have "holds_text d' j" if "j \<in> occupied d'" for j
    using that owns keep [of j] wf_holds_text [OF wf, of j]
    by (cases "j = i") (auto simp: occ ent holds_text_iff new split: if_splits)
  moreover have "inj_on (\<lambda>j. buffer (ent d' j)) (occupied d')"
    using inj(1) owns
    by (simp add: occ ent_selectors [OF ent] inj_on_upd inj_on_upd_outside
        del: fun_upd_apply inj_on_insert)
  moreover have "(\<lambda>j. buffer (ent d' j)) ` occupied d' =
      (\<lambda>j. buffer (ent d j)) ` (occupied d - {i}) \<union> (if in_use e = EMPTY then {} else {buffer e})"
    unfolding ent_selectors(1) [OF ent] occ by (auto simp: fun_upd_image)
  ultimately have "wf_mem d'"
    unfolding wf_mem_def new using h by simp
  moreover have "wf_locks d'"
    using inj(2) lock
    by (simp add: wf_locks_def lks ent_selectors [OF ent] inj_on_upd inj_on_upd_outside
        del: fun_upd_apply inj_on_insert)
  ultimately show ?thesis
    using wf free cap by (simp add: wf_driver_def new)
qed

text \<open>An empty entry is filled with a fresh block.\<close>

lemma wf_fill:
  assumes wf: "wf_driver d" and i: "i < BUF_MAX_COUNT" "i \<notin> occupied d"
    and s: "wf_stack s" "elems (available_entries (CLIPBOARD d)) = of_nat i # elems s"
    and h: "wf_heap h" "blocks (mem d) p = None" "blocks h = (blocks (mem d))(p \<mapsto> bs)"
      "avail h + length bs = avail (mem d)"
    and e: "buffer e = p" "in_use e = USED" "unat (buffer_len e) = length bs"
      "length bs \<le> ENTRY_LEN_LIMIT"
    and d': "d' = put_entry i e ((set_available s d)\<lparr>mem := h\<rparr>)"
  shows "wf_driver d' \<and> capacity d' = capacity d"
proof -
  have len: "length (entries (CLIPBOARD ((set_available s d)\<lparr>mem := h\<rparr>))) = BUF_MAX_COUNT"
    using wf by (simp add: wf_driver_def)
  have occ: "occupied d' = insert i (occupied d)"
    using occupied_put [OF len i(1), of e] e(2) by (simp add: d')
  have new: "mem d' = h" "available_entries (CLIPBOARD d') = s"
      "length (entries (CLIPBOARD d')) = BUF_MAX_COUNT"
    using wf by (simp_all add: d' wf_driver_def)
  have ent: "ent d' = (ent d)(i := e)"
    using ent_put [OF len i(1)] by (simp add: d')
  have dom: "dom (blocks (mem d)) = (\<lambda>j. buffer (ent d j)) ` occupied d"
    using wf by (simp add: wf_parts)
  with h(2) have other: "p \<notin> (\<lambda>j. buffer (ent d j)) ` occupied d"
    by (auto simp: domIff [symmetric])
  have "wf_free d'"
  proof -
    have el: "distinct (of_nat i # elems s)"
        "set (of_nat i # elems s) = of_nat ` ({..<BUF_MAX_COUNT} - occupied d)"
      using wf s(2) by (auto simp: wf_parts)
    then have "set (elems s) = of_nat ` ({..<BUF_MAX_COUNT} - occupied d) - {of_nat i}"
      by auto
    also have "\<dots> = of_nat ` ({..<BUF_MAX_COUNT} - insert i (occupied d))"
      using i(1) of_nat_index_inj by auto
    finally show ?thesis using el s(1) by (simp add: wf_free_def occ new)
  qed
  moreover have "capacity d' = capacity d"
    unfolding capacity_def new occ ent_selectors(3) [OF ent] sum_upd(1) [OF finite_occupied]
    using i(2) h(4) e(3) by simp
  moreover have "dom (blocks h) = insert p ((\<lambda>j. buffer (ent d j)) ` (occupied d - {i}))"
    using h(3) dom i(2) by simp
  moreover have "blocks h (buffer (ent d j)) = blocks (mem d) (buffer (ent d j))"
    if "j \<in> occupied d - {i}" for j
    using that other h(3) by auto
  ultimately show ?thesis
    using wf_put [OF wf i(1) d' _ h(1)] other h(3) e i(2)
    by (simp add: holds_text_iff ent new locked_def)
qed

text \<open>A locked entry is given up: its block is freed, its index pushed.\<close>

lemma wf_release:
  assumes wf: "wf_driver d" and i: "i \<in> occupied d"
    and s: "wf_stack s" "elems s = of_nat i # elems (available_entries (CLIPBOARD d))"
    and h: "wf_heap h" "blocks h = (blocks (mem d))(buffer (ent d i) := None)"
      "avail h = avail (mem d) + unat (buffer_len (ent d i))"
    and e: "in_use e = EMPTY"
    and d': "d' = put_entry i e ((set_available s d)\<lparr>mem := h\<rparr>)"
  shows "wf_driver d' \<and> capacity d' = capacity d"
proof -
  have len: "length (entries (CLIPBOARD ((set_available s d)\<lparr>mem := h\<rparr>))) = BUF_MAX_COUNT"
    using wf by (simp add: wf_driver_def)
  have i': "i < BUF_MAX_COUNT" using i by (rule occupied_less)
  have occ: "occupied d' = occupied d - {i}"
    using occupied_put [OF len i', of e] e by (simp add: d')
  have new: "mem d' = h" "available_entries (CLIPBOARD d') = s"
      "length (entries (CLIPBOARD d')) = BUF_MAX_COUNT"
    using wf by (simp_all add: d' wf_driver_def)
  have ent: "ent d' = (ent d)(i := e)"
    using ent_put [OF len i'] by (simp add: d')
  have dom: "dom (blocks (mem d)) = (\<lambda>j. buffer (ent d j)) ` occupied d"
    and inj: "inj_on (\<lambda>j. buffer (ent d j)) (occupied d)"
    using wf by (simp_all add: wf_parts)
  have "wf_free d'"
  proof -
    let ?free = "{..<BUF_MAX_COUNT} - occupied d"
    have el: "distinct (elems (available_entries (CLIPBOARD d)))"
        "set (elems (available_entries (CLIPBOARD d))) = of_nat ` ?free"
      using wf by (simp_all add: wf_parts)
    have "of_nat i \<notin> (of_nat ` ?free :: u32 set)"
      using i i' of_nat_index_inj by auto
    moreover have "{..<BUF_MAX_COUNT} - (occupied d - {i}) = insert i ?free"
      using i' by auto
    ultimately show ?thesis using el s by (simp add: wf_free_def occ new)
  qed
  moreover have "capacity d' = capacity d"
    unfolding capacity_def new occ ent_selectors(3) [OF ent] sum_upd(2) [OF finite_occupied]
    using h(3) sum.remove [OF finite_occupied i, of "\<lambda>j. unat (buffer_len (ent d j))"] by simp
  moreover have "dom (blocks h) = (\<lambda>j. buffer (ent d j)) ` (occupied d - {i})"
    using h(2) dom inj_on_image_set_diff [OF inj, of "occupied d" "{i}"] i by simp
  moreover have "blocks h (buffer (ent d j)) = blocks (mem d) (buffer (ent d j))"
    if "j \<in> occupied d - {i}" for j
    using that inj i h(2) by (auto dest: inj_onD)
  ultimately show ?thesis
    using wf_put [OF wf i' d' _ h(1)] e by (simp add: locked_def)
qed

text \<open>The lock of an occupied entry changes, nothing else.\<close>

lemma wf_relock:
  assumes wf: "wf_driver d" and i: "i \<in> occupied d"
    and e: "e = (ent d i)\<lparr>in_use := st, locking_pid := pid\<rparr>" "st \<noteq> EMPTY"
    and lock: "st = LOCKED \<Longrightarrow> pid \<notin> (\<lambda>j. locking_pid (ent d j)) ` (locks d - {i})"
    and d': "d' = put_entry i e d"
  shows "wf_driver d' \<and> capacity d' = capacity d"
proof -
  have len: "length (entries (CLIPBOARD d)) = BUF_MAX_COUNT"
    using wf by (simp add: wf_driver_def)
  have i': "i < BUF_MAX_COUNT" using i by (rule occupied_less)
  have occ: "occupied d' = occupied d"
    using occupied_put [OF len i', of e] e i by (auto simp: d')
  have new: "mem d' = mem d"
      "available_entries (CLIPBOARD d') = available_entries (CLIPBOARD d)"
      "length (entries (CLIPBOARD d')) = BUF_MAX_COUNT"
    using wf by (simp_all add: d' wf_driver_def)
  have ent: "ent d' = (ent d)(i := e)"
    using ent_put [OF len i'] by (simp add: d')
  have same: "(\<lambda>j. buffer (ent d' j)) = (\<lambda>j. buffer (ent d j))"
      "(\<lambda>j. buffer_len (ent d' j)) = (\<lambda>j. buffer_len (ent d j))"
    by (simp_all add: ent e(1) fun_eq_iff)
  have put: "d' = put_entry i e ((set_available (available_entries (CLIPBOARD d)) d)\<lparr>mem := mem d\<rparr>)"
    by (simp add: d' set_available_def)
  have free: "wf_free d'"
    using wf by (simp add: wf_parts occ new)
  have cap: "capacity d' = capacity d"
    using fun_cong [OF same(2)] by (simp add: capacity_def occ new)
  have "holds_text d' i"
    using wf_holds_text [OF wf i] by (simp add: holds_text_iff ent e(1) new)
  moreover have "buffer e \<notin> (\<lambda>j. buffer (ent d j)) ` (occupied d - {i})"
    using wf i by (auto simp: wf_parts e(1) dest: inj_onD)
  ultimately have "wf_driver d'"
    by (intro wf_put [OF wf i' put free _ _ _ _ _ cap])
      (use wf lock e(2) i in \<open>auto simp: wf_parts e(1) locked_def\<close>)
  with cap show ?thesis by simp
qed

section \<open>The abstract clipboard\<close>

record item =
  contents :: "byte list"
  plain_len :: u32
  owner :: u32
  holder :: "u32 option"

type_synonym board = "nat \<rightharpoonup> item"

definition item_of :: "driver \<Rightarrow> entry \<Rightarrow> item" where
  "item_of d e =
     \<lparr>contents = (case blocks (mem d) (buffer e) of None \<Rightarrow> [] | Some bs \<Rightarrow> bs),
      plain_len = decompressed_len e, owner = source_pid e,
      holder = (if locked e then Some (locking_pid e) else None)\<rparr>"

definition board_of :: "driver \<Rightarrow> board" where
  "board_of d = (\<lambda>i. if i \<in> occupied d then Some (item_of d (ent d i)) else None)"

definition held_by :: "u32 \<Rightarrow> board \<Rightarrow> nat \<Rightarrow> bool" where
  "held_by pid b i \<longleftrightarrow> (case b i of None \<Rightarrow> False | Some it \<Rightarrow> holder it = Some pid)"

text \<open>Giving up every lock of a process.\<close>

definition drop_locks :: "u32 \<Rightarrow> board \<Rightarrow> board" where
  "drop_locks pid b =
     (\<lambda>i. map_option (\<lambda>it. if holder it = Some pid then it\<lparr>holder := None\<rparr> else it) (b i))"

text \<open>Whether a process with a buffer of the given length may lock an item.\<close>

definition lockable :: "u32 \<Rightarrow> item option \<Rightarrow> bool" where
  "lockable n it = (case it of None \<Rightarrow> False
     | Some it \<Rightarrow> holder it = None \<and> \<not> n < plain_len it)"

definition set_holder :: "u32 \<Rightarrow> nat \<Rightarrow> board \<Rightarrow> board" where
  "set_holder pid i b = b(i := map_option (\<lambda>it. it\<lparr>holder := Some pid\<rparr>) (b i))"

definition new_item :: "clipboard_set_msg \<Rightarrow> item" where
  "new_item m =
     \<lparr>contents = take (unat (s_buffer_len m)) (s_buffer m), plain_len = s_decompressed_len m,
      owner = s_pid m, holder = None\<rparr>"

text \<open>What a well-behaved client sends: a full buffer and a length within the limit.\<close>

definition sane_set :: "clipboard_set_msg \<Rightarrow> bool" where
  "sane_set m \<longleftrightarrow> length (s_buffer m) = ENTRY_LEN_LIMIT \<and> unat (s_buffer_len m) \<le> ENTRY_LEN_LIMIT"

section \<open>Refinement\<close>

lemma board_of_put:
  assumes len: "length (entries (CLIPBOARD d)) = BUF_MAX_COUNT" and i: "i < BUF_MAX_COUNT"
    and same: "\<And>j. j \<in> occupied d - {i} \<Longrightarrow>
      blocks h (buffer (ent d j)) = blocks (mem d) (buffer (ent d j))"
  shows "board_of (put_entry i e ((set_available s d)\<lparr>mem := h\<rparr>)) =
     (board_of d)(i := if in_use e = EMPTY then None else Some (item_of (d\<lparr>mem := h\<rparr>) e))"
    (is "board_of ?d = ?b")
proof
  fix j
  have len': "length (entries (CLIPBOARD ((set_available s d)\<lparr>mem := h\<rparr>))) = BUF_MAX_COUNT"
    using len by simp
  show "board_of ?d j = ?b j"
    using ent_put [OF len' i, of e] occupied_put [OF len' i, of e] same
    by (auto simp: board_of_def item_of_def)
qed

lemma item_of_new:
  "blocks h p = Some (take (unat (s_buffer_len m)) (s_buffer m)) \<Longrightarrow>
   item_of (d\<lparr>mem := h\<rparr>) (e\<lparr>buffer := p, buffer_len := s_buffer_len m,
     decompressed_len := s_decompressed_len m, source_pid := s_pid m, in_use := USED\<rparr>) = new_item m"
  by (simp add: item_of_def new_item_def locked_def)

text \<open>While an entry is empty there is room for one more text of any admissible length.\<close>

lemma room_for_one:
  assumes wf: "wf_driver d" and i: "i < BUF_MAX_COUNT" "i \<notin> occupied d"
  shows "ENTRY_LEN_LIMIT \<le> avail (mem d)"
proof -
  have "unat (buffer_len (ent d j)) \<le> ENTRY_LEN_LIMIT" if "j \<in> occupied d" for j
    using wf_holds_text [OF wf that] by (auto simp: holds_text_iff)
  then have "(\<Sum>j\<in>occupied d. unat (buffer_len (ent d j))) \<le> card (occupied d) * ENTRY_LEN_LIMIT"
    using sum_bounded_above [of "occupied d" "\<lambda>j. unat (buffer_len (ent d j))" ENTRY_LEN_LIMIT]
    by simp
  moreover have "occupied d \<subset> {..<BUF_MAX_COUNT}"
    using i by (auto simp: occupied_def)
  then have "card (occupied d) < BUF_MAX_COUNT"
    using psubset_card_mono [of "{..<BUF_MAX_COUNT}"] by simp
  then have "Suc (card (occupied d)) * ENTRY_LEN_LIMIT \<le> BUF_MAX_COUNT * ENTRY_LEN_LIMIT"
    by (intro mult_le_mono1) simp
  ultimately show ?thesis using wf by (simp add: wf_driver_def capacity_def)
qed

lemma set_when_full:
  assumes "wf_driver d" and "occupied d = {..<BUF_MAX_COUNT}"
  shows "do_clipboard_set m d = Inr (- 1, d)"
proof -
  have "wf_stack (available_entries (CLIPBOARD d))"
    and "set (elems (available_entries (CLIPBOARD d))) = {}"
    using assms by (simp_all add: wf_driver_def wf_free_def)
  then have "is_empty (available_entries (CLIPBOARD d))"
    using free_ids.empty_law by simp
  then show ?thesis by (simp add: do_clipboard_set_def)
qed

lemma take_free_id:
  assumes wf: "wf_driver d" and "occupied d \<noteq> {..<BUF_MAX_COUNT}"
  obtains i s where "i < BUF_MAX_COUNT" "i \<notin> occupied d" "wf_stack s"
    "elems (available_entries (CLIPBOARD d)) = of_nat i # elems s"
    "\<not> is_empty (available_entries (CLIPBOARD d))"
    "top_stack (available_entries (CLIPBOARD d)) = Inr (of_nat i)"
    "pop (available_entries (CLIPBOARD d)) = Inr s"
proof -
  let ?s = "available_entries (CLIPBOARD d)"
  have good: "wf_stack ?s"
    and set: "set (elems ?s) = of_nat ` ({..<BUF_MAX_COUNT} - occupied d)"
    using wf by (simp_all add: wf_driver_def wf_free_def)
  have "{..<BUF_MAX_COUNT} - occupied d \<noteq> {}"
    using assms(2) by (auto simp: occupied_def)
  with set have "elems ?s \<noteq> []" by auto
  with good have ne: "\<not> is_empty ?s" using free_ids.empty_law by simp
  then obtain x t where x: "top_stack ?s = Inr x" "pop ?s = Inr t" "wf_stack t"
      "elems ?s = x # elems t"
    using free_ids.take_one [OF good] by blast
  with set have "x \<in> of_nat ` ({..<BUF_MAX_COUNT} - occupied d)" by auto
  then obtain i where "x = of_nat i" "i < BUF_MAX_COUNT" "i \<notin> occupied d" by auto
  with x ne show thesis by (intro that) auto
qed

text \<open>The entry that is filled is the one on top of the stack of free indices.\<close>

definition free_list :: "driver \<Rightarrow> u32 list" where
  "free_list d = elems (available_entries (CLIPBOARD d))"

lemma set_refines:
  assumes wf: "wf_driver d" and sane: "sane_set m" and free: "occupied d \<noteq> {..<BUF_MAX_COUNT}"
  shows "\<exists>i d'. i < BUF_MAX_COUNT \<and> i \<notin> occupied d \<and> do_clipboard_set m d = Inr (int i, d')
    \<and> wf_driver d' \<and> board_of d' = (board_of d)(i \<mapsto> new_item m)
    \<and> capacity d' = capacity d \<and> free_list d = of_nat i # free_list d'"
proof -
  from wf free obtain i s where i: "i < BUF_MAX_COUNT" "i \<notin> occupied d"
    and s: "wf_stack s" "elems (available_entries (CLIPBOARD d)) = of_nat i # elems s"
      "\<not> is_empty (available_entries (CLIPBOARD d))"
      "top_stack (available_entries (CLIPBOARD d)) = Inr (of_nat i)"
      "pop (available_entries (CLIPBOARD d)) = Inr s"
    by (rule take_free_id)
  have len: "length (entries (CLIPBOARD d)) = BUF_MAX_COUNT"
    using wf by (simp add: wf_driver_def)
  let ?n = "unat (s_buffer_len m)"
  have n: "?n \<le> avail (mem d)" "?n \<le> length (s_buffer m)" "?n \<le> ENTRY_LEN_LIMIT"
    using room_for_one [OF wf i] sane by (simp_all add: sane_set_def)
  from wf have "wf_heap (mem d)" by (simp add: wf_driver_def wf_mem_def)
  from c_heap.store_copy [OF this n(1,2)] obtain p k h where
    h: "malloc ?n (mem d) = (p, k)" "memcpy_in p (s_buffer m) ?n k = Inr h"
      "blocks (mem d) p = None" "blocks h = (blocks (mem d))(p \<mapsto> take ?n (s_buffer m))"
      "avail h + ?n = avail (mem d)" "wf_heap h"
    by metis
  let ?e = "(ent d i)\<lparr>buffer := p, buffer_len := s_buffer_len m,
     decompressed_len := s_decompressed_len m, source_pid := s_pid m, in_use := USED\<rparr>"
  let ?d = "put_entry i ?e ((set_available s d)\<lparr>mem := h\<rparr>)"
  have "in_use (ent d i) = EMPTY" using i by (simp add: occupied_def)
  then have "do_clipboard_set m d = Inr (int i, ?d)"
    using i len s h
    by (simp add: do_clipboard_set_def do_clipboard_real_set_def busy_def locked_def ent_def)
  moreover have "wf_driver ?d \<and> capacity ?d = capacity d"
    by (rule wf_fill [OF wf i s(1,2) h(6,3,4)]) (use h(5) n(2,3) in simp_all)
  moreover have "board_of ?d = (board_of d)(i \<mapsto> new_item m)"
  proof -
    have "blocks h (buffer (ent d j)) = blocks (mem d) (buffer (ent d j))"
      if "j \<in> occupied d - {i}" for j
      using wf_holds_text [OF wf, of j] that h(3,4) by (auto simp: holds_text_iff)
    from board_of_put [OF len i(1) this, of ?e s] show ?thesis
      using item_of_new [of h p m d "ent d i"] h(4) by simp
  qed
  moreover have "free_list d = of_nat i # free_list ?d"
    using s(2) by (simp add: free_list_def)
  ultimately show ?thesis using i by blast
qed

lemma in_range_entries:
  "wf_driver d \<Longrightarrow> in_range (entries (CLIPBOARD d)) i \<longleftrightarrow> 0 \<le> i \<and> i < int BUF_MAX_COUNT"
  by (simp add: in_range_def wf_driver_def)

lemma occupied_locked: "i < BUF_MAX_COUNT \<Longrightarrow> locked (ent d i) \<Longrightarrow> i \<in> occupied d"
  by (simp add: occupied_def locked_def)

lemma board_holder:
  "map_option holder (board_of d i) =
     (if i \<in> occupied d
      then Some (if locked (ent d i) then Some (locking_pid (ent d i)) else None) else None)"
  by (simp add: board_of_def item_of_def)

text \<open>The first step of locking: the lock the process holds is given up.\<close>

lemma unlock_own:
  assumes wf: "wf_driver d"
  shows "\<exists>d'. (let i = get_lock_id pid d in if 0 \<le> i then unlock i d else Inr d) = Inr d'
    \<and> wf_driver d' \<and> capacity d' = capacity d \<and> board_of d' = drop_locks pid (board_of d)
    \<and> pid \<notin> (\<lambda>j. locking_pid (ent d' j)) ` locks d'"
proof (cases "0 \<le> get_lock_id pid d")
  case False
  then have none: "pid \<notin> (\<lambda>j. locking_pid (ent d j)) ` locks d"
    using get_lock_id_none [of pid d] by (auto simp: locks_def)
  then have "drop_locks pid (board_of d) = board_of d"
    by (auto simp: drop_locks_def board_of_def item_of_def fun_eq_iff locks_def occupied_def)
  with False none wf show ?thesis by auto
next
  case True
  then obtain k where k: "get_lock_id pid d = int k" "k < BUF_MAX_COUNT"
    "locking_pid (ent d k) = pid" "locked (ent d k)"
    by (rule get_lock_id_some)
  let ?e = "(ent d k)\<lparr>in_use := USED\<rparr>"
  let ?d = "put_entry k ?e d"
  have len: "length (entries (CLIPBOARD d)) = BUF_MAX_COUNT"
    and inj: "inj_on (\<lambda>j. locking_pid (ent d j)) (locks d)"
    using wf by (simp_all add: wf_parts)
  have occ: "k \<in> occupied d" and lck: "k \<in> locks d"
    using k by (simp_all add: occupied_locked locks_def)
  have ent: "ent ?d = (ent d)(k := ?e)" and "occupied ?d = occupied d"
    and lks: "locks ?d = locks d - {k}"
    using ent_put [OF len k(2), of ?e] occupied_put [OF len k(2), of ?e] occ
      locks_put [OF len k(2), of ?e]
    by (auto simp: locked_def)
  have other: "locking_pid (ent d j) \<noteq> pid" if "j \<in> locks d - {k}" for j
    using inj lck that k(3) by (auto dest: inj_onD)
  then have "pid \<notin> (\<lambda>j. locking_pid (ent ?d j)) ` locks ?d"
    by (auto simp: lks ent)
  moreover have "board_of ?d = drop_locks pid (board_of d)"
  proof
    fix j
    have "locked (ent d j) \<Longrightarrow> locking_pid (ent d j) \<noteq> pid" if "j \<noteq> k" "j \<in> occupied d"
      using other that by (simp add: locks_def occupied_def)
    then show "board_of ?d j = drop_locks pid (board_of d) j"
      using \<open>occupied ?d = occupied d\<close> occ k(3,4)
      by (auto simp: ent drop_locks_def board_of_def item_of_def locked_def)
  qed
  moreover have "wf_driver ?d \<and> capacity ?d = capacity d"
    by (rule wf_relock [OF wf occ, where st = USED and pid = pid]) (use k(3) in auto)
  moreover have "unlock (get_lock_id pid d) d = Inr ?d"
    using k(1,2) len by (simp add: unlock_def ent_def)
  ultimately show ?thesis using True by auto
qed

lemma lock_refines:
  assumes wf: "wf_driver d" and i: "sint (l_id m) = int i" "i < BUF_MAX_COUNT"
  shows "\<exists>d'. do_clipboard_lock m d =
      Inr (if lockable (l_buffer_len m) (drop_locks (l_pid m) (board_of d) i) then OK else - 1, d')
    \<and> wf_driver d' \<and> capacity d' = capacity d
    \<and> board_of d' = (let b = drop_locks (l_pid m) (board_of d)
        in if lockable (l_buffer_len m) (b i) then set_holder (l_pid m) i b else b)"
proof -
  obtain d1 where d1: "(let i = get_lock_id (l_pid m) d in if 0 \<le> i then unlock i d else Inr d) = Inr d1"
      "wf_driver d1" "board_of d1 = drop_locks (l_pid m) (board_of d)"
      "capacity d1 = capacity d"
    and fresh: "l_pid m \<notin> (\<lambda>j. locking_pid (ent d1 j)) ` locks d1"
    using unlock_own [OF wf, of "l_pid m"] by blast
  have len: "length (entries (CLIPBOARD d1)) = BUF_MAX_COUNT"
    using d1(2) by (simp add: wf_driver_def)
  let ?ok = "busy (ent d1 i) \<and> \<not> l_buffer_len m < decompressed_len (ent d1 i)"
  let ?e = "(ent d1 i)\<lparr>in_use := LOCKED, locking_pid := l_pid m\<rparr>"
  have run: "do_clipboard_lock m d =
      Inr (if ?ok then (OK, put_entry i ?e d1) else (- 1, d1))"
    using d1(1) i len
    by (auto simp: do_clipboard_lock_def Let_def lock_by_def ent_def busy_def locked_def)
  have ok_iff: "lockable (l_buffer_len m) (board_of d1 i) \<longleftrightarrow> ?ok"
    using i(2) by (auto simp: lockable_def board_of_def item_of_def occupied_def busy_def locked_def
        intro: slot_state.exhaust)
  show ?thesis
  proof (cases ?ok)
    case False
    with run ok_iff d1 show ?thesis by (simp add: Let_def)
  next
    case True
    then have occ: "i \<in> occupied d1" using i(2) by (simp add: occupied_def busy_def)
    have "wf_driver (put_entry i ?e d1) \<and> capacity (put_entry i ?e d1) = capacity d1"
      by (rule wf_relock [OF d1(2) occ, where st = LOCKED and pid = "l_pid m"]) (use fresh in auto)
    moreover have "board_of (put_entry i ?e d1) = set_holder (l_pid m) i (board_of d1)"
      using ent_put [OF len i(2), of ?e] occupied_put [OF len i(2), of ?e] occ
      by (auto simp: board_of_def item_of_def set_holder_def locked_def fun_eq_iff)
    ultimately show ?thesis using run ok_iff True d1 by (simp add: Let_def)
  qed
qed

lemma delete_refines:
  assumes wf: "wf_driver d" and i: "i \<in> locks d"
  shows "\<exists>d'. delete_entry (of_nat i) d = Inr d' \<and> wf_driver d' \<and> capacity d' = capacity d
    \<and> board_of d' = (board_of d)(i := None) \<and> free_list d' = of_nat i # free_list d"
proof -
  have i': "i < BUF_MAX_COUNT" and lck: "locked (ent d i)" and occ: "i \<in> occupied d"
    using i occupied_locked by (auto simp: locks_def)
  have len: "length (entries (CLIPBOARD d)) = BUF_MAX_COUNT"
    and good: "wf_stack (available_entries (CLIPBOARD d))"
    and dist: "distinct (elems (available_entries (CLIPBOARD d)))"
    and set: "set (elems (available_entries (CLIPBOARD d))) =
      of_nat ` ({..<BUF_MAX_COUNT} - occupied d)"
    and heap: "wf_heap (mem d)"
    using wf by (simp_all add: wf_parts)
  have "of_nat i \<notin> set (elems (available_entries (CLIPBOARD d)))"
    using set occ i' of_nat_index_inj by auto
  moreover have "set (of_nat i # elems (available_entries (CLIPBOARD d)))
      \<subseteq> of_nat ` {..<BUF_MAX_COUNT}"
    using set i' by auto
  moreover have "card (of_nat ` {..<BUF_MAX_COUNT} :: u32 set) \<le> STACK_SIZE"
    using card_image_le [of "{..<BUF_MAX_COUNT}" "of_nat :: nat \<Rightarrow> u32"]
    by (simp add: STACK_SIZE_def BUF_MAX_COUNT_def)
  ultimately obtain s where s: "push (of_nat i) (available_entries (CLIPBOARD d)) = Inr s"
      "wf_stack s" "elems s = of_nat i # elems (available_entries (CLIPBOARD d))"
    using free_ids.give_one [OF good, of "of_nat i" "of_nat ` {..<BUF_MAX_COUNT}"] dist by auto
  obtain bs where bs: "blocks (mem d) (buffer (ent d i)) = Some bs"
      "length bs = unat (buffer_len (ent d i))"
    using wf_holds_text [OF wf occ] by (auto simp: holds_text_iff)
  obtain h where h: "free (buffer (ent d i)) (mem d) = Inr h" "wf_heap h"
      "blocks h = (blocks (mem d))(buffer (ent d i) := None)"
      "avail h = avail (mem d) + unat (buffer_len (ent d i))"
    using c_heap.release_law [OF heap bs(1)] bs(2) by auto
  let ?e = "(ent d i)\<lparr>in_use := EMPTY\<rparr>"
  let ?d = "put_entry i ?e ((set_available s d)\<lparr>mem := h\<rparr>)"
  have "delete_entry (of_nat i) d = Inr ?d"
    using i' len lck s(1) h(1) by (simp add: delete_entry_def ent_def)
  moreover have "wf_driver ?d \<and> capacity ?d = capacity d"
    by (rule wf_release [OF wf occ s(2,3) h(2,3,4) _ refl]) simp
  moreover have "board_of ?d = (board_of d)(i := None)"
  proof -
    have "blocks h (buffer (ent d j)) = blocks (mem d) (buffer (ent d j))"
      if "j \<in> occupied d - {i}" for j
      using that wf occ h(3) by (auto simp: wf_parts dest: inj_onD)
    from board_of_put [OF len i' this] show ?thesis by simp
  qed
  moreover have "free_list ?d = of_nat i # free_list d"
    using s(3) by (simp add: free_list_def)
  ultimately show ?thesis by blast
qed

text \<open>The message \<open>do_clipboard_get\<close> fills: an item over what the buffer held before.\<close>

definition get_reply :: "item \<Rightarrow> byte list \<Rightarrow> clipboard_get_msg" where
  "get_reply it junk =
     \<lparr>g_buffer_len = of_nat (length (contents it)), g_decompressed_len = plain_len it,
      g_buffer = overwrite 0 (contents it) junk\<rparr>"

lemma get_without_lock:
  assumes "\<And>i. \<not> held_by pid (board_of d) i"
  shows "do_clipboard_get msg pid d = Inr (- 1, msg, d)"
proof -
  have "\<not> (locking_pid (ent d j) = pid \<and> locked (ent d j))" if "j < BUF_MAX_COUNT" for j
    using assms [of j] occupied_locked [OF that]
    by (auto simp: held_by_def board_of_def item_of_def)
  then have "get_lock_id pid d < 0" by (simp add: get_lock_id_none)
  then show ?thesis by (simp add: do_clipboard_get_def)
qed

lemma held_by_lock:
  "held_by pid (board_of d) i \<longleftrightarrow> i \<in> locks d \<and> locking_pid (ent d i) = pid"
  using occupied_less occupied_locked
  by (auto simp: held_by_def board_of_def item_of_def locks_def)

lemma held_by_unique:
  "wf_driver d \<Longrightarrow> held_by pid (board_of d) i \<Longrightarrow> held_by pid (board_of d) j \<Longrightarrow> i = j"
  by (auto simp: held_by_lock wf_parts dest: inj_onD)

lemma get_refines:
  assumes wf: "wf_driver d" and msg: "length (g_buffer msg) = ENTRY_LEN_LIMIT"
    and held: "held_by pid (board_of d) i"
  shows "\<exists>it d'. board_of d i = Some it \<and> length (contents it) \<le> ENTRY_LEN_LIMIT
    \<and> do_clipboard_get msg pid d = Inr (OK, get_reply it (g_buffer msg), d')
    \<and> wf_driver d' \<and> capacity d' = capacity d \<and> board_of d' = (board_of d)(i := None)
    \<and> free_list d' = of_nat i # free_list d"
proof -
  have i: "i \<in> locks d" "locking_pid (ent d i) = pid" "i < BUF_MAX_COUNT" "i \<in> occupied d"
    using held occupied_locked by (auto simp: held_by_lock locks_def)
  have len: "length (entries (CLIPBOARD d)) = BUF_MAX_COUNT" and "wf_locks d"
    using wf by (simp_all add: wf_driver_def)
  with i have id: "get_lock_id pid d = int i" by (intro get_lock_id_unique)
  obtain bs where bs: "blocks (mem d) (buffer (ent d i)) = Some bs"
      "length bs = unat (buffer_len (ent d i))" "length bs \<le> ENTRY_LEN_LIMIT"
    using wf_holds_text [OF wf i(4)] by (auto simp: holds_text_iff)
  have fetch: "memcpy_out (buffer (ent d i)) (unat (buffer_len (ent d i))) (mem d) = Inr bs"
    using c_heap.fetch_all [OF bs(1)] bs(2) by simp
  obtain d' where d': "delete_entry (of_nat i) d = Inr d'" "wf_driver d'"
      "capacity d' = capacity d" "board_of d' = (board_of d)(i := None)"
      "free_list d' = of_nat i # free_list d"
    using delete_refines [OF wf i(1)] by blast
  let ?it = "item_of d (ent d i)"
  have it: "contents ?it = bs" "plain_len ?it = decompressed_len (ent d i)"
    using bs(1) by (simp_all add: item_of_def)
  have "do_clipboard_get msg pid d = Inr (OK, get_reply ?it (g_buffer msg), d')"
    using id len i(3) bs(2,3) msg fetch d'(1)
    by (simp add: do_clipboard_get_def ent_def [symmetric] get_reply_def it)
  with d' it(1) bs(3) i(4) show ?thesis
    by (auto simp: board_of_def)
qed

section \<open>Faults\<close>

text \<open>Exactly which messages take the driver out of defined behaviour.\<close>

lemma set_faults_iff:
  assumes wf: "wf_driver d" and len: "length (s_buffer m) = ENTRY_LEN_LIMIT"
  shows "\<not> no_fault (do_clipboard_set m d) \<longleftrightarrow>
     occupied d \<noteq> {..<BUF_MAX_COUNT} \<and> ENTRY_LEN_LIMIT < unat (s_buffer_len m)"
proof (cases "occupied d = {..<BUF_MAX_COUNT}")
  case True
  with wf show ?thesis by (simp add: set_when_full)
next
  case free: False
  show ?thesis
  proof (cases "unat (s_buffer_len m) \<le> ENTRY_LEN_LIMIT")
    case True
    with wf len free show ?thesis
      using set_refines [of d m] by (auto simp: sane_set_def)
  next
    case False
    obtain i s where i: "i < BUF_MAX_COUNT" "i \<notin> occupied d"
      and s: "\<not> is_empty (available_entries (CLIPBOARD d))"
        "top_stack (available_entries (CLIPBOARD d)) = Inr (of_nat i)"
        "pop (available_entries (CLIPBOARD d)) = Inr s"
      using take_free_id [OF wf free] by metis
    have "memcpy_in p (s_buffer m) (unat (s_buffer_len m)) h = Inl Out_Of_Bounds" for p h
      using False len by (auto simp: memcpy_in_def)
    then have "do_clipboard_real_set (int i) m d' = Inl Out_Of_Bounds" for d'
      by (simp add: do_clipboard_real_set_def split: prod.split)
    moreover have "in_use (ent d i) = EMPTY" using i by (simp add: occupied_def)
    ultimately have "do_clipboard_set m d = Inl Out_Of_Bounds"
      using i s wf
      by (simp add: do_clipboard_set_def wf_driver_def busy_def locked_def ent_def)
    with free False show ?thesis by simp
  qed
qed

lemma lock_faults_iff:
  assumes wf: "wf_driver d"
  shows "\<not> no_fault (do_clipboard_lock m d) \<longleftrightarrow> BUF_MAX_COUNT \<le> unat (l_id m)"
proof -
  obtain d1 where d1: "(let i = get_lock_id (l_pid m) d in if 0 \<le> i then unlock i d else Inr d) = Inr d1"
      "wf_driver d1"
    using unlock_own [OF wf, of "l_pid m"] by blast
  have rng: "in_range (entries (CLIPBOARD d1)) (sint (l_id m)) \<longleftrightarrow> unat (l_id m) < BUF_MAX_COUNT"
    using index_range_iff [of BUF_MAX_COUNT "l_id m"]
    by (simp add: in_range_entries [OF d1(2)] BUF_MAX_COUNT_def)
  show ?thesis
  proof (cases "unat (l_id m) < BUF_MAX_COUNT")
    case False
    with rng d1(1) have "do_clipboard_lock m d = Inl Out_Of_Bounds"
      by (simp add: do_clipboard_lock_def Let_def entry_at_def aget_outside)
    with False show ?thesis by simp
  next
    case True
    then have "sint (l_id m) = int (unat (l_id m))"
      by (intro sint_eq_unat) (simp add: BUF_MAX_COUNT_def)
    from lock_refines [OF wf this True] True show ?thesis by auto
  qed
qed

section \<open>The initial state\<close>

lemma init_establishes:
  assumes "length (entries (CLIPBOARD d)) = BUF_MAX_COUNT"
    and "length (vals (available_entries (CLIPBOARD d))) = STACK_SIZE"
    and "wf_heap (mem d)" and "blocks (mem d) = Map.empty"
    and "BUF_MAX_COUNT * ENTRY_LEN_LIMIT \<le> avail (mem d)"
  shows "wf_driver (clipboard_init d)" and "board_of (clipboard_init d) = Map.empty"
proof -
  let ?d = "clipboard_init d"
  have fields: "entries (CLIPBOARD ?d) = map (\<lambda>e. e\<lparr>in_use := EMPTY\<rparr>) (entries (CLIPBOARD d))"
    "available_entries (CLIPBOARD ?d) = init (available_entries (CLIPBOARD d))" "mem ?d = mem d"
    using assms(1) by (simp_all add: clipboard_init_def Let_def clear_slots_map set_available_def)
  then have ent: "in_use (ent ?d i) = EMPTY" if "i < BUF_MAX_COUNT" for i
    using that assms(1) by (simp add: ent_def)
  then have occ: "occupied ?d = {}" and lck: "locks ?d = {}"
    by (auto simp: occupied_def locks_def locked_def)
  have el: "elems (init (available_entries (CLIPBOARD d))) = rev (map of_nat [0..<BUF_MAX_COUNT])"
    using assms(2) by (simp add: elems_init STACK_SIZE_def BUF_MAX_COUNT_def)
  have "wf_free ?d"
    using wf_init [OF assms(2)] of_nat_index_inj
    by (auto simp: wf_free_def fields el occ distinct_map inj_on_def)
  with assms show "wf_driver ?d"
    by (simp add: wf_parts fields occ lck capacity_def)
  show "board_of ?d = Map.empty"
    by (simp add: board_of_def occ)
qed

end
