(* ===== verification/Device_IO.thy ===== *)
theory Device_IO
  imports Clipboard_Spec
begin

text \<open>
  The request handlers of the driver, \<open>clipboard_open\<close>, \<open>clipboard_close\<close>, \<open>clipboard_read\<close>
  and \<open>clipboard_write\<close> of \<open>bw386389.c\<close>, the states a driver that serves well-behaved clients
  can reach, and the contract of the device as the library functions see it (the locale
  \<open>clipboard_device\<close>).

  The kernel calls \<open>sys_safecopyfrom\<close> and \<open>sys_safecopyto\<close> are parameters: the first yields
  an error code or the bytes of the requester's buffer, the second a return code.  The
  message structures are uninitialised variables of the handlers, so what they held before
  (\<open>junk\<close>) is a parameter too.
\<close>

section \<open>The handlers\<close>

type_synonym copy_from = "u32 \<Rightarrow> u32 \<Rightarrow> nat \<Rightarrow> int + byte list"
type_synonym copy_to = "u32 \<Rightarrow> u32 \<Rightarrow> byte list \<Rightarrow> int"

definition clipboard_open :: "u32 \<Rightarrow> int \<Rightarrow> u32 \<Rightarrow> driver \<Rightarrow> (int \<times> driver) cres" where
  "clipboard_open minor access user_endpt d = Inr (OK, d)"

definition clipboard_close :: "u32 \<Rightarrow> driver \<Rightarrow> (int \<times> driver) cres" where
  "clipboard_close minor d = Inr (OK, d)"

text \<open>
  The second component of the result of \<open>clipboard_read\<close> is what was copied to the requester.
  The assignment \<open>ret = do_clipboard_get(...) != OK\<close> stores the truth value of the comparison.
\<close>

definition clipboard_read ::
  "copy_to \<Rightarrow> byte list \<Rightarrow> u32 \<Rightarrow> u32 \<Rightarrow> u32 \<Rightarrow> driver \<Rightarrow> (int \<times> byte list option \<times> driver) cres"
where
  "clipboard_read copyto junk endpt grant sz d =
     (if IS_PID_QUERY sz then
        let i = sint (DECODE_ID sz)
        in if \<not> IS_CORRECT_ID sz then Inr (- 1, None, d)
           else rbind (entry_at i d) (\<lambda>e. Inr (sint (source_pid e), None, d))
      else
        let pid = DECODE_PID sz
        in if sint pid < 0 then Inr (- 1, None, d)
           else rbind (do_clipboard_get (get_of junk) pid d) (\<lambda>(r, msg, d').
             let ret = (if r \<noteq> OK then 1 else 0)
             in if ret \<noteq> 0 then Inr (ret, None, d')
                else let ret = copyto endpt grant (get_bytes msg)
                     in if ret \<noteq> OK then Inr (ret, None, d')
                        else Inr (OK, Some (get_bytes msg), d')))"

definition clipboard_write ::
  "copy_from \<Rightarrow> byte list \<Rightarrow> u32 \<Rightarrow> u32 \<Rightarrow> u32 \<Rightarrow> driver \<Rightarrow> (int \<times> driver) cres"
where
  "clipboard_write copyfrom junk endpt grant sz d =
     (if \<not> LOCK_SIZE \<noteq> GET_SIZE then Inl Assert_Failed
      else if unat sz = LOCK_SIZE \<or> unat sz = SET_SIZE then
        case copyfrom endpt grant (unat sz) of
          Inl ret \<Rightarrow> Inr (ret, d)
        | Inr bs \<Rightarrow>
            let msg = overwrite 0 bs junk
            in if unat sz = LOCK_SIZE then do_clipboard_lock (lock_of msg) d
               else if unat sz = SET_SIZE then do_clipboard_set (set_of msg) d
               else Inr (- 1, d)
      else Inr (- 1, d))"

section \<open>Decoding of requests\<close>

text \<open>The variable \<open>struct clipboard_write_msg msg\<close> has the size of its larger member.\<close>

definition write_junk :: "byte list \<Rightarrow> bool" where
  "write_junk junk \<longleftrightarrow> length junk = SET_SIZE"

definition read_junk :: "byte list \<Rightarrow> bool" where
  "read_junk junk \<longleftrightarrow> length junk = GET_SIZE"

lemma size_values: "LOCK_SIZE = 12" "GET_SIZE = 1032" "SET_SIZE = 1036"
  by (simp_all add: protocol_sizes)

lemma write_lock_request:
  assumes "copyfrom e g LOCK_SIZE = Inr (lock_bytes m)"
  shows "clipboard_write copyfrom junk e g (of_nat LOCK_SIZE) d = do_clipboard_lock m d"
  using assms lock_of_bytes [of m "drop LOCK_SIZE junk"]
  by (simp add: clipboard_write_def size_values overwrite_0)

lemma write_set_request:
  assumes "copyfrom e g SET_SIZE = Inr (set_bytes m)" and "length (s_buffer m) = ENTRY_LEN_LIMIT"
  shows "clipboard_write copyfrom junk e g (of_nat SET_SIZE) d = do_clipboard_set m d"
  using assms set_of_bytes [of m "drop SET_SIZE junk"]
  by (simp add: clipboard_write_def size_values overwrite_0 length_set_bytes)

lemma write_other_size:
  "unat sz \<noteq> LOCK_SIZE \<Longrightarrow> unat sz \<noteq> SET_SIZE \<Longrightarrow> clipboard_write cf junk e g sz d = Inr (- 1, d)"
  by (simp add: clipboard_write_def size_values)

lemma write_copy_error:
  "unat sz = LOCK_SIZE \<or> unat sz = SET_SIZE \<Longrightarrow> cf e g (unat sz) = Inl err \<Longrightarrow>
   clipboard_write cf junk e g sz d = Inr (err, d)"
  by (simp add: clipboard_write_def size_values)

lemma read_owner_query:
  assumes "i < BUF_MAX_COUNT" and "length (entries (CLIPBOARD d)) = BUF_MAX_COUNT"
  shows "clipboard_read ct junk e g (ENCODE_ID (of_nat i)) d =
    Inr (sint (source_pid (ent d i)), None, d)"
  using assms of_nat_index [OF assms(1)]
  by (simp add: clipboard_read_def ENCODE_ID_def DECODE_ID_def IS_PID_QUERY_def IS_CORRECT_ID_def
      ent_def size_values BUF_MAX_COUNT_def)

lemma read_wrong_id:
  "BUF_MAX_COUNT \<le> unat sz \<Longrightarrow> unat sz < GET_SIZE \<Longrightarrow> clipboard_read ct junk e g sz d = Inr (- 1, None, d)"
  by (simp add: clipboard_read_def IS_PID_QUERY_def IS_CORRECT_ID_def)

text \<open>A process identifier as \<open>getpid\<close> returns it is not negative.\<close>

lemma pid_no_query:
  assumes "0 \<le> sint pid"
  shows "\<not> IS_PID_QUERY (ENCODE_PID pid)"
proof -
  have "unat pid < 2 ^ 31"
    using assms by (simp add: sint_nonneg_iff)
  then show ?thesis
    by (intro encode_pid_no_query) (simp add: size_values)
qed

lemma read_take_request:
  assumes "0 \<le> sint pid"
  shows "clipboard_read ct junk e g (ENCODE_PID pid) d =
    rbind (do_clipboard_get (get_of junk) pid d) (\<lambda>(r, msg, d').
      if r \<noteq> OK then Inr (1, None, d')
      else if ct e g (get_bytes msg) \<noteq> OK then Inr (ct e g (get_bytes msg), None, d')
      else Inr (OK, Some (get_bytes msg), d'))"
  using assms pid_no_query [OF assms]
  by (cases "do_clipboard_get (get_of junk) pid d")
    (auto simp: clipboard_read_def decode_encode_pid Let_def OK_def)

section \<open>States a serving driver reaches\<close>

text \<open>The driver after a fresh start: static storage at \<open>a\<close>, an empty heap, \<open>clipboard_init\<close>.\<close>

definition fresh_driver :: "nat \<Rightarrow> heap \<Rightarrow> driver" where
  "fresh_driver a h = clipboard_init \<lparr>CLIPBOARD = static_clipboard a, mem = h\<rparr>"

definition fresh_heap :: "heap \<Rightarrow> bool" where
  "fresh_heap h \<longleftrightarrow> wf_heap h \<and> blocks h = Map.empty \<and> BUF_MAX_COUNT * ENTRY_LEN_LIMIT \<le> avail h"

text \<open>
  A write request the driver can serve: the kernel copies exactly the bytes asked for, a lock
  names an existing entry, a set announces no more bytes than the message holds.
\<close>

definition sane_write :: "copy_from \<Rightarrow> u32 \<Rightarrow> u32 \<Rightarrow> u32 \<Rightarrow> bool" where
  "sane_write cf e g sz \<longleftrightarrow>
     (case cf e g (unat sz) of
        Inl err \<Rightarrow> True
      | Inr bs \<Rightarrow> length bs = unat sz
          \<and> (unat sz = LOCK_SIZE \<longrightarrow> unat (l_id (lock_of bs)) < BUF_MAX_COUNT)
          \<and> (unat sz = SET_SIZE \<longrightarrow> unat (s_buffer_len (set_of bs)) \<le> ENTRY_LEN_LIMIT))"

inductive serves :: "copy_from \<Rightarrow> copy_to \<Rightarrow> driver \<Rightarrow> driver \<Rightarrow> bool" for cf ct where
  serve_read: "length junk = GET_SIZE \<Longrightarrow> clipboard_read ct junk e g sz d = Inr (r, out, d') \<Longrightarrow>
    serves cf ct d d'"
| serve_write: "length junk = SET_SIZE \<Longrightarrow> sane_write cf e g sz \<Longrightarrow>
    clipboard_write cf junk e g sz d = Inr (r, d') \<Longrightarrow> serves cf ct d d'"

inductive reachable :: "copy_from \<Rightarrow> copy_to \<Rightarrow> nat \<Rightarrow> heap \<Rightarrow> driver \<Rightarrow> bool" for cf ct a h where
  boot: "reachable cf ct a h (fresh_driver a h)"
| serve: "reachable cf ct a h d \<Longrightarrow> serves cf ct d d' \<Longrightarrow> reachable cf ct a h d'"

inductive_cases servesE: "serves cf ct d d'"

lemma fresh_wf:
  assumes "fresh_heap h"
  shows "wf_driver (fresh_driver a h)" and "board_of (fresh_driver a h) = Map.empty"
    and "capacity (fresh_driver a h) = avail h"
proof -
  let ?d = "\<lparr>CLIPBOARD = static_clipboard a, mem = h\<rparr>"
  note init = init_establishes [of ?d]
  show "wf_driver (fresh_driver a h)" and board: "board_of (fresh_driver a h) = Map.empty"
    using init assms by (simp_all add: fresh_driver_def fresh_heap_def static_clipboard_def)
  have "occupied (fresh_driver a h) = {}"
    using board by (auto simp: board_of_def fun_eq_iff split: if_splits)
  then show "capacity (fresh_driver a h) = avail h"
    by (simp add: capacity_def) (simp add: fresh_driver_def clipboard_init_def Let_def)
qed

text \<open>Every lock or set of a well-formed state returns in a well-formed state.\<close>

lemma lock_keeps:
  assumes "wf_driver d" and "unat (l_id m) < BUF_MAX_COUNT"
  obtains r d' where "do_clipboard_lock m d = Inr (r, d')" "wf_driver d'" "capacity d' = capacity d"
proof -
  have "sint (l_id m) = int (unat (l_id m))"
    using assms(2) by (intro sint_eq_unat) (simp add: BUF_MAX_COUNT_def)
  from lock_refines [OF assms(1) this assms(2)] that show thesis by blast
qed

lemma set_keeps:
  assumes "wf_driver d" and "sane_set m"
  obtains r d' where "do_clipboard_set m d = Inr (r, d')" "wf_driver d'" "capacity d' = capacity d"
  using set_refines [OF assms] set_when_full [OF assms(1)] assms(1) that
  by (cases "occupied d = {..<BUF_MAX_COUNT}") blast+

lemma get_keeps:
  assumes "wf_driver d" and "length (g_buffer msg) = ENTRY_LEN_LIMIT"
  obtains r msg' d' where "do_clipboard_get msg pid d = Inr (r, msg', d')" "wf_driver d'"
    "capacity d' = capacity d"
  using get_refines [OF assms] get_without_lock [of pid d msg] assms(1) that
  by (cases "\<exists>i. held_by pid (board_of d) i") blast+

lemma length_get_of: "length junk = GET_SIZE \<Longrightarrow> length (g_buffer (get_of junk)) = ENTRY_LEN_LIMIT"
  by (simp add: get_of_def protocol_sizes)

lemma length_set_of: "length bs = SET_SIZE \<Longrightarrow> length (s_buffer (set_of bs)) = ENTRY_LEN_LIMIT"
  by (simp add: set_of_def protocol_sizes)

lemma read_keeps:
  assumes wf: "wf_driver d" and junk: "length junk = GET_SIZE"
  obtains r out d' where "clipboard_read ct junk e g sz d = Inr (r, out, d')" "wf_driver d'"
    "capacity d' = capacity d"
proof (cases "IS_PID_QUERY sz")
  case True
  show thesis
  proof (cases "IS_CORRECT_ID sz")
    case False
    with True wf that show thesis by (simp add: clipboard_read_def)
  next
    case correct: True
    then have lt: "unat sz < BUF_MAX_COUNT" by (simp add: IS_CORRECT_ID_def)
    then have eq: "sint sz = int (unat sz)"
      by (intro sint_eq_unat) (simp add: BUF_MAX_COUNT_def)
    have "entry_at (sint sz) d = Inr (ent d (unat sz))"
      unfolding eq entry_at_int using lt wf by (simp add: wf_driver_def ent_def)
    with True correct wf that show thesis
      by (simp add: clipboard_read_def DECODE_ID_def)
  qed
next
  case False
  obtain r msg d' where d': "do_clipboard_get (get_of junk) (DECODE_PID sz) d = Inr (r, msg, d')"
      "wf_driver d'" "capacity d' = capacity d"
    using get_keeps [OF wf length_get_of [OF junk]] by blast
  consider "sint (DECODE_PID sz) < 0" | "0 \<le> sint (DECODE_PID sz)" "r \<noteq> OK"
    | "0 \<le> sint (DECODE_PID sz)" "r = OK" "ct e g (get_bytes msg) \<noteq> OK"
    | "0 \<le> sint (DECODE_PID sz)" "r = OK" "ct e g (get_bytes msg) = OK"
    by linarith
  then show thesis
    by cases (use False wf d' that in \<open>simp_all add: clipboard_read_def\<close>)
qed

lemma write_keeps:
  assumes wf: "wf_driver d" and junk: "length junk = SET_SIZE" and sane: "sane_write cf e g sz"
  obtains r d' where "clipboard_write cf junk e g sz d = Inr (r, d')" "wf_driver d'"
    "capacity d' = capacity d"
proof (cases "unat sz = LOCK_SIZE \<or> unat sz = SET_SIZE")
  case False
  with wf that write_other_size show thesis by blast
next
  case True
  show thesis
  proof (cases "cf e g (unat sz)")
    case (Inl err)
    with wf that write_copy_error [of sz cf e g err junk d, OF True] show thesis by blast
  next
    case (Inr bs)
    note bs = sane [unfolded sane_write_def Inr, simplified]
    from True show thesis
    proof
      assume sz: "unat sz = LOCK_SIZE"
      with bs have "lock_of (overwrite 0 bs junk) = lock_of bs"
        by (auto simp: lock_of_def overwrite_0 size_values)
      with sz Inr have "clipboard_write cf junk e g sz d = do_clipboard_lock (lock_of bs) d"
        by (simp add: clipboard_write_def size_values)
      with lock_keeps [OF wf, of "lock_of bs"] bs sz that show thesis by metis
    next
      assume sz: "unat sz = SET_SIZE"
      with bs junk Inr have "clipboard_write cf junk e g sz d = do_clipboard_set (set_of bs) d"
        by (simp add: clipboard_write_def overwrite_0 size_values)
      moreover have "sane_set (set_of bs)"
        using bs sz by (simp add: sane_set_def length_set_of)
      ultimately show thesis using set_keeps [OF wf] that by metis
    qed
  qed
qed

lemma serves_wf: "serves cf ct d d' \<Longrightarrow> wf_driver d \<Longrightarrow> wf_driver d' \<and> capacity d' = capacity d"
  by (erule servesE) (metis Inr_inject prod.inject read_keeps, metis Inr_inject prod.inject write_keeps)

lemma reachable_inv:
  assumes "reachable cf ct a h d" and "fresh_heap h"
  shows "wf_driver d \<and> capacity d = avail h"
  using assms
proof (induction rule: reachable.induct)
  case boot
  then show ?case by (simp add: fresh_wf)
next
  case (serve d d')
  then show ?case using serves_wf by metis
qed

end
