(* ===== verification/Device_Port.thy ===== *)
theory Device_Port
  imports Device_IO
begin

text \<open>
  The device as a process sees it through \<open>read\<close> and \<open>write\<close>: the contract \<open>clipboard_device\<close>
  in terms of the abstract clipboard, what follows from the contract alone, and the driver of
  theories \<open>Clipboard\<close> and \<open>Device_IO\<close> as an implementation of it.
\<close>

section \<open>The contract\<close>

definition full_board :: "board \<Rightarrow> bool" where
  "full_board b \<longleftrightarrow> (\<forall>i\<in>{..<BUF_MAX_COUNT}. b i \<noteq> None)"

definition lock_msg :: "u32 \<Rightarrow> nat \<Rightarrow> u32 \<Rightarrow> clipboard_lock_msg" where
  "lock_msg pid i n = \<lparr>l_pid = pid, l_id = of_nat i, l_buffer_len = n\<rparr>"

locale clipboard_device =
  fixes dev_read :: "u32 \<Rightarrow> 's \<Rightarrow> (int \<times> byte list option \<times> 's) cres"
    and dev_write :: "byte list \<Rightarrow> 's \<Rightarrow> (int \<times> 's) cres"
    and board :: "'s \<Rightarrow> board"
    and good :: "'s \<Rightarrow> bool"
  assumes dom_board: "good s \<Longrightarrow> board s i = Some it \<Longrightarrow>
      i < BUF_MAX_COUNT \<and> length (contents it) \<le> ENTRY_LEN_LIMIT"
    and one_lock: "good s \<Longrightarrow> held_by pid (board s) i \<Longrightarrow> held_by pid (board s) j \<Longrightarrow> i = j"
    and set_full: "good s \<Longrightarrow> sane_set m \<Longrightarrow> full_board (board s) \<Longrightarrow>
      dev_write (set_bytes m) s = Inr (- 1, s)"
    and set_law: "good s \<Longrightarrow> sane_set m \<Longrightarrow> \<not> full_board (board s) \<Longrightarrow>
      \<exists>i t. i < BUF_MAX_COUNT \<and> board s i = None \<and> dev_write (set_bytes m) s = Inr (int i, t)
        \<and> good t \<and> board t = (board s)(i \<mapsto> new_item m)"
    and lock_law: "good s \<Longrightarrow> i < BUF_MAX_COUNT \<Longrightarrow>
      \<exists>t. dev_write (lock_bytes (lock_msg pid i n)) s =
            Inr (if lockable n (drop_locks pid (board s) i) then OK else - 1, t)
        \<and> good t \<and> board t = (let b = drop_locks pid (board s)
             in if lockable n (b i) then set_holder pid i b else b)"
    and take_law: "good s \<Longrightarrow> 0 \<le> sint pid \<Longrightarrow> held_by pid (board s) i \<Longrightarrow>
      \<exists>it junk t. board s i = Some it \<and> length junk = ENTRY_LEN_LIMIT
        \<and> dev_read (ENCODE_PID pid) s = Inr (OK, Some (get_bytes (get_reply it junk)), t)
        \<and> good t \<and> board t = (board s)(i := None)"
    and take_none: "good s \<Longrightarrow> 0 \<le> sint pid \<Longrightarrow> (\<And>i. \<not> held_by pid (board s) i) \<Longrightarrow>
      dev_read (ENCODE_PID pid) s = Inr (1, None, s)"
    and owner_law: "good s \<Longrightarrow> i < BUF_MAX_COUNT \<Longrightarrow>
      \<exists>p. dev_read (ENCODE_ID (of_nat i)) s = Inr (p, None, s)
        \<and> (\<forall>it. board s i = Some it \<longrightarrow> p = sint (owner it))"
begin

text \<open>A process that locked an item takes exactly this item, and the others stay.\<close>

lemma lock_then_take:
  assumes s: "good s" and pid: "0 \<le> sint pid"
    and it: "board s i = Some it" "holder it = None" "\<not> n < plain_len it"
  shows "\<exists>t u junk. dev_write (lock_bytes (lock_msg pid i n)) s = Inr (OK, t) \<and> good t
    \<and> dev_read (ENCODE_PID pid) t = Inr (OK, Some (get_bytes (get_reply it junk)), u)
    \<and> length junk = ENTRY_LEN_LIMIT
    \<and> good u \<and> board u = (drop_locks pid (board s))(i := None)"
proof -
  let ?b = "drop_locks pid (board s)"
  have i: "i < BUF_MAX_COUNT" using dom_board [OF s it(1)] by simp
  have bi: "?b i = Some it" using it(1,2) by (simp add: drop_locks_def)
  with it have "lockable n (?b i)" by (simp add: lockable_def)
  with lock_law [OF s i, of pid n] obtain t where
    t: "dev_write (lock_bytes (lock_msg pid i n)) s = Inr (OK, t)" "good t"
      "board t = set_holder pid i ?b"
    by (auto simp: Let_def)
  have ti: "board t i = Some (it\<lparr>holder := Some pid\<rparr>)"
    using bi t(3) by (simp add: set_holder_def)
  then have "held_by pid (board t) i" by (simp add: held_by_def)
  from take_law [OF t(2) pid this] ti obtain junk u where
    u: "dev_read (ENCODE_PID pid) t =
        Inr (OK, Some (get_bytes (get_reply (it\<lparr>holder := Some pid\<rparr>) junk)), u)"
      "length junk = ENTRY_LEN_LIMIT" "good u" "board u = (board t)(i := None)"
    by auto
  have "get_reply (it\<lparr>holder := Some pid\<rparr>) junk = get_reply it junk"
    by (simp add: get_reply_def)
  moreover have "board u = ?b(i := None)"
    using u(4) t(3) by (simp add: set_holder_def)
  ultimately show ?thesis using t u by metis
qed

text \<open>An item that is absent, held by another process or too long is refused and stays.\<close>

lemma lock_refused:
  assumes s: "good s" and i: "i < BUF_MAX_COUNT"
    and no: "\<not> lockable n (drop_locks pid (board s) i)"
  shows "\<exists>t. dev_write (lock_bytes (lock_msg pid i n)) s = Inr (- 1, t) \<and> good t
    \<and> board t = drop_locks pid (board s)"
  using lock_law [OF s i, of pid n] no by (simp add: Let_def)

text \<open>What a client reads of the taken text.\<close>

lemma reply_decodes:
  assumes "good s" and "board s i = Some it" and "length junk = ENTRY_LEN_LIMIT"
  shows "take (unat (g_buffer_len (get_of (get_bytes (get_reply it junk)))))
      (g_buffer (get_of (get_bytes (get_reply it junk)))) = contents it"
proof -
  have le: "length (contents it) \<le> ENTRY_LEN_LIMIT"
    using dom_board [OF assms(1,2)] by simp
  then have "get_of (get_bytes (get_reply it junk)) = get_reply it junk"
    using get_of_bytes [of "get_reply it junk" "[]"] assms(3)
    by (simp add: get_reply_def)
  moreover have "unat (of_nat (length (contents it)) :: u32) = length (contents it)"
    using le by (simp add: unat_of_nat take_bit_nat_eq_self ENTRY_LEN_LIMIT_def)
  ultimately show ?thesis by (simp add: get_reply_def)
qed

end

text \<open>A device that hands out the identifier that was given back last.\<close>

locale recycling_device = clipboard_device +
  fixes unused :: "'a \<Rightarrow> u32 list"
  assumes take_next: "good s \<Longrightarrow> 0 \<le> sint pid \<Longrightarrow> held_by pid (board s) i \<Longrightarrow>
      dev_read (ENCODE_PID pid) s = Inr (r, out, t) \<Longrightarrow> unused t = of_nat i # unused s"
    and set_next: "good s \<Longrightarrow> sane_set m \<Longrightarrow> \<not> full_board (board s) \<Longrightarrow> j < BUF_MAX_COUNT \<Longrightarrow>
      dev_write (set_bytes m) s = Inr (int j, t) \<Longrightarrow> unused s = of_nat j # unused t"
begin

lemma set_after_take:
  assumes "good s" and "0 \<le> sint pid" and "held_by pid (board s) i" and "sane_set m"
  shows "\<exists>out t u. dev_read (ENCODE_PID pid) s = Inr (OK, out, t) \<and> good t
    \<and> board t = (board s)(i := None)
    \<and> dev_write (set_bytes m) t = Inr (int i, u) \<and> good u \<and> board u = (board s)(i \<mapsto> new_item m)"
proof -
  obtain out t where t: "dev_read (ENCODE_PID pid) s = Inr (OK, out, t)" "good t"
      "board t = (board s)(i := None)"
    using take_law [OF assms(1-3)] by blast
  have i: "i < BUF_MAX_COUNT"
    using assms(1,3) dom_board by (auto simp: held_by_def split: option.splits)
  with t(3) have free: "\<not> full_board (board t)"
    by (auto simp: full_board_def)
  obtain j u where u: "j < BUF_MAX_COUNT" "dev_write (set_bytes m) t = Inr (int j, u)" "good u"
      "board u = (board t)(j \<mapsto> new_item m)"
    using set_law [OF t(2) assms(4) free] by blast
  have "(of_nat i :: u32) = of_nat j"
    using take_next [OF assms(1-3) t(1)] set_next [OF t(2) assms(4) free u(1,2)] by simp
  with i u(1) have "j = i" by (simp add: of_nat_index_inj)
  with t u show ?thesis by auto
qed

end

section \<open>The driver behind the system calls\<close>

text \<open>
  A system call whose grant covers the bytes it names: the kernel copies succeed.  The stack
  contents \<open>junk\<close> the handlers find are arbitrary; \<open>fit\<close> gives them the size of the variable.
\<close>

definition fit :: "nat \<Rightarrow> byte list \<Rightarrow> byte list" where
  "fit n bs = take n (bs @ replicate n 0)"

definition port_read :: "byte list \<Rightarrow> u32 \<Rightarrow> driver \<Rightarrow> (int \<times> byte list option \<times> driver) cres" where
  "port_read junk sz d = clipboard_read (\<lambda>e g bs. OK) (fit GET_SIZE junk) 0 0 sz d"

definition port_write :: "byte list \<Rightarrow> byte list \<Rightarrow> driver \<Rightarrow> (int \<times> driver) cres" where
  "port_write junk bs d =
     clipboard_write (\<lambda>e g n. Inr (fit n bs)) (fit SET_SIZE junk) 0 0 (of_nat (length bs)) d"

lemma length_fit [simp]: "length (fit n bs) = n"
  by (simp add: fit_def)

lemma fit_id [simp]: "length bs = n \<Longrightarrow> fit n bs = bs"
  by (simp add: fit_def)

lemma full_board_of: "full_board (board_of d) \<longleftrightarrow> occupied d = {..<BUF_MAX_COUNT}"
  by (auto simp: full_board_def board_of_def occupied_def split: if_splits)

lemma board_of_None: "board_of d i = None \<longleftrightarrow> i \<notin> occupied d"
  by (simp add: board_of_def)

lemma port_write_set:
  "sane_set m \<Longrightarrow> port_write junk (set_bytes m) d = do_clipboard_set m d"
  unfolding port_write_def sane_set_def
  by (simp add: length_set_bytes write_set_request)

lemma port_write_lock: "port_write junk (lock_bytes m) d = do_clipboard_lock m d"
  unfolding port_write_def by (simp add: write_lock_request)

lemma port_read_take:
  assumes "0 \<le> sint pid"
  shows "port_read junk (ENCODE_PID pid) d =
    rbind (do_clipboard_get (get_of (fit GET_SIZE junk)) pid d) (\<lambda>(r, msg, d').
      if r \<noteq> OK then Inr (1, None, d') else Inr (OK, Some (get_bytes msg), d'))"
  unfolding port_read_def read_take_request [OF assms] by (simp only: refl if_True if_False simp_thms)

interpretation device: clipboard_device "port_read rjunk" "port_write wjunk" board_of wf_driver
  for rjunk wjunk
proof unfold_locales
  fix d i it
  assume "wf_driver d" and "board_of d i = Some it"
  then show "i < BUF_MAX_COUNT \<and> length (contents it) \<le> ENTRY_LEN_LIMIT"
    using wf_holds_text [of d i] occupied_less [of i d]
    by (auto simp: board_of_def item_of_def holds_text_iff split: if_splits)
next
  fix d pid i j
  assume "wf_driver d" "held_by pid (board_of d) i" "held_by pid (board_of d) j"
  then show "i = j" by (rule held_by_unique)
next
  fix d m
  assume "wf_driver d" "sane_set m" "full_board (board_of d)"
  then show "port_write wjunk (set_bytes m) d = Inr (- 1, d)"
    by (simp add: port_write_set full_board_of set_when_full)
next
  fix d m
  assume "wf_driver d" "sane_set m" "\<not> full_board (board_of d)"
  then show "\<exists>i t. i < BUF_MAX_COUNT \<and> board_of d i = None
      \<and> port_write wjunk (set_bytes m) d = Inr (int i, t)
      \<and> wf_driver t \<and> board_of t = (board_of d)(i \<mapsto> new_item m)"
    using set_refines [of d m] unfolding board_of_None full_board_of port_write_set [OF \<open>sane_set m\<close>]
    by blast
next
  fix d i pid n
  assume "wf_driver d" "i < BUF_MAX_COUNT"
  then show "\<exists>t. port_write wjunk (lock_bytes (lock_msg pid i n)) d =
      Inr (if lockable n (drop_locks pid (board_of d) i) then OK else - 1, t)
    \<and> wf_driver t \<and> board_of t = (let b = drop_locks pid (board_of d)
         in if lockable n (b i) then set_holder pid i b else b)"
    using lock_refines [of d "lock_msg pid i n" i]
    by (auto simp: port_write_lock lock_msg_def)
next
  fix d pid i
  assume "wf_driver d" "0 \<le> sint pid" "held_by pid (board_of d) i"
  then show "\<exists>it junk t. board_of d i = Some it \<and> length junk = ENTRY_LEN_LIMIT
      \<and> port_read rjunk (ENCODE_PID pid) d = Inr (OK, Some (get_bytes (get_reply it junk)), t)
      \<and> wf_driver t \<and> board_of t = (board_of d)(i := None)"
    using get_refines [of d "get_of (fit GET_SIZE rjunk)" pid i] length_get_of [of "fit GET_SIZE rjunk"]
    by (auto simp: port_read_take)
next
  fix d pid
  assume "wf_driver d" "0 \<le> sint pid" "\<And>i. \<not> held_by pid (board_of d) i"
  then show "port_read rjunk (ENCODE_PID pid) d = Inr (1, None, d)"
    by (simp add: port_read_take get_without_lock OK_def)
next
  fix d i
  assume "wf_driver d" "i < BUF_MAX_COUNT"
  then show "\<exists>p. port_read rjunk (ENCODE_ID (of_nat i)) d = Inr (p, None, d)
      \<and> (\<forall>it. board_of d i = Some it \<longrightarrow> p = sint (owner it))"
    by (auto simp: port_read_def read_owner_query wf_driver_def board_of_def item_of_def)
qed

interpretation recycling: recycling_device "port_read rjunk" "port_write wjunk" board_of wf_driver free_list
  for rjunk wjunk
proof unfold_locales
  fix d pid i r out t
  assume "wf_driver d" "0 \<le> sint pid" "held_by pid (board_of d) i"
    "port_read rjunk (ENCODE_PID pid) d = Inr (r, out, t)"
  then show "free_list t = of_nat i # free_list d"
    using get_refines [of d "get_of (fit GET_SIZE rjunk)" pid i] length_get_of [of "fit GET_SIZE rjunk"]
    by (auto simp: port_read_take)
next
  fix d m j t
  assume "wf_driver d" "sane_set m" "\<not> full_board (board_of d)" "j < BUF_MAX_COUNT"
    "port_write wjunk (set_bytes m) d = Inr (int j, t)"
  then show "free_list d = of_nat j # free_list t"
    using set_refines [of d m] by (auto simp: port_write_set full_board_of)
qed

end
