(* ===== verification/Decimal.thy ===== *)
theory Decimal
  imports Prelude
begin

text \<open>
  Decimal notation of natural numbers, which the code writes with \<open>snprintf\<close> (keys of the data
  store) and with loops of its own (counts of the run-length code).
\<close>

fun digits :: "nat \<Rightarrow> nat list" where
  "digits n = (if n < 10 then [n] else digits (n div 10) @ [n mod 10])"

declare digits.simps [simp del]

definition undigits :: "nat list \<Rightarrow> nat" where
  "undigits ds = foldl (\<lambda>v d. 10 * v + d) 0 ds"

lemma undigits_digits [simp]: "undigits (digits n) = n"
proof (induction n rule: digits.induct)
  case (1 n)
  then show ?case by (subst digits.simps) (auto simp: undigits_def)
qed

lemma digits_less: "d \<in> set (digits n) \<Longrightarrow> d < 10"
proof (induction n rule: digits.induct)
  case (1 n)
  then show ?case by (subst (asm) digits.simps) (auto split: if_splits)
qed

lemma digits_not_Nil [simp]: "digits n \<noteq> []"
  by (subst digits.simps) simp

lemma digits_inject [simp]: "digits m = digits n \<longleftrightarrow> m = n"
  using undigits_digits by metis

text \<open>As characters of a string.\<close>

definition decimal :: "nat \<Rightarrow> string" where
  "decimal n = map (\<lambda>d. char_of (48 + d)) (digits n)"

lemma decimal_inject [simp]: "decimal m = decimal n \<longleftrightarrow> m = n"
proof -
  have "map of_char (decimal k) = map ((+) 48) (digits k)" for k
  proof -
    have "(48 + x) mod 256 = 48 + x" if "x \<in> set (digits k)" for x
      using digits_less [OF that] by (intro mod_less) simp
    then show ?thesis by (simp add: decimal_def)
  qed
  then have "decimal m = decimal n \<Longrightarrow> map ((+) 48) (digits m) = map ((+) 48) (digits n)"
    by metis
  then show ?thesis
    using inj_map_eq_map [of "(+) (48 :: nat)"] by auto
qed

end
