(* ===== verification/Live_Update.thy ===== *)
theory Live_Update
  imports Device_IO Decimal
begin

text \<open>
  Start, restart and live update of the driver: the callbacks of \<open>bw386389.c\<close> that SEF calls.
  Before an update the old process publishes its state in the data store and frees its buffers;
  the new process, whose static variables lie at an address of its own, reads the state back.
  The data store is a parameter, the record \<open>ds\<close>, and \<open>ds_laws\<close> states what it is for: it
  returns under a name what was last published under it.
\<close>

section \<open>The data store\<close>

text \<open>
  A value of the store is the copy of the variable \<open>CLIPBOARD\<close> or the copy of a buffer.
\<close>

datatype blob = Struct clipboard | Bytes "byte list"

record 'd ds =
  ds_publish_mem :: "string \<Rightarrow> blob \<Rightarrow> 'd \<Rightarrow> 'd"
  ds_retrieve_mem :: "string \<Rightarrow> 'd \<Rightarrow> blob option"
  ds_delete_mem :: "string \<Rightarrow> 'd \<Rightarrow> 'd"

definition ds_laws :: "'d ds \<Rightarrow> bool" where
  "ds_laws S \<longleftrightarrow>
     (\<forall>k v s. ds_retrieve_mem S k (ds_publish_mem S k v s) = Some v) \<and>
     (\<forall>k k' v s. k \<noteq> k' \<longrightarrow> ds_retrieve_mem S k' (ds_publish_mem S k v s) = ds_retrieve_mem S k' s) \<and>
     (\<forall>k k' s. ds_retrieve_mem S k' (ds_delete_mem S k s) =
        (if k = k' then None else ds_retrieve_mem S k' s))"

lemma ds_simps:
  assumes "ds_laws S"
  shows "ds_retrieve_mem S k (ds_publish_mem S k v s) = Some v"
    and "k \<noteq> k' \<Longrightarrow> ds_retrieve_mem S k' (ds_publish_mem S k v s) = ds_retrieve_mem S k' s"
    and "ds_retrieve_mem S k' (ds_delete_mem S k s) = (if k = k' then None else ds_retrieve_mem S k' s)"
  using assms by (simp_all add: ds_laws_def)

text \<open>The names \<open>buf_0\<close> to \<open>buf_99\<close>.\<close>

definition buf_name :: "nat \<Rightarrow> string" where
  "buf_name i = ''buf_'' @ decimal i"

lemma buf_names [simp]: "buf_name i = buf_name j \<longleftrightarrow> i = j" "buf_name i \<noteq> ''clipboard''"
  "''clipboard'' \<noteq> buf_name i"
  by (simp_all add: buf_name_def)

section \<open>The callbacks\<close>

definition save_entry :: "'d ds \<Rightarrow> nat \<Rightarrow> driver \<times> 'd \<Rightarrow> (driver \<times> 'd) cres" where
  "save_entry S i x =
     (case x of (d, s) \<Rightarrow>
        rbind (entry_at (int i) d) (\<lambda>e.
          if in_use e \<noteq> EMPTY then
            rbind (memcpy_out (buffer e) (unat (buffer_len e)) (mem d)) (\<lambda>bs.
              let s' = ds_publish_mem S (buf_name i) (Bytes bs) s
              in rbind (free (buffer e) (mem d)) (\<lambda>h. Inr (d\<lparr>mem := h\<rparr>, s')))
          else Inr (d, s)))"

definition sef_cb_lu_state_save :: "'d ds \<Rightarrow> driver \<Rightarrow> 'd \<Rightarrow> (int \<times> driver \<times> 'd) cres" where
  "sef_cb_lu_state_save S d s =
     rbind (for_each (save_entry S) [0..<BUF_MAX_COUNT]
         (d, ds_publish_mem S ''clipboard'' (Struct (CLIPBOARD d)) s))
       (\<lambda>(d, s). Inr (OK, d, s))"

text \<open>
  Copying the published structure over the static variable keeps the variable's own address:
  the stack's array stays where it is, its pointer becomes the saved one.
\<close>

definition copy_over :: "clipboard \<Rightarrow> clipboard \<Rightarrow> clipboard" where
  "copy_over c old = c\<lparr>available_entries := (available_entries c)\<lparr>base := base (available_entries old)\<rparr>\<rparr>"

text \<open>
  The data store copies at most as many bytes as were asked for; a copy to the null pointer that
  a failed \<open>malloc\<close> leaves is refused, and the code ignores the refusal.
\<close>

definition restore_entry :: "'d ds \<Rightarrow> nat \<Rightarrow> driver \<times> 'd \<Rightarrow> (driver \<times> 'd) cres" where
  "restore_entry S i x =
     (case x of (d, s) \<Rightarrow>
        rbind (entry_at (int i) d) (\<lambda>e.
          if in_use e \<noteq> EMPTY then
            let (p, h) = malloc (unat (buffer_len e)) (mem d);
                s' = ds_delete_mem S (buf_name i) s
            in rbind (upd_entry (int i) (\<lambda>e. e\<lparr>buffer := p\<rparr>) (d\<lparr>mem := h\<rparr>)) (\<lambda>d.
                 case ds_retrieve_mem S (buf_name i) s of
                   Some (Bytes bs) \<Rightarrow>
                     if p = NULL then Inr (d, s')
                     else rbind (memcpy_in p bs (min (unat (buffer_len e)) (length bs)) h) (\<lambda>h.
                       Inr (d\<lparr>mem := h\<rparr>, s'))
                 | _ \<Rightarrow> Inr (d, s'))
          else Inr (d, s)))"

definition lu_state_restore :: "'d ds \<Rightarrow> driver \<Rightarrow> 'd \<Rightarrow> (int \<times> driver \<times> 'd) cres" where
  "lu_state_restore S d s =
     (let d = (case ds_retrieve_mem S ''clipboard'' s of
                 Some (Struct c) \<Rightarrow> d\<lparr>CLIPBOARD := copy_over c (CLIPBOARD d)\<rparr>
               | _ \<Rightarrow> d);
          s = ds_delete_mem S ''clipboard'' s
      in rbind (for_each (restore_entry S) [0..<BUF_MAX_COUNT] (d, s)) (\<lambda>(d, s). Inr (OK, d, s)))"

definition sef_cb_init :: "'d ds \<Rightarrow> init_type \<Rightarrow> driver \<Rightarrow> 'd \<Rightarrow> (int \<times> driver \<times> 'd) cres" where
  "sef_cb_init S ty d s =
     (case ty of
        SEF_INIT_FRESH \<Rightarrow> Inr (OK, clipboard_init d, s)
      | SEF_INIT_LU \<Rightarrow> rbind (lu_state_restore S d s) (\<lambda>(r, d, s). Inr (OK, d, s))
      | SEF_INIT_RESTART \<Rightarrow> Inr (OK, d, s))"

text \<open>
  \<open>sef_local_startup\<close> registers the callbacks; \<open>sef_startup\<close> then runs the one of the kind of
  start the system announces.
\<close>

record 'd callbacks =
  cb_init_fresh :: "driver \<Rightarrow> 'd \<Rightarrow> (int \<times> driver \<times> 'd) cres"
  cb_init_lu :: "driver \<Rightarrow> 'd \<Rightarrow> (int \<times> driver \<times> 'd) cres"
  cb_init_restart :: "driver \<Rightarrow> 'd \<Rightarrow> (int \<times> driver \<times> 'd) cres"
  cb_lu_state_save :: "driver \<Rightarrow> 'd \<Rightarrow> (int \<times> driver \<times> 'd) cres"

definition sef_local_startup :: "'d ds \<Rightarrow> 'd callbacks" where
  "sef_local_startup S =
     \<lparr>cb_init_fresh = sef_cb_init S SEF_INIT_FRESH, cb_init_lu = sef_cb_init S SEF_INIT_LU,
      cb_init_restart = sef_cb_init S SEF_INIT_RESTART, cb_lu_state_save = sef_cb_lu_state_save S\<rparr>"

section \<open>Saving\<close>

text \<open>The text of an entry, as its buffer holds it.\<close>

definition text_of :: "driver \<Rightarrow> nat \<Rightarrow> byte list" where
  "text_of d i = contents (item_of d (ent d i))"

lemma text_block:
  assumes "wf_driver d" and "i \<in> occupied d"
  shows "blocks (mem d) (buffer (ent d i)) = Some (text_of d i)"
    and "length (text_of d i) = unat (buffer_len (ent d i))"
    and "length (text_of d i) \<le> ENTRY_LEN_LIMIT"
  using wf_holds_text [OF assms] by (auto simp: holds_text_iff text_of_def item_of_def)

text \<open>After the first \<open>k\<close> rounds: the texts of the first \<open>k\<close> entries are published and freed.\<close>

definition saved :: "'d ds \<Rightarrow> driver \<Rightarrow> nat \<Rightarrow> driver \<times> 'd \<Rightarrow> bool" where
  "saved S d k x \<longleftrightarrow> (case x of (t, s) \<Rightarrow>
     CLIPBOARD t = CLIPBOARD d \<and> wf_heap (mem t)
     \<and> blocks (mem t) = blocks (mem d) |` ((\<lambda>i. buffer (ent d i)) ` (occupied d \<inter> {k..}))
     \<and> ds_retrieve_mem S ''clipboard'' s = Some (Struct (CLIPBOARD d))
     \<and> (\<forall>i\<in>occupied d. i < k \<longrightarrow> ds_retrieve_mem S (buf_name i) s = Some (Bytes (text_of d i))))"

lemma save_step:
  assumes laws: "ds_laws S" and wf: "wf_driver d" and k: "k < BUF_MAX_COUNT" and inv: "saved S d k x"
  shows "\<exists>y. save_entry S k x = Inr y \<and> saved S d (Suc k) y"
proof -
  obtain t s where x: "x = (t, s)" by (cases x)
  note inv' = inv [unfolded saved_def x prod.case]
  have at: "entry_at (int k) t = Inr (ent d k)"
    using wf k inv' by (simp add: wf_driver_def ent_def)
  show ?thesis
  proof (cases "k \<in> occupied d")
    case False
    then have e: "in_use (ent d k) = EMPTY" using k by (simp add: occupied_def)
    have rest: "occupied d \<inter> {k..} = occupied d \<inter> {Suc k..}"
      using False by (auto simp: Suc_le_eq le_less)
    have "saved S d (Suc k) x"
      using inv' False by (auto simp: saved_def x rest less_Suc_eq)
    with at e show ?thesis by (simp add: save_entry_def x)
  next
    case True
    then have e: "in_use (ent d k) \<noteq> EMPTY" by (simp add: occupied_def)
    let ?p = "buffer (ent d k)"
    note held = text_block [OF wf True]
    have block: "blocks (mem t) ?p = Some (text_of d k)"
      using inv' held(1) True by (auto simp: restrict_map_def)
    then have out: "memcpy_out ?p (unat (buffer_len (ent d k))) (mem t) = Inr (text_of d k)"
      using held(2) c_heap.fetch_all [OF block] by simp
    from c_heap.release_law [OF _ block] inv' obtain h where
      h: "free ?p (mem t) = Inr h" "blocks h = (blocks (mem t))(?p := None)" "wf_heap h" by blast
    let ?s = "ds_publish_mem S (buf_name k) (Bytes (text_of d k)) s"
    have rest: "(\<lambda>i. buffer (ent d i)) ` (occupied d \<inter> {Suc k..}) =
        (\<lambda>i. buffer (ent d i)) ` (occupied d \<inter> {k..}) - {?p}"
    proof -
      have "inj_on (\<lambda>i. buffer (ent d i)) (occupied d \<inter> {k..})"
        using wf by (auto simp: wf_parts intro: inj_on_subset)
      moreover have "occupied d \<inter> {Suc k..} = occupied d \<inter> {k..} - {k}" by auto
      moreover have "k \<in> occupied d \<inter> {k..}" using True by simp
      ultimately show ?thesis by (auto dest: inj_onD)
    qed
    have "blocks h = blocks (mem d) |` ((\<lambda>i. buffer (ent d i)) ` (occupied d \<inter> {Suc k..}))"
      using inv' unfolding h(2) rest by (auto simp: restrict_map_def fun_eq_iff)
    moreover have "ds_retrieve_mem S (buf_name i) ?s = Some (Bytes (text_of d i))"
      if "i \<in> occupied d" "i < Suc k" for i
      using that inv' ds_simps(1,2) [OF laws] by (cases "i = k") auto
    ultimately have "saved S d (Suc k) (t\<lparr>mem := h\<rparr>, ?s)"
      using inv' h(3) ds_simps(2) [OF laws, of "buf_name k" "''clipboard''"] by (simp add: saved_def)
    with at e out h(1) show ?thesis by (simp add: save_entry_def x)
  qed
qed

lemma save_all:
  assumes "ds_laws S" and wf: "wf_driver d"
  shows "\<exists>t u. sef_cb_lu_state_save S d s = Inr (OK, t, u) \<and> CLIPBOARD t = CLIPBOARD d
    \<and> blocks (mem t) = Map.empty
    \<and> ds_retrieve_mem S ''clipboard'' u = Some (Struct (CLIPBOARD d))
    \<and> (\<forall>i\<in>occupied d. ds_retrieve_mem S (buf_name i) u = Some (Bytes (text_of d i)))"
proof -
  have "dom (blocks (mem d)) = (\<lambda>i. buffer (ent d i)) ` occupied d"
    using wf by (simp add: wf_parts)
  then have "blocks (mem d) |` ((\<lambda>i. buffer (ent d i)) ` (occupied d \<inter> {0..})) = blocks (mem d)"
    by (simp add: restrict_map_def fun_eq_iff) (metis domIff)
  then have "saved S d 0 (d, ds_publish_mem S ''clipboard'' (Struct (CLIPBOARD d)) s)"
    using wf ds_simps(1) [OF assms(1)] by (simp add: saved_def wf_parts)
  from for_each_upt [where P = "saved S d" and f = "save_entry S" and n = BUF_MAX_COUNT, OF this]
  obtain t u where tu: "for_each (save_entry S) [0..<BUF_MAX_COUNT]
      (d, ds_publish_mem S ''clipboard'' (Struct (CLIPBOARD d)) s) = Inr (t, u)"
      "saved S d BUF_MAX_COUNT (t, u)"
    using save_step [OF assms] by auto
  have "occupied d \<inter> {BUF_MAX_COUNT..} = {}" using occupied_less [of _ d] by fastforce
  with tu show ?thesis using occupied_less [of _ d]
    by (auto simp: sef_cb_lu_state_save_def saved_def)
qed

section \<open>Restoring\<close>

text \<open>
  After the first \<open>k\<close> rounds, for a saved state \<open>d\<close>, a new process whose stack lies at \<open>a\<close>
  and \<open>n\<close> bytes of free memory at its start.
\<close>

definition restored :: "'d ds \<Rightarrow> driver \<Rightarrow> nat \<Rightarrow> nat \<Rightarrow> nat \<Rightarrow> driver \<times> 'd \<Rightarrow> bool" where
  "restored S d a n k x \<longleftrightarrow> (case x of (t, s) \<Rightarrow>
     available_entries (CLIPBOARD t) = (available_entries (CLIPBOARD d))\<lparr>base := a\<rparr>
     \<and> length (entries (CLIPBOARD t)) = BUF_MAX_COUNT
     \<and> (\<forall>i<BUF_MAX_COUNT. ent t i = (ent d i)\<lparr>buffer := buffer (ent t i)\<rparr>)
     \<and> wf_heap (mem t)
     \<and> (\<forall>i\<in>occupied d \<inter> {..<k}. blocks (mem t) (buffer (ent t i)) = Some (text_of d i))
     \<and> inj_on (\<lambda>i. buffer (ent t i)) (occupied d \<inter> {..<k})
     \<and> dom (blocks (mem t)) = (\<lambda>i. buffer (ent t i)) ` (occupied d \<inter> {..<k})
     \<and> avail (mem t) + (\<Sum>i\<in>occupied d \<inter> {..<k}. unat (buffer_len (ent d i))) = n
     \<and> (\<forall>i\<in>occupied d. k \<le> i \<longrightarrow> ds_retrieve_mem S (buf_name i) s = Some (Bytes (text_of d i))))"

lemma restore_room:
  assumes wf: "wf_driver d" and k: "k \<in> occupied d" and room: "BUF_MAX_COUNT * ENTRY_LEN_LIMIT \<le> n"
    and av: "av + (\<Sum>i\<in>occupied d \<inter> {..<k}. unat (buffer_len (ent d i))) = n"
  shows "ENTRY_LEN_LIMIT \<le> av"
proof -
  have "unat (buffer_len (ent d i)) \<le> ENTRY_LEN_LIMIT" if "i \<in> occupied d \<inter> {..<k}" for i
    using text_block [OF wf, of i] that by simp
  then have "(\<Sum>i\<in>occupied d \<inter> {..<k}. unat (buffer_len (ent d i))) \<le>
      card (occupied d \<inter> {..<k}) * ENTRY_LEN_LIMIT"
    using sum_bounded_above [of "occupied d \<inter> {..<k}" _ ENTRY_LEN_LIMIT] by fastforce
  also have "\<dots> \<le> k * ENTRY_LEN_LIMIT"
    using card_mono [of "{..<k}" "occupied d \<inter> {..<k}"] by simp
  also have "k * ENTRY_LEN_LIMIT + ENTRY_LEN_LIMIT \<le> BUF_MAX_COUNT * ENTRY_LEN_LIMIT"
    using occupied_less [OF k] mult_le_mono1 [of "Suc k" BUF_MAX_COUNT ENTRY_LEN_LIMIT] by simp
  ultimately show ?thesis using room av by linarith
qed

lemma relocate: "e = f\<lparr>buffer := q\<rparr> \<Longrightarrow> e\<lparr>buffer := p\<rparr> = f\<lparr>buffer := p\<rparr>"
  by simp

lemma restore_step:
  assumes laws: "ds_laws S" and wf: "wf_driver d" and room: "BUF_MAX_COUNT * ENTRY_LEN_LIMIT \<le> n"
    and k: "k < BUF_MAX_COUNT" and inv: "restored S d a n k x"
  shows "\<exists>y. restore_entry S k x = Inr y \<and> restored S d a n (Suc k) y"
proof -
  obtain t s where x: "x = (t, s)" by (cases x)
  note inv' = inv [unfolded restored_def x prod.case]
  have len: "length (entries (CLIPBOARD t)) = BUF_MAX_COUNT" using inv' by simp
  have at: "entry_at (int k) t = Inr (ent t k)" using k len by (simp add: ent_def)
  have same: "in_use (ent t k) = in_use (ent d k)" "buffer_len (ent t k) = buffer_len (ent d k)"
    using inv' k by (metis entry.select_convs(6) entry.surjective entry.update_convs(5))
      (metis inv' k entry.select_convs(1) entry.surjective entry.update_convs(5))
  show ?thesis
  proof (cases "k \<in> occupied d")
    case False
    then have e: "in_use (ent t k) = EMPTY" using k by (simp add: occupied_def same)
    have sub: "occupied d \<inter> {..<Suc k} = occupied d \<inter> {..<k}"
      using False by (auto simp: less_Suc_eq)
    have "restored S d a n (Suc k) x"
      using inv' by (simp add: restored_def x sub)
    with at e show ?thesis by (simp add: restore_entry_def x)
  next
    case True
    then have e: "in_use (ent t k) \<noteq> EMPTY" by (simp add: occupied_def same)
    let ?b = "text_of d k" and ?n = "unat (buffer_len (ent d k))"
    note held = text_block [OF wf True]
    have "ENTRY_LEN_LIMIT \<le> avail (mem t)"
      using restore_room [OF wf True room] inv' by blast
    then have "?n \<le> avail (mem t)" using held(2,3) by linarith
    moreover have "wf_heap (mem t)" using inv' by simp
    ultimately obtain p h m where m: "malloc ?n (mem t) = (p, h)" "memcpy_in p ?b ?n h = Inr m"
        "p \<noteq> NULL" "blocks (mem t) p = None" "blocks m = (blocks (mem t))(p \<mapsto> ?b)"
        "avail m + ?n = avail (mem t)" "wf_heap m"
      using c_heap.store_copy [of "mem t" ?n ?b] held(2) by auto
    let ?u = "(put_entry k ((ent t k)\<lparr>buffer := p\<rparr>) (t\<lparr>mem := h\<rparr>))\<lparr>mem := m\<rparr>"
    let ?s = "ds_delete_mem S (buf_name k) s"
    have upd: "upd_entry (int k) (\<lambda>e. e\<lparr>buffer := p\<rparr>) (t\<lparr>mem := h\<rparr>) =
        Inr (put_entry k ((ent t k)\<lparr>buffer := p\<rparr>) (t\<lparr>mem := h\<rparr>))"
      using k len by (simp add: ent_def)
    have step: "restore_entry S k x = Inr (?u, ?s)"
      using inv' True held(2) by (simp add: restore_entry_def x at e [unfolded same(1)] same m(1-3) upd del: entry_at_int upd_entry_int)
    have ent: "ent ?u = (ent t)(k := (ent t k)\<lparr>buffer := p\<rparr>)"
      using ent_put [of "t\<lparr>mem := h\<rparr>" k] len k by simp
    then have buf: "(\<lambda>i. buffer (ent ?u i)) = (\<lambda>i. buffer (ent t i))(k := p)"
      by (simp add: fun_eq_iff)
    have ins: "occupied d \<inter> {..<Suc k} = insert k (occupied d \<inter> {..<k})"
      using True by (auto simp: less_Suc_eq)
    have new: "p \<notin> (\<lambda>i. buffer (ent t i)) ` (occupied d \<inter> {..<k})"
      using inv' m(4) by (metis domIff)
    have "inj_on (\<lambda>i. buffer (ent ?u i)) (occupied d \<inter> {..<Suc k})"
      unfolding ins buf using inv' new by (intro inj_on_upd) auto
    moreover have "dom (blocks m) = (\<lambda>i. buffer (ent ?u i)) ` (occupied d \<inter> {..<Suc k})"
      unfolding ins buf m(5) using inv' by auto
    moreover have "blocks m (buffer (ent ?u i)) = Some (text_of d i)"
      if "i \<in> occupied d \<inter> {..<Suc k}" for i
      using that inv' new unfolding ins ent m(5) by auto
    moreover have "ds_retrieve_mem S (buf_name i) ?s = Some (Bytes (text_of d i))"
      if "i \<in> occupied d" "Suc k \<le> i" for i
      using inv' that by (simp add: ds_simps(3) [OF laws])
    moreover have "ent ?u i = (ent d i)\<lparr>buffer := buffer (ent ?u i)\<rparr>" if "i < BUF_MAX_COUNT" for i
    proof (cases "i = k")
      case True
      have "ent t k = (ent d k)\<lparr>buffer := buffer (ent t k)\<rparr>" using inv' k by blast
      from relocate [OF this, of p] show ?thesis unfolding ent True by simp
    next
      case False
      then show ?thesis using inv' that unfolding ent by simp
    qed
    moreover have "avail m + (\<Sum>i\<in>occupied d \<inter> {..<Suc k}. unat (buffer_len (ent d i))) = n"
      using inv' m(6) unfolding ins by simp
    ultimately have "restored S d a n (Suc k) (?u, ?s)"
      using inv' m(7) by (simp add: restored_def)
    with step show ?thesis by blast
  qed
qed

text \<open>What a completed restore leaves, wherever the new process lies.\<close>

lemma restore_all:
  assumes laws: "ds_laws S" and wf: "wf_driver d"
    and h: "fresh_heap h"
    and s: "ds_retrieve_mem S ''clipboard'' s = Some (Struct (CLIPBOARD d))"
      "\<forall>i\<in>occupied d. ds_retrieve_mem S (buf_name i) s = Some (Bytes (text_of d i))"
  shows "\<exists>t u. lu_state_restore S \<lparr>CLIPBOARD = static_clipboard a, mem = h\<rparr> s = Inr (OK, t, u)
    \<and> restored S d a (avail h) BUF_MAX_COUNT (t, u)"
proof -
  let ?d0 = "\<lparr>CLIPBOARD = copy_over (CLIPBOARD d) (static_clipboard a), mem = h\<rparr>"
  let ?s0 = "ds_delete_mem S ''clipboard'' s"
  have room: "BUF_MAX_COUNT * ENTRY_LEN_LIMIT \<le> avail h" using h by (simp add: fresh_heap_def)
  have ent0: "ent ?d0 i = ent d i" for i by (simp add: ent_def copy_over_def)
  have "restored S d a (avail h) 0 (?d0, ?s0)"
    using wf h s(2) ds_simps(3) [OF laws]
    by (simp add: restored_def ent0 wf_parts fresh_heap_def) (simp add: copy_over_def static_clipboard_def)
  from for_each_upt [where P = "restored S d a (avail h)" and f = "restore_entry S" and n = BUF_MAX_COUNT, OF this]
  show ?thesis
    using restore_step [OF laws wf room] s(1)
    by (auto simp: lu_state_restore_def Let_def)
qed

lemma restored_frame:
  assumes "restored S d a n BUF_MAX_COUNT (t, u)"
  shows "occupied t = occupied d" "locks t = locks d"
    and "\<And>i. i < BUF_MAX_COUNT \<Longrightarrow> buffer_len (ent t i) = buffer_len (ent d i)"
    and "\<And>i. i < BUF_MAX_COUNT \<Longrightarrow> locking_pid (ent t i) = locking_pid (ent d i)"
    and "\<And>i. i < BUF_MAX_COUNT \<Longrightarrow> ent t i = (ent d i)\<lparr>buffer := buffer (ent t i)\<rparr>"
    and "occupied d \<inter> {..<BUF_MAX_COUNT} = occupied d"
proof -
  show ent: "\<And>i. i < BUF_MAX_COUNT \<Longrightarrow> ent t i = (ent d i)\<lparr>buffer := buffer (ent t i)\<rparr>"
    using assms by (simp add: restored_def)
  have sel: "f (ent t i) = f ((ent d i)\<lparr>buffer := buffer (ent t i)\<rparr>)" if "i < BUF_MAX_COUNT" for f :: "entry \<Rightarrow> 'z" and i
    using ent [OF that] by (rule arg_cong)
  show "\<And>i. i < BUF_MAX_COUNT \<Longrightarrow> buffer_len (ent t i) = buffer_len (ent d i)"
    "\<And>i. i < BUF_MAX_COUNT \<Longrightarrow> locking_pid (ent t i) = locking_pid (ent d i)"
    using sel [of _ buffer_len] sel [of _ locking_pid] by simp_all
  have "i < BUF_MAX_COUNT \<Longrightarrow> in_use (ent t i) = in_use (ent d i)" for i
    using sel [of i in_use] by simp
  then show "occupied t = occupied d" "locks t = locks d"
    by (auto simp: occupied_def locks_def locked_def)
  show "occupied d \<inter> {..<BUF_MAX_COUNT} = occupied d"
    using occupied_less [of _ d] by auto
qed

lemma restored_same_place:
  assumes wf: "wf_driver d" and r: "restored S d (base (available_entries (CLIPBOARD d))) n BUF_MAX_COUNT (t, u)"
    and n: "BUF_MAX_COUNT * ENTRY_LEN_LIMIT \<le> n"
  shows "wf_driver t" and "board_of t = board_of d" and "capacity t = n"
proof -
  note fr = restored_frame [OF r]
  note r' = r [unfolded restored_def prod.case fr(6)]
  have len: "(\<Sum>i\<in>occupied d. unat (buffer_len (ent t i))) = (\<Sum>i\<in>occupied d. unat (buffer_len (ent d i)))"
    by (rule sum.cong) (simp_all add: fr(3) occupied_less)
  with r' show cap: "capacity t = n" by (simp add: capacity_def fr(1))
  have block: "blocks (mem t) (buffer (ent t i)) = Some (text_of d i)" if "i \<in> occupied d" for i
    using r' that by blast
  have holds: "holds_text t i" if "i \<in> occupied d" for i
    using block [OF that] text_block(2,3) [OF wf that] fr(3) [OF occupied_less [OF that]]
    by (simp add: holds_text_iff)
  have "inj_on (\<lambda>i. locking_pid (ent t i)) (locks d) = inj_on (\<lambda>i. locking_pid (ent d i)) (locks d)"
    by (rule inj_on_cong) (auto simp: fr(4) locks_def)
  then have lks: "wf_locks t" using wf by (simp add: wf_parts fr(2))
  have stack: "available_entries (CLIPBOARD t) = available_entries (CLIPBOARD d)"
    using r' by simp
  have free: "wf_free t"
    using wf by (simp add: wf_parts stack fr(1))
  have memo: "wf_mem t"
    using r' holds by (simp add: wf_mem_def fr(1))
  show "wf_driver t"
    using r' n by (simp add: wf_driver_def free memo lks cap)
  have "item_of t (ent t i) = item_of d (ent d i)" if "i \<in> occupied d" for i
  proof -
    have "i < BUF_MAX_COUNT" using that by (rule occupied_less)
    from fr(5) [OF this] have "item_of t (ent t i) = item_of t ((ent d i)\<lparr>buffer := buffer (ent t i)\<rparr>)"
      by simp
    with block [OF that] text_block(1) [OF wf that] show ?thesis
      by (simp add: item_of_def locked_def)
  qed
  then show "board_of t = board_of d"
    by (simp add: board_of_def fr(1) fun_eq_iff)
qed

end
