(* ===== verification/Clipboard_Task.thy ===== *)
theory Clipboard_Task
  imports Chardriver Device_Port Live_Update
begin

text \<open>
  The clipboard driver as a character driver: the table of its hooks, its \<open>main\<close>, and the proof
  that its hooks honour the contract of the framework as long as requests are acceptable.
\<close>

section \<open>The hooks and the process\<close>

text \<open>
  \<open>copied\<close> is what \<open>sys_safecopyto\<close> has put into the callers' buffers so far, the latest first: the
  endpoint, the grant and the bytes.
\<close>

record task =
  drv :: driver
  copied :: "(u32 \<times> u32 \<times> byte list) list"

definition on_driver :: "driver hook \<Rightarrow> task hook" where
  "on_driver f t = rbind (f (drv t)) (\<lambda>(r, d). Inr (r, t\<lparr>drv := d\<rparr>))"

definition read_hook :: "copy_to \<Rightarrow> byte list \<Rightarrow> u32 \<Rightarrow> u32 \<Rightarrow> u32 \<Rightarrow> task hook" where
  "read_hook ct junk endpt grant sz t =
     rbind (clipboard_read ct junk endpt grant sz (drv t)) (\<lambda>(r, out, d).
       Inr (r, t\<lparr>drv := d,
         copied := (case out of None \<Rightarrow> copied t | Some bs \<Rightarrow> (endpt, grant, bs) # copied t)\<rparr>))"

definition clipboard_tab ::
  "copy_from \<Rightarrow> copy_to \<Rightarrow> byte list \<Rightarrow> byte list \<Rightarrow> task chardriver" where
  "clipboard_tab cf ct rjunk wjunk =
     \<lparr>cdr_open = Some (\<lambda>minor access user. on_driver (clipboard_open minor access user)),
      cdr_close = Some (\<lambda>minor. on_driver (clipboard_close minor)),
      cdr_read = Some (\<lambda>minor position endpt grant sz flags i. read_hook ct (fit GET_SIZE rjunk) endpt grant sz),
      cdr_write = Some (\<lambda>minor position endpt grant sz flags i.
        on_driver (clipboard_write cf (fit SET_SIZE wjunk) endpt grant sz)),
      cdr_ioctl = None, cdr_cancel = None, cdr_select = None,
      cdr_intr = None, cdr_alarm = None, cdr_other = None\<rparr>"

text \<open>\<open>main\<close> of the driver: the start, then the loop, with no device opened yet.\<close>

definition clipboard_main ::
  "'d ds \<Rightarrow> init_type \<Rightarrow> codes \<Rightarrow> task chardriver \<Rightarrow> event list \<Rightarrow> u32 list \<Rightarrow> driver \<Rightarrow> 'd \<Rightarrow> task cdstate cres"
where
  "clipboard_main S ty C tab evs devs d s =
     rbind (sef_cb_init S ty d s) (\<lambda>(r, d, s).
       chardriver_task C tab evs
         \<lparr>running = False, open_devs = devs, next_open_devs_slot = 0, sent = [],
          priv = \<lparr>drv = d, copied = []\<rparr>\<rparr>)"

section \<open>Owners\<close>

definition owners :: "driver \<Rightarrow> u32 list" where
  "owners d = map source_pid (entries (CLIPBOARD d))"

definition owners_ok :: "driver \<Rightarrow> bool" where
  "owners_ok d \<longleftrightarrow> (\<forall>p\<in>set (owners d). 0 \<le> sint p)"

lemma owners_frame [simp]: "owners (set_available s d) = owners d" "owners (d\<lparr>mem := h\<rparr>) = owners d"
  by (simp_all add: owners_def)

lemma owners_upd:
  assumes "upd_entry i f d = Inr d'"
  shows "set (owners d') \<subseteq> insert (source_pid (f (entries (CLIPBOARD d) ! nat i))) (set (owners d))"
  using assms
  by (auto simp: upd_entry_def rbind_eq_Inr entry_at_def aget_def owners_def split: if_splits
      dest!: subsetD [OF set_update_subset_insert])

lemma owners_upd_same:
  assumes "upd_entry i f d = Inr d'" and "\<And>e. source_pid (f e) = source_pid e"
  shows "owners d' = owners d"
  using assms
  by (auto simp: upd_entry_def rbind_eq_Inr entry_at_def aget_def owners_def map_update
      in_range_def list_update_same_conv split: if_splits)

lemma owners_lock: "do_clipboard_lock m d = Inr (r, d') \<Longrightarrow> owners d' = owners d"
  by (auto simp: do_clipboard_lock_def Let_def rbind_eq_Inr unlock_def lock_by_def
      dest!: owners_upd_same split: if_splits)

lemma owners_delete: "delete_entry i d = Inr d' \<Longrightarrow> owners d' = owners d"
  by (auto simp: delete_entry_def rbind_eq_Inr dest!: owners_upd_same split: if_splits)

lemma owners_get: "do_clipboard_get msg pid d = Inr (r, msg', d') \<Longrightarrow> owners d' = owners d"
  by (auto simp: do_clipboard_get_def Let_def rbind_eq_Inr dest!: owners_delete split: if_splits)

lemma owners_set:
  "do_clipboard_set m d = Inr (r, d') \<Longrightarrow> set (owners d') \<subseteq> insert (s_pid m) (set (owners d))"
  by (auto simp: do_clipboard_set_def do_clipboard_real_set_def Let_def rbind_eq_Inr split_beta
      dest!: owners_upd split: if_splits)

lemma fresh_owners: "owners_ok (fresh_driver a h)"
  by (simp add: fresh_driver_def clipboard_init_def owners_ok_def owners_def clear_slots_map static_clipboard_def
      Let_def static_entry_def)

lemma owners_ok_entry: "owners_ok d \<Longrightarrow> i < length (entries (CLIPBOARD d)) \<Longrightarrow> 0 \<le> sint (source_pid (ent d i))"
  by (simp add: owners_ok_def owners_def ent_def)

section \<open>Acceptable requests\<close>

text \<open>
  A request for minor device 0; a write is one of a well-behaved client with a non-negative process
  identifier; copies by the kernel never fail with the pseudo-code \<open>SUSPEND\<close>.
\<close>

definition polite :: "codes \<Rightarrow> copy_from \<Rightarrow> copy_to \<Rightarrow> message \<Rightarrow> bool" where
  "polite C cf ct m \<longleftrightarrow>
     sane_codes C \<and> SUSPEND C < - 1
     \<and> (case chardriver_get_minor C m of Inl r \<Rightarrow> True | Inr k \<Rightarrow> k = 0)
     \<and> (m_type m = CDEV_OPEN \<longrightarrow> EDONTREPLY C \<noteq> 0)
     \<and> (m_type m = CDEV_READ \<longrightarrow> (\<forall>bs. ct (m_source m) (rw_grant m) bs \<noteq> SUSPEND C))
     \<and> (m_type m = CDEV_WRITE \<longrightarrow>
          sane_write cf (m_source m) (rw_grant m) (rw_count m)
          \<and> (case cf (m_source m) (rw_grant m) (unat (rw_count m)) of
               Inl err \<Rightarrow> err \<noteq> SUSPEND C
             | Inr bs \<Rightarrow> unat (rw_count m) = SET_SIZE \<longrightarrow> 0 \<le> sint (s_pid (set_of bs))))"

definition task_inv :: "driver \<Rightarrow> bool" where
  "task_inv d \<longleftrightarrow> wf_driver d \<and> owners_ok d"

lemma read_status:
  assumes d: "task_inv d" and junk: "length junk = GET_SIZE"
    and r: "clipboard_read ct junk e g sz d = Inr (r, out, d')"
  shows "task_inv d' \<and> (r = - 1 \<or> 0 \<le> r \<or> (\<exists>bs. r = ct e g bs))"
proof -
  have "wf_driver d'"
    using read_keeps [OF _ junk, of d ct e g sz] d r by (auto simp: task_inv_def)
  moreover have "owners d' = owners d \<and> (r = - 1 \<or> 0 \<le> r \<or> (\<exists>bs. r = ct e g bs))"
  proof (cases "unat sz < GET_SIZE")
    case True
    have len: "length (entries (CLIPBOARD d)) = BUF_MAX_COUNT" using d by (simp add: task_inv_def wf_driver_def)
    have "owners_ok d" using d by (simp add: task_inv_def)
    then have own: "0 \<le> sint (source_pid (ent d (unat sz)))" if "unat sz < BUF_MAX_COUNT"
      using owners_ok_entry len that by simp
    show ?thesis
    proof (cases "unat sz < BUF_MAX_COUNT")
      case lt: True
      have "ENCODE_ID (of_nat (unat sz)) = sz" by (simp add: ENCODE_ID_def)
      with read_owner_query [OF lt len, of ct junk e g] r own [OF lt] show ?thesis by simp
    next
      case False
      with read_wrong_id [of sz ct junk e g d] True r show ?thesis by simp
    qed
  next
    case False
    then show ?thesis using r
      by (auto simp: clipboard_read_def IS_PID_QUERY_def Let_def rbind_eq_Inr OK_def
          dest!: owners_get split: if_splits prod.splits)
  qed
  ultimately show ?thesis using d by (auto simp: task_inv_def owners_ok_def)
qed

lemma set_status:
  assumes "wf_driver d" and "sane_set m" and "do_clipboard_set m d = Inr (r, d')"
  shows "r = - 1 \<or> 0 \<le> r"
  using set_when_full [OF assms(1), of m] set_refines [OF assms(1,2)] assms(3)
  by (cases "occupied d = {..<BUF_MAX_COUNT}") auto

lemma lock_status: "do_clipboard_lock m d = Inr (r, d') \<Longrightarrow> r = - 1 \<or> r = OK"
  by (auto simp: do_clipboard_lock_def Let_def rbind_eq_Inr split: if_splits)

lemma write_status:
  assumes d: "task_inv d" and junk: "length junk = SET_SIZE" and sane: "sane_write cf e g sz"
    and pid: "\<And>bs. cf e g (unat sz) = Inr bs \<Longrightarrow> unat sz = SET_SIZE \<Longrightarrow> 0 \<le> sint (s_pid (set_of bs))"
    and r: "clipboard_write cf junk e g sz d = Inr (r, d')"
  shows "task_inv d' \<and> (r = - 1 \<or> 0 \<le> r \<or> cf e g (unat sz) = Inl r)"
proof -
  have wf: "wf_driver d" and ow: "owners_ok d" using d by (simp_all add: task_inv_def)
  have wf': "wf_driver d'" using write_keeps [OF wf junk sane] r by auto
  show ?thesis
  proof (cases "unat sz = LOCK_SIZE \<or> unat sz = SET_SIZE")
    case False
    with write_other_size [of sz cf junk e g d] r d show ?thesis by simp
  next
    case True
    show ?thesis
    proof (cases "cf e g (unat sz)")
      case (Inl err)
      with write_copy_error [OF True, of cf e g err junk d] r d show ?thesis by simp
    next
      case (Inr bs)
      note bs = sane [unfolded sane_write_def Inr, simplified]
      show ?thesis
      proof (cases "unat sz = LOCK_SIZE")
        case lock: True
        then have "do_clipboard_lock (lock_of (overwrite 0 bs junk)) d = Inr (r, d')"
          using r Inr by (simp add: clipboard_write_def size_values)
        from owners_lock [OF this] lock_status [OF this] ow wf' show ?thesis
          by (auto simp: task_inv_def owners_ok_def OK_def)
      next
        case False
        with True have set: "unat sz = SET_SIZE" by simp
        with bs junk have ow0: "overwrite 0 bs junk = bs" by (simp add: overwrite_0)
        then have s: "do_clipboard_set (set_of bs) d = Inr (r, d')"
          using r Inr set by (simp add: clipboard_write_def size_values)
        have "sane_set (set_of bs)"
          using bs set by (simp add: sane_set_def length_set_of)
        from set_status [OF wf this s] owners_set [OF s] pid [OF Inr set] ow wf' show ?thesis
          by (auto simp: task_inv_def owners_ok_def)
      qed
    qed
  qed
qed

text \<open>The hooks of the clipboard driver honour the contract of the framework.\<close>

interpretation clipboard_hooks: driver_hooks C "clipboard_tab cf ct rjunk wjunk" "\<lambda>t :: task. task_inv (drv t)" "polite C cf ct" "{0}"
  for C cf ct rjunk wjunk
proof unfold_locales
  fix m
  assume "polite C cf ct m"
  then show "sane_codes C" by (simp add: polite_def)
next
  show "finite {0 :: u32}" by simp
next
  fix m k
  assume "polite C cf ct m" "chardriver_get_minor C m = Inr k"
  then show "k \<in> {0}" by (simp add: polite_def)
next
  fix s :: task and m f
  assume s: "task_inv (drv s)" and m: "polite C cf ct m" and f: "hook_of (clipboard_tab cf ct rjunk wjunk) m = Some f"
  have sus: "SUSPEND C < - 1" and sane: "sane_codes C" using m by (simp_all add: polite_def)
  consider "m_type m = CDEV_OPEN" | "m_type m = CDEV_CLOSE" | "m_type m = CDEV_READ" | "m_type m = CDEV_WRITE"
    using f by (cases "m_type m") (auto simp: hook_of_def clipboard_tab_def)
  then show "\<exists>r t. f s = Inr (r, t) \<and> task_inv (drv t) \<and> ok_status C (m_type m) r"
  proof cases
    case 1
    then show ?thesis using s f sane
      by (auto simp: hook_of_def clipboard_tab_def clipboard_open_def on_driver_def ok_status_def sane_codes_def OK_def)
  next
    case 2
    then show ?thesis using s f sane
      by (auto simp: hook_of_def clipboard_tab_def clipboard_close_def on_driver_def ok_status_def sane_codes_def OK_def)
  next
    case 3
    have "wf_driver (drv s)" using s by (simp add: task_inv_def)
    from read_keeps [OF this length_fit] obtain r out t where
      r: "clipboard_read ct (fit GET_SIZE rjunk) (m_source m) (rw_grant m) (rw_count m) (drv s) = Inr (r, out, t)"
      by metis
    have "r \<noteq> SUSPEND C"
      using read_status [OF s length_fit r] m 3 sus by (auto simp: polite_def)
    with read_status [OF s length_fit r] r 3 f show ?thesis
      by (auto simp: hook_of_def clipboard_tab_def read_hook_def ok_status_def suspendable_def)
  next
    case 4
    have wf: "wf_driver (drv s)" using s by (simp add: task_inv_def)
    have sane': "sane_write cf (m_source m) (rw_grant m) (rw_count m)" using m 4 by (simp add: polite_def)
    from write_keeps [OF wf length_fit this] obtain r t where
      r: "clipboard_write cf (fit SET_SIZE wjunk) (m_source m) (rw_grant m) (rw_count m) (drv s) = Inr (r, t)"
      by metis
    have pid: "0 \<le> sint (s_pid (set_of bs))"
      if "cf (m_source m) (rw_grant m) (unat (rw_count m)) = Inr bs" "unat (rw_count m) = SET_SIZE" for bs
      using m 4 that by (simp add: polite_def)
    note st = write_status [OF s length_fit sane' pid r]
    have "r \<noteq> SUSPEND C"
      using st m 4 sus by (auto simp: polite_def)
    with st r 4 f show ?thesis
      by (auto simp: hook_of_def clipboard_tab_def on_driver_def ok_status_def suspendable_def)
  qed
qed (simp_all add: clipboard_tab_def)

end
