(* ===== verification/Text_Size.thy ===== *)
theory Text_Size
  imports Prelude
begin

text \<open>
  How long a text becomes when its runs are expanded: \<open>include_char\<close> and
  \<open>expected_decompressed_size\<close> of \<open>lib/libc/misc/copy_paste_clipboard.c\<close> (and, unchanged, of
  \<open>test/asm/asm_tester.c\<close>).  A text is a sequence of characters, each followed by an optional
  decimal count.
\<close>

section \<open>Characters\<close>

text \<open>
  \<open>char\<close> is signed on the target, and \<open>isdigit\<close> is defined on \<open>EOF\<close> (-1) and the values of
  \<open>unsigned char\<close> only: the other negative characters leave defined behaviour.
\<close>

definition digit_char :: "byte \<Rightarrow> bool" where
  "digit_char c \<longleftrightarrow> 48 \<le> unat c \<and> unat c \<le> 57"

definition isdigit :: "byte \<Rightarrow> bool cres" where
  "isdigit c = (if sint c < - 1 then Inl Bad_Ctype else Inr (digit_char c))"

definition ctype_ok :: "byte \<Rightarrow> bool" where
  "ctype_ok c \<longleftrightarrow> - 1 \<le> sint c"

lemma isdigit_ok [simp]: "ctype_ok c \<Longrightarrow> isdigit c = Inr (digit_char c)"
  by (simp add: isdigit_def ctype_ok_def)

lemma isdigit_bad: "\<not> ctype_ok c \<Longrightarrow> isdigit c = Inl Bad_Ctype"
  by (simp add: isdigit_def ctype_ok_def)

section \<open>The functions\<close>

definition include_char :: "u32 \<Rightarrow> u32 \<Rightarrow> u32 \<Rightarrow> u32 \<times> u32" where
  "include_char len counter pos =
     (if counter = 0 \<and> 0 < pos then (len + 1, counter) else (len + counter, 0))"

function size_loop :: "byte list \<Rightarrow> nat \<Rightarrow> nat \<Rightarrow> u32 \<Rightarrow> u32 \<Rightarrow> (u32 \<times> u32) cres" where
  "size_loop buf n pos len current =
     (if pos < n then
        rbind (aget buf (int pos)) (\<lambda>c.
          rbind (isdigit c) (\<lambda>dig.
            if \<not> dig then
              let (len', current') = include_char len current (of_nat pos)
              in size_loop buf n (Suc pos) len' current'
            else size_loop buf n (Suc pos) len (10 * current + ucast c - 48)))
      else Inr (len, current))"
  by pat_completeness auto
termination
  by (relation "measure (\<lambda>(buf, n, pos, len, current). n - pos)") auto

declare size_loop.simps [simp del]

definition expected_decompressed_size :: "byte list \<Rightarrow> u32 \<Rightarrow> u32 cres" where
  "expected_decompressed_size buf buffer_len =
     rbind (size_loop buf (unat buffer_len) 0 0 0) (\<lambda>(len, current).
       Inr (fst (include_char len current buffer_len)))"

section \<open>The loop over the list of characters\<close>

text \<open>\<open>first\<close> tells the first character from the others, which is all the loop uses \<open>pos\<close> for.\<close>

definition flush :: "bool \<Rightarrow> u32 \<times> u32 \<Rightarrow> u32 \<times> u32" where
  "flush first st = (case st of (len, current) \<Rightarrow>
     if current = 0 \<and> \<not> first then (len + 1, current) else (len + current, 0))"

definition scan_char :: "bool \<Rightarrow> byte \<Rightarrow> u32 \<times> u32 \<Rightarrow> u32 \<times> u32" where
  "scan_char first c st =
     (if digit_char c then (fst st, 10 * snd st + ucast c - 48) else flush first st)"

fun scan :: "bool \<Rightarrow> byte list \<Rightarrow> u32 \<times> u32 \<Rightarrow> u32 \<times> u32" where
  "scan first [] st = st"
| "scan first (c # cs) st = scan False cs (scan_char first c st)"

lemma of_nat_pos_iff: "n < 2 ^ 32 \<Longrightarrow> (0 :: u32) < of_nat n \<longleftrightarrow> 0 < n"
  by (simp add: word_less_nat_alt unat_of_nat take_bit_nat_eq_self)

lemma include_char_flush:
  "n < 2 ^ 32 \<Longrightarrow> include_char len current (of_nat n) = flush (n = 0) (len, current)"
  by (simp add: include_char_def flush_def of_nat_pos_iff)

lemma size_loop_scan:
  assumes "n \<le> length buf" and "n < 2 ^ 32" and "\<forall>c \<in> set (take n buf). ctype_ok c"
    and "pos \<le> n"
  shows "size_loop buf n pos len current =
    Inr (scan (pos = 0) (drop pos (take n buf)) (len, current))"
  using assms
proof (induction buf n pos len current rule: size_loop.induct)
  case (1 buf n pos len current)
  show ?case
  proof (cases "pos < n")
    case False
    with "1.prems" show ?thesis by (simp add: size_loop.simps)
  next
    case True
    let ?c = "buf ! pos"
    from True "1.prems"(1) have drop: "drop pos (take n buf) = ?c # drop (Suc pos) (take n buf)"
      by (subst Cons_nth_drop_Suc [symmetric]) simp_all
    then have "?c \<in> set (take n buf)"
      by (metis in_set_dropD list.set_intros(1))
    with "1.prems"(3) have ok: "isdigit ?c = Inr (digit_char ?c)" by simp
    have get: "aget buf (int pos) = Inr ?c" using True "1.prems"(1) by simp
    show ?thesis
    proof (cases "digit_char ?c")
      case dig: True
      have "size_loop buf n pos len current = size_loop buf n (Suc pos) len (10 * current + ucast ?c - 48)"
        using True get ok dig by (subst size_loop.simps) simp
      with "1.IH"(2) [OF True get ok] dig True "1.prems" drop show ?thesis
        by (simp add: scan_char_def)
    next
      case False
      obtain l k where lk: "include_char len current (of_nat pos) = (l, k)"
        by (cases "include_char len current (of_nat pos)")
      have "size_loop buf n pos len current = size_loop buf n (Suc pos) l k"
        using True get ok False lk by (subst size_loop.simps) simp
      moreover have "size_loop buf n (Suc pos) l k
          = Inr (scan False (drop (Suc pos) (take n buf)) (l, k))"
        using "1.IH"(1) [OF True get ok _ lk [symmetric] refl] False True "1.prems" by simp
      moreover have "flush (pos = 0) (len, current) = (l, k)"
        using include_char_flush [of pos len current] lk True "1.prems"(2) by simp
      ultimately show ?thesis using drop False by (simp add: scan_char_def)
    qed
  qed
qed

lemma expected_size_scan:
  assumes "unat n \<le> length buf" and "\<forall>c \<in> set (take (unat n) buf). ctype_ok c"
  shows "expected_decompressed_size buf n =
    Inr (fst (flush (unat n = 0) (scan True (take (unat n) buf) (0, 0))))"
proof -
  have lt: "unat n < 2 ^ 32" using unsigned_less [of n] by simp
  have "include_char len current n = flush (unat n = 0) (len, current)" for len current
    using include_char_flush [OF lt, of len current] by simp
  moreover have "size_loop buf (unat n) 0 0 0 = Inr (scan True (take (unat n) buf) (0, 0))"
    using size_loop_scan [OF assms(1) lt assms(2), of 0 0 0] by simp
  ultimately show ?thesis
    by (simp add: expected_decompressed_size_def split: prod.split)
qed

lemma size_loop_bad:
  assumes "n \<le> length buf"
  shows "\<exists>c\<in>set (drop pos (take n buf)). \<not> ctype_ok c \<Longrightarrow> \<not> no_fault (size_loop buf n pos len current)"
proof (induction buf n pos len current rule: size_loop.induct)
  case (1 buf n pos len current)
  show ?case
  proof (cases "pos < n \<and> pos < length buf \<and> ctype_ok (buf ! pos)")
    case False
    have "pos < n" using "1.prems" by (cases "pos < n") auto
    with False show ?thesis
      by (subst size_loop.simps) (auto simp: isdigit_bad)
  next
    case True
    then have pos: "pos < n" and get: "aget buf (int pos) = Inr (buf ! pos)"
      and dig: "isdigit (buf ! pos) = Inr (digit_char (buf ! pos))" by simp_all
    have "drop pos (take n buf) = buf ! pos # drop (Suc pos) (take n buf)"
      using True by (subst Cons_nth_drop_Suc [symmetric]) simp_all
    with "1.prems" True have rest: "\<exists>c\<in>set (drop (Suc pos) (take n buf)). \<not> ctype_ok c" by simp
    obtain l k where lk: "include_char len current (of_nat pos) = (l, k)"
      by (cases "include_char len current (of_nat pos)")
    show ?thesis
      using "1.IH"(1) [OF pos get dig _ lk [symmetric] refl rest] "1.IH"(2) [OF pos get dig _ rest] lk
      by (subst size_loop.simps) (simp add: pos get dig del: aget_int)
  qed
qed

section \<open>Text without digits\<close>

lemma scan_plain:
  "\<forall>c \<in> set cs. \<not> digit_char c \<Longrightarrow> scan False cs (len, 0) = (len + of_nat (length cs), 0)"
  by (induction cs arbitrary: len) (simp_all add: scan_char_def flush_def add.assoc)

lemma scan_plain_first:
  assumes "\<forall>c \<in> set cs. \<not> digit_char c"
  shows "fst (flush (cs = []) (scan True cs (0, 0))) = of_nat (length cs)"
proof (cases cs)
  case Nil
  then show ?thesis by (simp add: flush_def)
next
  case (Cons c cs')
  with assms have "scan True cs (0, 0) = (of_nat (length cs'), 0)"
    by (simp add: scan_char_def flush_def scan_plain)
  with Cons show ?thesis by (simp add: flush_def)
qed

end
