(* ===== verification/Ancestor.thy ===== *)
theory Ancestor
  imports Prelude
begin

text \<open>
  The system call that decides who may lock an entry: \<open>do_checkifancestor\<close> in
  \<open>servers/pm/do_check_if_ancestor.c\<close> and its library stub \<open>check_if_ancestor\<close> in
  \<open>lib/libc/misc/check_if_ancestor.c\<close>.  The process table \<open>mproc\<close> belongs to PM and is a
  parameter, as is the number \<open>NR_PROCS\<close> of its slots (the length of the table).
\<close>

section \<open>The process table and the call\<close>

record mproc =
  mp_pid :: u32
  mp_parent :: nat
  mp_in_use :: bool

text \<open>The search for the slot of a process.\<close>

function find_slot :: "mproc list \<Rightarrow> u32 \<Rightarrow> nat \<Rightarrow> nat option" where
  "find_slot mp pid2 i =
     (if i < length mp
      then if mp_in_use (mp ! i) \<and> mp_pid (mp ! i) = pid2 then Some i
           else find_slot mp pid2 (Suc i)
      else None)"
  by pat_completeness auto
termination
  by (relation "measure (\<lambda>(mp, pid2, i). length mp - i)") auto

declare find_slot.simps [simp del]

text \<open>
  The \<open>do ... while\<close> loop up the chain of parents.  Nothing in the code bounds it, so it is
  a partial function whose value \<open>None\<close> is a loop that never returns; a parent index outside
  the table is an access outside the array.
\<close>

partial_function (option) climb :: "mproc list \<Rightarrow> u32 \<Rightarrow> nat \<Rightarrow> int cres option" where
  "climb mp pid1 prev =
     (if length mp \<le> prev \<or> length mp \<le> mp_parent (mp ! prev) then Some (Inl Out_Of_Bounds)
      else let current = mp_parent (mp ! prev)
           in if mp_pid (mp ! current) = pid1 then Some (Inr 1)
              else if mp_pid (mp ! current) \<noteq> 1 then climb mp pid1 current
              else Some (Inr 0))"

definition do_checkifancestor :: "mproc list \<Rightarrow> u32 \<Rightarrow> u32 \<Rightarrow> int cres option" where
  "do_checkifancestor mp pid1 pid2 =
     (if pid1 = pid2 then Some (Inr 1)
      else case find_slot mp pid2 0 of
        None \<Rightarrow> Some (Inr 0)
      | Some i \<Rightarrow> climb mp pid1 i)"

text \<open>
  The stub: \<open>_syscall\<close> returns what PM returned, or -1 on failure, and the stub's result
  type \<open>uint8_t\<close> keeps the low byte.
\<close>

definition check_if_ancestor :: "(u32 \<Rightarrow> u32 \<Rightarrow> int) \<Rightarrow> u32 \<Rightarrow> u32 \<Rightarrow> byte" where
  "check_if_ancestor syscall pid1 pid2 = word_of_int (syscall pid1 pid2)"

section \<open>Chains of parents\<close>

text \<open>
  \<open>chain mp i ks\<close>: \<open>ks\<close> are the slots the loop visits from slot \<open>i\<close>, up to the first one
  whose process has identifier 1, and all of them lie in the table.
\<close>

fun chain :: "mproc list \<Rightarrow> nat \<Rightarrow> nat list \<Rightarrow> bool" where
  "chain mp i [] \<longleftrightarrow> False"
| "chain mp i [k] \<longleftrightarrow>
     i < length mp \<and> k = mp_parent (mp ! i) \<and> k < length mp \<and> mp_pid (mp ! k) = 1"
| "chain mp i (k # ks) \<longleftrightarrow>
     i < length mp \<and> k = mp_parent (mp ! i) \<and> k < length mp \<and> mp_pid (mp ! k) \<noteq> 1
       \<and> chain mp k ks"

text \<open>The processes on the way up to \<open>init\<close>.\<close>

definition ancestors :: "mproc list \<Rightarrow> nat list \<Rightarrow> u32 set" where
  "ancestors mp ks = (\<lambda>k. mp_pid (mp ! k)) ` set ks"

lemma climb_chain:
  "chain mp i ks \<Longrightarrow> climb mp pid1 i = Some (Inr (if pid1 \<in> ancestors mp ks then 1 else 0))"
proof (induction mp i ks rule: chain.induct)
  case (1 mp i)
  then show ?case by simp
next
  case (2 mp i k)
  then show ?case by (subst climb.simps) (auto simp: ancestors_def Let_def)
next
  case (3 mp i k k' ks)
  then show ?case by (subst climb.simps) (auto simp: ancestors_def Let_def)
qed

lemma find_slot_spec:
  "find_slot mp pid2 i = None \<Longrightarrow> i \<le> j \<Longrightarrow> j < length mp \<Longrightarrow>
   \<not> (mp_in_use (mp ! j) \<and> mp_pid (mp ! j) = pid2)"
proof (induction mp pid2 i rule: find_slot.induct)
  case (1 mp pid2 i)
  then have "i < length mp" by simp
  with "1.prems"(1) have i: "\<not> (mp_in_use (mp ! i) \<and> mp_pid (mp ! i) = pid2)"
    and "find_slot mp pid2 (Suc i) = None"
    by (auto simp: find_slot.simps [of mp pid2 i] split: if_splits)
  with "1.IH" [OF \<open>i < length mp\<close> i] "1.prems"(2,3) show ?case
    by (cases "j = i") auto
qed

lemma find_slot_Some:
  "find_slot mp pid2 i = Some k \<Longrightarrow>
   i \<le> k \<and> k < length mp \<and> mp_in_use (mp ! k) \<and> mp_pid (mp ! k) = pid2
   \<and> (\<forall>j. i \<le> j \<and> j < k \<longrightarrow> \<not> (mp_in_use (mp ! j) \<and> mp_pid (mp ! j) = pid2))"
proof (induction mp pid2 i rule: find_slot.induct)
  case (1 mp pid2 i)
  show ?case
  proof (cases "i < length mp \<and> \<not> (mp_in_use (mp ! i) \<and> mp_pid (mp ! i) = pid2)")
    case True
    with "1.prems" have "find_slot mp pid2 (Suc i) = Some k"
      by (subst (asm) find_slot.simps) auto
    with "1.IH" True have "Suc i \<le> k \<and> k < length mp \<and> mp_in_use (mp ! k)
        \<and> mp_pid (mp ! k) = pid2
        \<and> (\<forall>j. Suc i \<le> j \<and> j < k \<longrightarrow> \<not> (mp_in_use (mp ! j) \<and> mp_pid (mp ! j) = pid2))"
      by blast
    with True show ?thesis by (metis Suc_leD Suc_le_eq le_neq_implies_less)
  next
    case False
    with "1.prems" have "i < length mp \<and> k = i \<and> mp_in_use (mp ! i) \<and> mp_pid (mp ! i) = pid2"
      by (subst (asm) find_slot.simps) (auto split: if_splits)
    then show ?thesis by auto
  qed
qed

text \<open>
  What the call is to answer, said without the code's search.  The slot of a process is the first active one with its
  identifier (in PM's table there is at most one).  A process descends from another one if they are the same or if
  the other one is on the chain of parents of its slot, up to and including process 1.
\<close>

definition slot_of :: "mproc list \<Rightarrow> u32 \<Rightarrow> nat \<Rightarrow> bool" where
  "slot_of mp pid k \<longleftrightarrow>
     k < length mp \<and> mp_in_use (mp ! k) \<and> mp_pid (mp ! k) = pid
     \<and> (\<forall>j<k. mp_in_use (mp ! j) \<longrightarrow> mp_pid (mp ! j) \<noteq> pid)"

definition descends :: "mproc list \<Rightarrow> u32 \<Rightarrow> u32 \<Rightarrow> bool" where
  "descends mp p q \<longleftrightarrow> p = q \<or> (\<exists>k ks. slot_of mp q k \<and> chain mp k ks \<and> p \<in> ancestors mp ks)"

lemma slot_of_unique: "slot_of mp pid j \<Longrightarrow> slot_of mp pid k \<Longrightarrow> j = k"
  unfolding slot_of_def by (metis linorder_neqE_nat)

lemma find_slot_iff: "find_slot mp pid 0 = Some k \<longleftrightarrow> slot_of mp pid k"
proof
  show "slot_of mp pid k" if "find_slot mp pid 0 = Some k"
    using find_slot_Some [OF that] by (auto simp: slot_of_def)
  show "find_slot mp pid 0 = Some k" if k: "slot_of mp pid k"
  proof (cases "find_slot mp pid 0")
    case None
    with find_slot_spec [OF this, of k] k show ?thesis by (simp add: slot_of_def)
  next
    case (Some j)
    with find_slot_Some [OF this] have "slot_of mp pid j" by (auto simp: slot_of_def)
    with Some k slot_of_unique show ?thesis by blast
  qed
qed

lemma find_slot_none: "find_slot mp pid 0 = None \<longleftrightarrow> (\<forall>k. \<not> slot_of mp pid k)"
  using find_slot_iff [of mp pid] by (cases "find_slot mp pid 0") auto

section \<open>Tables in which every chain ends\<close>

text \<open>
  PM keeps the parents as a forest: a rank that decreases towards the slots of process 1
  and never leaves the table.  Then the loop returns from every slot.
\<close>

definition rooted :: "mproc list \<Rightarrow> (nat \<Rightarrow> nat) \<Rightarrow> bool" where
  "rooted mp rank \<longleftrightarrow>
     (\<forall>i\<in>{..<length mp}. mp_parent (mp ! i) < length mp
        \<and> (mp_pid (mp ! mp_parent (mp ! i)) \<noteq> 1 \<longrightarrow> rank (mp_parent (mp ! i)) < rank i))"

lemma rooted_chain:
  assumes "rooted mp rank" and "i < length mp"
  shows "\<exists>ks. chain mp i ks"
  using assms(2)
proof (induction "rank i" arbitrary: i rule: less_induct)
  case less
  let ?k = "mp_parent (mp ! i)"
  have k: "?k < length mp" "mp_pid (mp ! ?k) \<noteq> 1 \<Longrightarrow> rank ?k < rank i"
    using assms(1) less.prems by (auto simp: rooted_def)
  show ?case
  proof (cases "mp_pid (mp ! ?k) = 1")
    case True
    with k less.prems have "chain mp i [?k]" by simp
    then show ?thesis by blast
  next
    case False
    with k less.hyps obtain ks where ks: "chain mp ?k ks" by blast
    then obtain k' ks' where "ks = k' # ks'" by (cases ks) auto
    with ks False k less.prems have "chain mp i (?k # ks)" by simp
    then show ?thesis by blast
  qed
qed

text \<open>The chain of a slot is unique, so the specification is a function of the slot.\<close>

lemma chain_unique: "chain mp i ks \<Longrightarrow> chain mp i ls \<Longrightarrow> ks = ls"
proof (induction mp i ks arbitrary: ls rule: chain.induct)
  case (1 mp i)
  then show ?case by simp
next
  case (2 mp i k)
  then show ?case by (cases "(mp, i, ls)" rule: chain.cases) auto
next
  case (3 mp i k k' ks)
  then show ?case by (cases "(mp, i, ls)" rule: chain.cases) auto
qed

section \<open>Loops that never end\<close>

text \<open>A set of slots closed under parents without the process searched for and without process 1.\<close>

definition trap :: "mproc list \<Rightarrow> u32 \<Rightarrow> nat set \<Rightarrow> bool" where
  "trap mp pid1 S \<longleftrightarrow>
     (\<forall>i\<in>S. i < length mp \<and> mp_parent (mp ! i) \<in> S \<and> mp_pid (mp ! i) \<noteq> pid1 \<and> mp_pid (mp ! i) \<noteq> 1)"

lemma trapD:
  assumes "trap mp pid1 S" and "i \<in> S"
  shows "i < length mp" "mp_parent (mp ! i) \<in> S" "mp_parent (mp ! i) < length mp"
    "mp_pid (mp ! mp_parent (mp ! i)) \<noteq> pid1" "mp_pid (mp ! mp_parent (mp ! i)) \<noteq> 1"
  using assms unfolding trap_def by blast+

lemma climb_returns_outside:
  "climb mp pid1 i = Some r \<Longrightarrow> trap mp pid1 S \<longrightarrow> i \<notin> S"
proof (rule climb.raw_induct [where P = "\<lambda>mp pid1 i r. trap mp pid1 S \<longrightarrow> i \<notin> S"])
  fix f mp pid1 i and r :: "int cres"
  assume IH: "\<And>mp pid1 i r. f mp pid1 i = Some r \<Longrightarrow> trap mp pid1 S \<longrightarrow> i \<notin> S"
    and step: "(if length mp \<le> i \<or> length mp \<le> mp_parent (mp ! i) then Some (Inl Out_Of_Bounds)
      else let current = mp_parent (mp ! i)
           in if mp_pid (mp ! current) = pid1 then Some (Inr 1)
              else if mp_pid (mp ! current) \<noteq> 1 then f mp pid1 current
              else Some (Inr 0)) = Some r"
  show "trap mp pid1 S \<longrightarrow> i \<notin> S"
  proof (intro impI notI)
    assume S: "trap mp pid1 S" "i \<in> S"
    note i = trapD [OF S]
    then have "f mp pid1 (mp_parent (mp ! i)) = Some r"
      using step by (simp add: Let_def)
    from IH [OF this] S(1) i(2) show False by blast
  qed
qed

lemma check_rooted:
  assumes "rooted mp rank"
  shows "\<exists>r. do_checkifancestor mp pid1 pid2 = Some (Inr r) \<and> (r = 0 \<or> r = 1)
    \<and> (r = 1 \<longleftrightarrow> descends mp pid1 pid2)"
proof (cases "pid1 = pid2")
  case True
  then show ?thesis by (simp add: do_checkifancestor_def descends_def)
next
  case False
  show ?thesis
  proof (cases "find_slot mp pid2 0")
    case None
    with False find_slot_none [of mp pid2] show ?thesis by (simp add: do_checkifancestor_def descends_def)
  next
    case (Some i)
    then have "i < length mp" using find_slot_Some by blast
    from rooted_chain [OF assms this] obtain ks where ks: "chain mp i ks" by blast
    with chain_unique have "chain mp i ls \<longleftrightarrow> ls = ks" for ls by blast
    moreover from Some have "slot_of mp pid2 j \<longleftrightarrow> j = i" for j
      using find_slot_iff [of mp pid2 j] by auto
    ultimately show ?thesis using False Some climb_chain [OF ks, of pid1]
      by (simp add: do_checkifancestor_def descends_def)
  qed
qed

section \<open>Properties\<close>

text \<open>C22: On a process table whose parents lead to process 1 the call always returns, and answers 1 exactly
  when the two processes are the same or the second has an active slot and the first is on the chain of parents of the
  first such slot, up to and including process 1.  Otherwise it answers 0, in particular when no active slot has the
  number of the second process.\<close>

theorem check_ancestor_correct:
  assumes "rooted mp rank"
  shows "\<exists>r. do_checkifancestor mp pid1 pid2 = Some (Inr r) \<and> (r = 0 \<or> r = 1)
    \<and> (r = 1 \<longleftrightarrow> descends mp pid1 pid2)
    \<and> ((\<forall>k<length mp. mp_in_use (mp ! k) \<longrightarrow> mp_pid (mp ! k) \<noteq> pid2) \<and> pid1 \<noteq> pid2 \<longrightarrow> r = 0)"
  using check_rooted [OF assms, of pid1 pid2] by (auto simp: descends_def slot_of_def)

text \<open>Process 1 in slot 0, its child 5 in slot 1, and 9, a child of 5, in slot 2.\<close>

definition sample_table :: "mproc list" where
  "sample_table =
     [\<lparr>mp_pid = 1, mp_parent = 0, mp_in_use = True\<rparr>,
      \<lparr>mp_pid = 5, mp_parent = 0, mp_in_use = True\<rparr>,
      \<lparr>mp_pid = 9, mp_parent = 1, mp_in_use = True\<rparr>]"

lemma sample_rooted: "rooted sample_table id"
  by (simp add: rooted_def sample_table_def lessThan_Suc numeral_3_eq_3)

theorem check_ancestor_correct_witness:
  "\<exists>r. do_checkifancestor sample_table 5 9 = Some (Inr r) \<and> r = 1"
proof -
  have "slot_of sample_table 9 2"
    by (auto simp: slot_of_def sample_table_def less_2_cases_iff)
  moreover have "chain sample_table 2 [1, 0]" and "5 \<in> ancestors sample_table [1, 0]"
    by (simp_all add: sample_table_def ancestors_def)
  ultimately have "descends sample_table 5 9" unfolding descends_def by blast
  with check_ancestor_correct [OF sample_rooted, of 5 9] show ?thesis by blast
qed

text \<open>C38: Nothing in the code bounds the climb: from a process whose chain of parents reaches neither the
  first process nor process 1, as when a slot is its own parent, the call never returns.\<close>

theorem check_ancestor_diverges:
  assumes "trap mp pid1 S" and "find_slot mp pid2 0 = Some i" and "i \<in> S"
  shows "do_checkifancestor mp pid1 pid2 = None"
proof -
  have "pid1 \<noteq> pid2"
    using find_slot_Some [OF assms(2)] assms(1,3) unfolding trap_def by blast
  moreover have "climb mp pid1 i = None"
    using climb_returns_outside [of mp pid1 i] assms(1,3) by (cases "climb mp pid1 i") blast+
  ultimately show ?thesis using assms(2) by (simp add: do_checkifancestor_def)
qed

theorem check_ancestor_diverges_witness:
  "do_checkifancestor [\<lparr>mp_pid = 0, mp_parent = 0, mp_in_use = True\<rparr>] 5 0 = None"
proof (rule check_ancestor_diverges [where S = "{0}" and i = 0])
  show "trap [\<lparr>mp_pid = 0, mp_parent = 0, mp_in_use = True\<rparr>] 5 {0}" by (simp add: trap_def)
  show "find_slot [\<lparr>mp_pid = 0, mp_parent = 0, mp_in_use = True\<rparr>] 0 0 = Some 0"
    by (simp add: find_slot.simps)
qed simp

text \<open>The library stub answers no exactly when the system call's result is a multiple of 256, so every failure
  of the call, which is -1, is taken for a yes.\<close>

theorem check_stub_fails_open:
  "(check_if_ancestor sc p q = 0 \<longleftrightarrow> 256 dvd sc p q) \<and> check_if_ancestor (\<lambda>p q. - 1) p q = 255"
proof -
  have "(word_of_int (sc p q) :: byte) = 0 \<longleftrightarrow> 256 dvd sc p q"
    by (simp add: word_of_int_eq_0_iff)
  then show ?thesis by (simp add: check_if_ancestor_def)
qed

end
