(* ===== verification/Client.thy ===== *)
theory Client
  imports Device_Port Text_Size Ancestor
begin

text \<open>
  The library functions \<open>copy_to_clipboard\<close> and \<open>paste_from_clipboard\<close> of
  \<open>lib/libc/misc/copy_paste_clipboard.c\<close>.  The system calls they make are parameters, gathered
  in the record \<open>sys\<close> over an arbitrary state of the system; \<open>local_sys\<close> builds them from a
  device, which is how the functions meet the driver.
\<close>

section \<open>System calls\<close>

datatype open_mode = O_RDWR | O_WRONLY

text \<open>
  \<open>sys_read\<close> also yields the bytes stored into the caller's buffer, if any; \<open>sys_ancestor\<close> is
  the function \<open>check_if_ancestor\<close> as the process sees it.
\<close>

record 'w sys =
  sys_open :: "open_mode \<Rightarrow> 'w \<Rightarrow> int \<times> 'w"
  sys_close :: "int \<Rightarrow> 'w \<Rightarrow> 'w"
  sys_read :: "int \<Rightarrow> u32 \<Rightarrow> 'w \<Rightarrow> (int \<times> byte list option \<times> 'w) cres"
  sys_write :: "int \<Rightarrow> byte list \<Rightarrow> 'w \<Rightarrow> (int \<times> 'w) cres"
  sys_getpid :: u32
  sys_ancestor :: "u32 \<Rightarrow> u32 \<Rightarrow> byte"

section \<open>The library functions\<close>

definition paste_from_clipboard ::
  "'w sys \<Rightarrow> u32 \<Rightarrow> byte list \<Rightarrow> u32 \<Rightarrow> 'w \<Rightarrow> (u32 \<times> byte list \<times> 'w) cres"
where
  "paste_from_clipboard sys i buf blen w =
     (let (fd, w) = sys_open sys O_RDWR w
      in if fd < 0 then Inr (- 1, buf, w)
         else if BUF_MAX_COUNT \<le> unat i then Inr (- 1, buf, w)
         else rbind (sys_read sys fd (ENCODE_ID i) w) (\<lambda>(source_pid, _, w).
           if source_pid < 0 then Inr (- 1, buf, w)
           else let locking_pid = sys_getpid sys
           in if sys_ancestor sys (word_of_int source_pid) locking_pid = 0 then Inr (- 1, buf, w)
           else let ml = \<lparr>l_pid = locking_pid, l_id = i, l_buffer_len = blen\<rparr>
           in rbind (sys_write sys fd (lock_bytes ml) w) (\<lambda>(ret, w).
             if ret < 0 then Inr (word_of_int ret, buf, w)
             else rbind (sys_read sys fd (ENCODE_PID (l_pid ml)) w) (\<lambda>(ret, out, w).
               if ret < 0 then Inr (word_of_int ret, buf, w)
               else let zero = replicate GET_SIZE 0;
                        mg = get_of (case out of None \<Rightarrow> zero | Some bs \<Rightarrow> overwrite 0 bs zero);
                        n = unat (g_buffer_len mg)
               in if length (g_buffer mg) < n \<or> length buf < n then Inl Out_Of_Bounds
                  else Inr (word_of_int ret, overwrite 0 (take n (g_buffer mg)) buf,
                            sys_close sys fd w)))))"

definition copy_to_clipboard ::
  "'w sys \<Rightarrow> byte list \<Rightarrow> byte list \<Rightarrow> u32 \<Rightarrow> 'w \<Rightarrow> (u32 \<times> 'w) cres"
where
  "copy_to_clipboard sys junk buf blen w =
     (if ENTRY_LEN_LIMIT < unat blen then Inr (- 1, w)
      else let (fd, w) = sys_open sys O_WRONLY w
      in if fd < 0 then Inr (- 1, w)
         else rbind (expected_decompressed_size buf blen) (\<lambda>dlen.
           if length buf < unat blen then Inl Out_Of_Bounds
           else let ms = \<lparr>s_pid = sys_getpid sys, s_buffer_len = blen,
                          s_decompressed_len = dlen,
                          s_buffer = overwrite 0 (take (unat blen) buf) junk\<rparr>
           in rbind (sys_write sys fd (set_bytes ms) w) (\<lambda>(ret, w).
                Inr (word_of_int ret, sys_close sys fd w))))"

section \<open>A process connected to a device\<close>

text \<open>
  What the system calls do for a process of at most \<open>limit\<close> open files: \<open>open\<close> and \<open>close\<close>
  count, \<open>read\<close> and \<open>write\<close> pass the request to the device and turn a negative status into
  -1, as the C library does.
\<close>

record 's world =
  dev :: 's
  open_files :: nat

definition errno_ret :: "int \<Rightarrow> int" where
  "errno_ret r = (if r < 0 then - 1 else r)"

definition local_sys ::
  "(u32 \<Rightarrow> 's \<Rightarrow> (int \<times> byte list option \<times> 's) cres) \<Rightarrow>
   (byte list \<Rightarrow> 's \<Rightarrow> (int \<times> 's) cres) \<Rightarrow> u32 \<Rightarrow> (u32 \<Rightarrow> u32 \<Rightarrow> byte) \<Rightarrow> nat \<Rightarrow> 's world sys"
where
  "local_sys dr dw pid anc limit =
     \<lparr>sys_open = (\<lambda>mode w. if open_files w < limit
        then (int (open_files w), w\<lparr>open_files := Suc (open_files w)\<rparr>) else (- 1, w)),
      sys_close = (\<lambda>fd w. w\<lparr>open_files := open_files w - 1\<rparr>),
      sys_read = (\<lambda>fd sz w. rbind (dr sz (dev w)) (\<lambda>(r, out, s).
        Inr (errno_ret r, out, w\<lparr>dev := s\<rparr>))),
      sys_write = (\<lambda>fd bs w. rbind (dw bs (dev w)) (\<lambda>(r, s). Inr (errno_ret r, w\<lparr>dev := s\<rparr>))),
      sys_getpid = pid, sys_ancestor = anc\<rparr>"

lemma errno_ret_simps [simp]:
  "0 \<le> r \<Longrightarrow> errno_ret r = r" "errno_ret (- 1) = - 1" "errno_ret OK = OK"
  by (simp_all add: errno_ret_def OK_def)

section \<open>The functions against the contract of the device\<close>

context clipboard_device begin

text \<open>The reply in the cleared variable of the caller.\<close>

lemma reply_stored:
  assumes "good s" and "board s i = Some it" and "length junk = ENTRY_LEN_LIMIT"
  shows "overwrite 0 (get_bytes (get_reply it junk)) (replicate GET_SIZE 0) = get_bytes (get_reply it junk)"
    and "unat (g_buffer_len (get_of (get_bytes (get_reply it junk)))) = length (contents it)"
    and "length (contents it) \<le> length (g_buffer (get_of (get_bytes (get_reply it junk))))"
    and "take (length (contents it)) (g_buffer (get_of (get_bytes (get_reply it junk)))) = contents it"
proof -
  have len: "length (contents it) \<le> ENTRY_LEN_LIMIT"
    using dom_board [OF assms(1,2)] by simp
  then have "length (get_bytes (get_reply it junk)) = GET_SIZE"
    using assms(3) by (simp add: length_get_bytes get_reply_def)
  then show "overwrite 0 (get_bytes (get_reply it junk)) (replicate GET_SIZE 0) = get_bytes (get_reply it junk)"
    by (simp add: overwrite_0)
  have mg: "get_of (get_bytes (get_reply it junk)) = get_reply it junk"
    using get_of_bytes [of "get_reply it junk" "[]"] len assms(3) by (simp add: get_reply_def)
  show n: "unat (g_buffer_len (get_of (get_bytes (get_reply it junk)))) = length (contents it)"
    and "length (contents it) \<le> length (g_buffer (get_of (get_bytes (get_reply it junk))))"
    using len assms(3) unfolding mg
    by (simp_all add: get_reply_def unat_of_nat take_bit_nat_eq_self ENTRY_LEN_LIMIT_def)
  show "take (length (contents it)) (g_buffer (get_of (get_bytes (get_reply it junk)))) = contents it"
    using reply_decodes [OF assms] n by simp
qed

lemma paste_takes:
  assumes s: "good (dev w)" and files: "open_files w < limit" and pid: "0 \<le> sint pid"
    and it: "board (dev w) i = Some it" "holder it = None" "0 \<le> sint (owner it)"
    and allowed: "anc (owner it) pid \<noteq> 0" and fits: "\<not> n < plain_len it"
  shows "\<exists>s. paste_from_clipboard (local_sys dev_read dev_write pid anc limit) (of_nat i) buf n w =
      (if length buf < length (contents it) then Inl Out_Of_Bounds
       else Inr (0, overwrite 0 (contents it) buf, w\<lparr>dev := s\<rparr>))
    \<and> good s \<and> board s = (drop_locks pid (board (dev w)))(i := None)"
proof -
  have i: "i < BUF_MAX_COUNT" using dom_board [OF s it(1)] by simp
  obtain p where p: "dev_read (ENCODE_ID (of_nat i)) (dev w) = Inr (p, None, dev w)"
      "p = sint (owner it)"
    using owner_law [OF s i] it(1) by blast
  obtain t u junk where t: "dev_write (lock_bytes (lock_msg pid i n)) (dev w) = Inr (OK, t)"
      "dev_read (ENCODE_PID pid) t = Inr (OK, Some (get_bytes (get_reply it junk)), u)"
      "length junk = ENTRY_LEN_LIMIT" "good u"
      "board u = (drop_locks pid (board (dev w)))(i := None)"
    using lock_then_take [OF s pid it(1,2) fits] by blast
  note mg = reply_stored [OF s it(1) t(3)]
  have "\<not> BUF_MAX_COUNT \<le> unat (of_nat i :: u32)"
    using i by simp
  then have "paste_from_clipboard (local_sys dev_read dev_write pid anc limit) (of_nat i) buf n w =
      (if length buf < length (contents it) then Inl Out_Of_Bounds
       else Inr (0, overwrite 0 (contents it) buf, w\<lparr>dev := u\<rparr>))"
    using files p it(3) allowed t(1,2) mg
    by (simp add: paste_from_clipboard_def local_sys_def OK_def lock_msg_def Let_def)
  with t show ?thesis by blast
qed

text \<open>Without the right to the item nothing happens, but the descriptor stays open.\<close>

lemma paste_denied:
  assumes s: "good (dev w)" and files: "open_files w < limit"
    and it: "board (dev w) i = Some it" "0 \<le> sint (owner it)"
    and denied: "anc (owner it) pid = 0"
  shows "paste_from_clipboard (local_sys dev_read dev_write pid anc limit) (of_nat i) buf n w =
    Inr (- 1, buf, w\<lparr>open_files := Suc (open_files w)\<rparr>)"
proof -
  have i: "i < BUF_MAX_COUNT" using dom_board [OF s it(1)] by simp
  obtain p where "dev_read (ENCODE_ID (of_nat i)) (dev w) = Inr (p, None, dev w)"
      "p = sint (owner it)"
    using owner_law [OF s i] it(1) by blast
  with i files it(2) denied show ?thesis
    by (simp add: paste_from_clipboard_def local_sys_def)
qed

text \<open>An item that cannot be locked stays; the process loses the lock it held.\<close>

lemma paste_refused:
  assumes s: "good (dev w)" and files: "open_files w < limit"
    and it: "board (dev w) i = Some it" "0 \<le> sint (owner it)" and allowed: "anc (owner it) pid \<noteq> 0"
    and no: "\<not> lockable n (drop_locks pid (board (dev w)) i)"
  shows "\<exists>s. paste_from_clipboard (local_sys dev_read dev_write pid anc limit) (of_nat i) buf n w =
      Inr (- 1, buf, w\<lparr>dev := s, open_files := Suc (open_files w)\<rparr>)
    \<and> good s \<and> board s = drop_locks pid (board (dev w))"
proof -
  have i: "i < BUF_MAX_COUNT" using dom_board [OF s it(1)] by simp
  obtain p where "dev_read (ENCODE_ID (of_nat i)) (dev w) = Inr (p, None, dev w)"
      "p = sint (owner it)"
    using owner_law [OF s i] it(1) by blast
  moreover obtain t where "dev_write (lock_bytes (lock_msg pid i n)) (dev w) = Inr (- 1, t)"
      "good t" "board t = drop_locks pid (board (dev w))"
    using lock_refused [OF s i no] by blast
  ultimately show ?thesis
    using i files it(2) allowed
    by (intro exI [of _ t])
      (simp add: paste_from_clipboard_def local_sys_def lock_msg_def)
qed

lemma copy_stores:
  assumes s: "good (dev w)" and files: "open_files w < limit"
    and n: "unat n \<le> ENTRY_LEN_LIMIT" "unat n \<le> length buf" and junk: "length junk = ENTRY_LEN_LIMIT"
    and size: "expected_decompressed_size buf n = Inr k"
  shows "if full_board (board (dev w))
    then copy_to_clipboard (local_sys dev_read dev_write pid anc limit) junk buf n w = Inr (- 1, w)
    else (\<exists>i s. i < BUF_MAX_COUNT \<and> board (dev w) i = None
      \<and> copy_to_clipboard (local_sys dev_read dev_write pid anc limit) junk buf n w =
          Inr (of_nat i, w\<lparr>dev := s\<rparr>)
      \<and> good s \<and> board s = (board (dev w))(i \<mapsto>
          \<lparr>contents = take (unat n) buf, plain_len = k, owner = pid, holder = None\<rparr>))"
proof -
  let ?m = "\<lparr>s_pid = pid, s_buffer_len = n, s_decompressed_len = k,
      s_buffer = overwrite 0 (take (unat n) buf) junk\<rparr>"
  have sane: "sane_set ?m"
    using n junk by (simp add: sane_set_def)
  have item: "new_item ?m = \<lparr>contents = take (unat n) buf, plain_len = k, owner = pid, holder = None\<rparr>"
    using n(2) take_overwrite_0 [of "take (unat n) buf" junk] by (simp add: new_item_def min_absorb2)
  show ?thesis
  proof (cases "full_board (board (dev w))")
    case True
    with set_full [OF s sane] n size files show ?thesis
      by (simp add: copy_to_clipboard_def local_sys_def)
  next
    case False
    with set_law [OF s sane] obtain i t where
      "i < BUF_MAX_COUNT" "board (dev w) i = None" "dev_write (set_bytes ?m) (dev w) = Inr (int i, t)"
      "good t" "board t = (board (dev w))(i \<mapsto> new_item ?m)"
      by blast
    with False n size files show ?thesis
      unfolding item by (auto simp: copy_to_clipboard_def local_sys_def)
  qed
qed

end

end
