(* ===== verification/Paste_Steps.thy ===== *)
theory Paste_Steps
  imports Client
begin

text \<open>
  A paste is not one operation of the system: \<open>paste_from_clipboard\<close> makes three requests
  to the device and one to PM, and other processes run between them.  Here the function is cut at its system calls into steps, which are shown to make up the
  function when nothing comes between them, and processes that take their steps in any order over one device
  are a transition relation.
\<close>

section \<open>The steps of a paste\<close>

text \<open>
  Where a call stands: about to open the device, to ask for the owner, to ask PM, to lock, to take, or
  returned.  The descriptor and the number of the owner are the local variables that are alive there.
\<close>

datatype point =
    is_Opening: Opening | Asking int | Checking int int | Locking int | is_Taking: Taking int
  | is_Returned: Returned u32

fun paste_step ::
  "'w sys \<Rightarrow> u32 \<Rightarrow> u32 \<Rightarrow> point \<times> byte list \<times> 'w \<Rightarrow> (point \<times> byte list \<times> 'w) cres"
where
  "paste_step sys i blen (Opening, buf, w) =
     (let (fd, w) = sys_open sys O_RDWR w
      in if fd < 0 then Inr (Returned (- 1), buf, w)
         else if BUF_MAX_COUNT \<le> unat i then Inr (Returned (- 1), buf, w)
         else Inr (Asking fd, buf, w))"
| "paste_step sys i blen (Asking fd, buf, w) =
     rbind (sys_read sys fd (ENCODE_ID i) w) (\<lambda>(src, _, w).
       if src < 0 then Inr (Returned (- 1), buf, w)
       else Inr (Checking fd src, buf, w))"
| "paste_step sys i blen (Checking fd src, buf, w) =
     (if sys_ancestor sys (word_of_int src) (sys_getpid sys) = 0
      then Inr (Returned (- 1), buf, w)
      else Inr (Locking fd, buf, w))"
| "paste_step sys i blen (Locking fd, buf, w) =
     (let ml = \<lparr>l_pid = sys_getpid sys, l_id = i, l_buffer_len = blen\<rparr>
      in rbind (sys_write sys fd (lock_bytes ml) w) (\<lambda>(ret, w).
           if ret < 0 then Inr (Returned (word_of_int ret), buf, w)
           else Inr (Taking fd, buf, w)))"
| "paste_step sys i blen (Taking fd, buf, w) =
     rbind (sys_read sys fd (ENCODE_PID (sys_getpid sys)) w) (\<lambda>(ret, out, w).
       if ret < 0 then Inr (Returned (word_of_int ret), buf, w)
       else let zero = replicate GET_SIZE 0;
                mg = get_of (case out of None \<Rightarrow> zero | Some bs \<Rightarrow> overwrite 0 bs zero);
                n = unat (g_buffer_len mg)
       in if length (g_buffer mg) < n \<or> length buf < n then Inl Out_Of_Bounds
          else Inr (Returned (word_of_int ret), overwrite 0 (take n (g_buffer mg)) buf,
                    sys_close sys fd w))"
| "paste_step sys i blen (Returned r, buf, w) = Inr (Returned r, buf, w)"

primrec paste_steps ::
  "nat \<Rightarrow> 'w sys \<Rightarrow> u32 \<Rightarrow> u32 \<Rightarrow> point \<times> byte list \<times> 'w \<Rightarrow> (point \<times> byte list \<times> 'w) cres"
where
  "paste_steps 0 sys i blen x = Inr x"
| "paste_steps (Suc n) sys i blen x = rbind (paste_step sys i blen x) (paste_steps n sys i blen)"

text \<open>How many steps a call still takes, at most; every step counts down.\<close>

fun steps_left :: "point \<Rightarrow> nat" where
  "steps_left Opening = 5"
| "steps_left (Asking fd) = 4"
| "steps_left (Checking fd src) = 3"
| "steps_left (Locking fd) = 2"
| "steps_left (Taking fd) = 1"
| "steps_left (Returned r) = 0"

lemma step_counts:
  "paste_step sys i blen (l, b, w) = Inr (l', b', w') \<Longrightarrow> \<not> is_Returned l \<Longrightarrow> steps_left l' < steps_left l"
  by (cases l) (auto simp: rbind_eq_Inr Let_def split: if_splits prod.splits)

section \<open>Processes on one device\<close>

text \<open>
  Every process has its own call, buffer and open files; the device is shared.  A process that has returned
  may paste again, with any arguments, or copy.  A copy makes one request, so it is one step.
\<close>

record proc =
  pc :: point
  arg_id :: u32
  arg_len :: u32
  pbuf :: "byte list"
  files :: nat

record 's config =
  shared :: 's
  procs :: "u32 \<Rightarrow> proc"

definition view :: "'s config \<Rightarrow> u32 \<Rightarrow> 's world" where
  "view c q = \<lparr>dev = shared c, open_files = files (procs c q)\<rparr>"

definition moved :: "u32 \<Rightarrow> proc \<Rightarrow> 's world \<Rightarrow> 's config \<Rightarrow> 's config" where
  "moved q p w c = \<lparr>shared = dev w, procs = (procs c)(q := p\<lparr>files := open_files w\<rparr>)\<rparr>"

inductive moves ::
  "(u32 \<Rightarrow> 's world sys) \<Rightarrow> u32 \<Rightarrow> 's config \<Rightarrow> 's config \<Rightarrow> bool"
  for S where
  call_paste: "procs c q = p \<Longrightarrow> pc p = Returned r \<Longrightarrow>
    moves S q c (moved q (p\<lparr>pc := Opening, arg_id := i, arg_len := n, pbuf := b\<rparr>) (view c q) c)"
| step_paste: "0 \<le> sint q \<Longrightarrow> procs c q = p \<Longrightarrow> \<not> is_Returned (pc p) \<Longrightarrow>
    paste_step (S q) (arg_id p) (arg_len p) (pc p, pbuf p, view c q) = Inr (l, b, w) \<Longrightarrow>
    moves S q c (moved q (p\<lparr>pc := l, pbuf := b\<rparr>) w c)"
| call_copy: "procs c q = p \<Longrightarrow> pc p = Returned r \<Longrightarrow> length junk = ENTRY_LEN_LIMIT \<Longrightarrow>
    copy_to_clipboard (S q) junk b n (view c q) = Inr (r', w) \<Longrightarrow>
    moves S q c (moved q (p\<lparr>pc := Returned r'\<rparr>) w c)"

inductive_cases movesE: "moves S q c c'"

text \<open>Steps of any process.\<close>

definition any_moves :: "(u32 \<Rightarrow> 's world sys) \<Rightarrow> 's config \<Rightarrow> 's config \<Rightarrow> bool" where
  "any_moves S c c' \<longleftrightarrow> (\<exists>q. moves S q c c')"

text \<open>No process is in the middle of a call.\<close>

definition all_idle :: "'s config \<Rightarrow> bool" where
  "all_idle c \<longleftrightarrow> (\<forall>q. is_Returned (pc (procs c q)))"

lemma moved_simps [simp]:
  "shared (moved q p w c) = dev w"
  "procs (moved q p w c) = (procs c)(q := p\<lparr>files := open_files w\<rparr>)"
  by (simp_all add: moved_def)

lemma view_simps [simp]:
  "dev (view c q) = shared c" "open_files (view c q) = files (procs c q)"
  by (simp_all add: view_def)

section \<open>The steps make up the function\<close>

lemma paste_steps_Returned [simp]: "paste_steps n sys i blen (Returned r, b, w) = Inr (Returned r, b, w)"
  by (induction n) simp_all

lemma paste_steps_function:
  "paste_steps 5 sys i blen (Opening, buf, w) =
     rbind (paste_from_clipboard sys i buf blen w) (\<lambda>(r, b, w'). Inr (Returned r, b, w'))"
proof -
  obtain fd w1 where o: "sys_open sys O_RDWR w = (fd, w1)" by fastforce
  note unroll = numeral_eq_Suc paste_steps.simps
  show ?thesis
  proof (cases "fd < 0 \<or> BUF_MAX_COUNT \<le> unat i")
    case True
    with o show ?thesis by (auto simp: unroll paste_from_clipboard_def)
  next
    case open_ok: False
    then show ?thesis
      by (auto simp: unroll paste_from_clipboard_def o Let_def rbind_def
          split: sum.splits prod.splits)
  qed
qed

end
