(* ===== verification/Driver_Theorems.thy ===== *)
theory Driver_Theorems
  imports Device_Port
begin

text \<open>
  What the driver does, request by request: the properties of \<open>clipboard_read\<close> and
  \<open>clipboard_write\<close> on well-formed and on reachable states, those of their requests and
  messages, and sample states on which the properties are exercised.
\<close>

section \<open>Sample states\<close>

definition sample_heap :: heap where
  "sample_heap = \<lparr>blocks = Map.empty, brk = 1, avail = BUF_MAX_COUNT * ENTRY_LEN_LIMIT, stale = (\<lambda>p. 0)\<rparr>"

text \<open>The text \<open>a3b\<close> (which expands to \<open>aaab\<close>) of process 7.\<close>

definition sample_set :: clipboard_set_msg where
  "sample_set = \<lparr>s_pid = 7, s_buffer_len = 3, s_decompressed_len = 4,
     s_buffer = [97, 51, 98] @ replicate 1021 0\<rparr>"

definition sample_driver :: driver where
  "sample_driver = fresh_driver 4000 sample_heap"

lemma sample_heap: "fresh_heap sample_heap"
  by (simp add: fresh_heap_def sample_heap_def wf_heap_def)

lemma sample_driver: "wf_driver sample_driver" "board_of sample_driver = Map.empty"
  "occupied sample_driver \<noteq> {..<BUF_MAX_COUNT}"
proof -
  show "wf_driver sample_driver" and b: "board_of sample_driver = Map.empty"
    using fresh_wf [OF sample_heap] by (simp_all add: sample_driver_def)
  have "0 \<notin> occupied sample_driver"
    unfolding board_of_None [symmetric] b by simp
  moreover have "0 \<in> {..<BUF_MAX_COUNT}" by (simp add: BUF_MAX_COUNT_def)
  ultimately show "occupied sample_driver \<noteq> {..<BUF_MAX_COUNT}" by blast
qed

lemma sample_sane: "sane_set sample_set" "length (s_buffer sample_set) = ENTRY_LEN_LIMIT"
  by (simp_all add: sane_set_def sample_set_def ENTRY_LEN_LIMIT_def)

lemma sample_item: "new_item sample_set =
    \<lparr>contents = [97, 51, 98], plain_len = 4, owner = 7, holder = None\<rparr>"
  by (simp add: new_item_def sample_set_def)

text \<open>A reachable state that holds the sample text, and one in which process 9 has locked it.\<close>

lemma sample_stored:
  obtains i d where "i < BUF_MAX_COUNT" "wf_driver d" "board_of d = [i \<mapsto> new_item sample_set]"
    "do_clipboard_set sample_set sample_driver = Inr (int i, d)"
  using set_refines [OF sample_driver(1) sample_sane(1) sample_driver(3)] that
  unfolding sample_driver(2) by blast

lemma sample_locked:
  obtains i d where "i < BUF_MAX_COUNT" "wf_driver d"
    "board_of d = [i \<mapsto> (new_item sample_set)\<lparr>holder := Some 9\<rparr>]"
proof -
  obtain i d where d: "i < BUF_MAX_COUNT" "wf_driver d" "board_of d = [i \<mapsto> new_item sample_set]"
    using sample_stored by blast
  have drop: "drop_locks 9 (board_of d) = board_of d"
    by (simp add: drop_locks_def d(3) sample_item fun_eq_iff)
  have "lockable 4 (board_of d i)"
    by (simp add: lockable_def d(3) sample_item)
  then obtain t where "wf_driver t" "board_of t = set_holder 9 i (board_of d)"
    using device.lock_law [OF d(2,1), of undefined 9 4] unfolding drop Let_def by auto
  with d that show thesis by (simp add: set_holder_def)
qed

section \<open>Storing, locking, taking\<close>

text \<open>C1: A set request of at most 1024 bytes is answered with -1 and changes nothing when all
  entries are taken; otherwise it stores exactly the announced bytes with their length and owner,
  unlocked, in an entry that was empty, returns this entry's identifier, leaves every other entry
  as it is and keeps the invariant of the driver.\<close>

theorem write_set_correct:
  assumes "wf_driver d" and "sane_set m" and "copyfrom e g SET_SIZE = Inr (set_bytes m)"
  shows "if full_board (board_of d)
    then clipboard_write copyfrom junk e g (of_nat SET_SIZE) d = Inr (- 1, d)
    else (\<exists>i d'. i < BUF_MAX_COUNT \<and> board_of d i = None
      \<and> clipboard_write copyfrom junk e g (of_nat SET_SIZE) d = Inr (int i, d')
      \<and> wf_driver d' \<and> board_of d' = (board_of d)(i \<mapsto> new_item m))"
proof -
  have "length (s_buffer m) = ENTRY_LEN_LIMIT" using assms(2) by (simp add: sane_set_def)
  from write_set_request [of copyfrom, OF assms(3) this] show ?thesis
    using set_when_full [OF assms(1)] set_refines [OF assms(1,2)]
    by (simp add: full_board_of board_of_None) blast
qed

theorem write_set_correct_witness:
  "\<exists>i d'. i < BUF_MAX_COUNT \<and> clipboard_write (\<lambda>e g n. Inr (set_bytes sample_set)) [] 0 0 (of_nat SET_SIZE)
      sample_driver = Inr (int i, d')
    \<and> board_of d' = [i \<mapsto> \<lparr>contents = [97, 51, 98], plain_len = 4, owner = 7, holder = None\<rparr>]"
proof -
  have "\<not> full_board (board_of sample_driver)"
    using sample_driver(3) by (simp only: full_board_of not_False_eq_True)
  with write_set_correct [OF sample_driver(1) sample_sane(1), of "\<lambda>e g n. Inr (set_bytes sample_set)" 0 0 "[]"]
  show ?thesis unfolding sample_driver(2) sample_item by (simp only: if_False) blast
qed

text \<open>C2: A lock request for an entry first gives up the lock the process holds; it then succeeds,
  and makes the process the holder, exactly when the entry is stored, unlocked and no longer than
  the process's buffer once expanded; otherwise it is answered with -1.  Nothing else changes.\<close>

theorem write_lock_correct:
  assumes "wf_driver d" and "unat (l_id m) < BUF_MAX_COUNT"
    and "copyfrom e g LOCK_SIZE = Inr (lock_bytes m)"
  shows "\<exists>d'. clipboard_write copyfrom junk e g (of_nat LOCK_SIZE) d =
      Inr (if lockable (l_buffer_len m) (drop_locks (l_pid m) (board_of d) (unat (l_id m))) then OK else - 1, d')
    \<and> wf_driver d'
    \<and> board_of d' = (let b = drop_locks (l_pid m) (board_of d)
        in if lockable (l_buffer_len m) (b (unat (l_id m))) then set_holder (l_pid m) (unat (l_id m)) b else b)"
proof -
  have "sint (l_id m) = int (unat (l_id m))"
    using assms(2) by (intro sint_eq_unat) (simp add: BUF_MAX_COUNT_def)
  from lock_refines [OF assms(1) this assms(2)] show ?thesis
    unfolding write_lock_request [of copyfrom, OF assms(3)] by blast
qed

theorem write_lock_correct_witness:
  "\<exists>i d d'. board_of d = [i \<mapsto> new_item sample_set]
    \<and> clipboard_write (\<lambda>e g n. Inr (lock_bytes (lock_msg 9 i 4))) [] 0 0 (of_nat LOCK_SIZE) d = Inr (OK, d')
    \<and> board_of d' = [i \<mapsto> (new_item sample_set)\<lparr>holder := Some 9\<rparr>]"
proof -
  obtain i d where d: "i < BUF_MAX_COUNT" "wf_driver d" "board_of d = [i \<mapsto> new_item sample_set]"
    using sample_stored by blast
  have drop: "drop_locks 9 (board_of d) = board_of d" and ok: "lockable 4 (board_of d i)"
    by (simp_all add: drop_locks_def lockable_def d(3) sample_item fun_eq_iff)
  have id: "unat (l_id (lock_msg 9 i 4)) = i" "l_pid (lock_msg 9 i 4) = 9"
    "l_buffer_len (lock_msg 9 i 4) = 4"
    using d(1) by (simp_all add: lock_msg_def)
  with write_lock_correct [OF d(2), of "lock_msg 9 i 4" "\<lambda>e g n. Inr (lock_bytes (lock_msg 9 i 4))" 0 0 "[]"]
  obtain d' where "clipboard_write (\<lambda>e g n. Inr (lock_bytes (lock_msg 9 i 4))) [] 0 0 (of_nat LOCK_SIZE) d
      = Inr (OK, d')" "board_of d' = set_holder 9 i (board_of d)"
    using ok d(1) id by (auto simp: drop Let_def)
  with d(3) show ?thesis
    by (intro exI [of _ i] exI [of _ d] exI [of _ d']) (simp add: set_holder_def)
qed

text \<open>C3: A process that holds a lock and sends its identifier gets the stored bytes and both
  lengths of the entry it locked; the entry is then empty, every other entry is as before, and
  the memory of the text is free again.\<close>

theorem read_take_correct:
  assumes "wf_driver d" and "0 \<le> sint pid" and "held_by pid (board_of d) i"
    and "length junk = GET_SIZE" and "\<forall>bs. ct e g bs = OK"
  shows "\<exists>it d'. board_of d i = Some it
    \<and> clipboard_read ct junk e g (ENCODE_PID pid) d =
        Inr (OK, Some (get_bytes (get_reply it (g_buffer (get_of junk)))), d')
    \<and> take (unat (g_buffer_len (get_reply it (g_buffer (get_of junk)))))
        (g_buffer (get_reply it (g_buffer (get_of junk)))) = contents it
    \<and> wf_driver d' \<and> board_of d' = (board_of d)(i := None) \<and> capacity d' = capacity d"
proof -
  obtain it d' where g: "board_of d i = Some it" "length (contents it) \<le> ENTRY_LEN_LIMIT"
      "do_clipboard_get (get_of junk) pid d = Inr (OK, get_reply it (g_buffer (get_of junk)), d')"
      "wf_driver d'" "board_of d' = (board_of d)(i := None)" "capacity d' = capacity d"
    using get_refines [OF assms(1) length_get_of [OF assms(4)] assms(3)] by blast
  have "unat (of_nat (length (contents it)) :: u32) = length (contents it)"
    using g(2) by (simp add: unat_of_nat take_bit_nat_eq_self ENTRY_LEN_LIMIT_def)
  then have "take (unat (g_buffer_len (get_reply it (g_buffer (get_of junk)))))
      (g_buffer (get_reply it (g_buffer (get_of junk)))) = contents it"
    by (simp add: get_reply_def)
  with g assms(5) show ?thesis
    by (simp add: read_take_request [OF assms(2)])
qed

theorem read_take_correct_witness:
  "\<exists>i d d' bs. board_of d = [i \<mapsto> (new_item sample_set)\<lparr>holder := Some 9\<rparr>]
    \<and> clipboard_read (\<lambda>e g bs. OK) (replicate GET_SIZE 0) 0 0 (ENCODE_PID 9) d = Inr (OK, Some bs, d')
    \<and> board_of d' = Map.empty"
proof -
  obtain i d where d: "i < BUF_MAX_COUNT" "wf_driver d"
    "board_of d = [i \<mapsto> (new_item sample_set)\<lparr>holder := Some 9\<rparr>]"
    using sample_locked by blast
  then have "held_by 9 (board_of d) i" by (simp add: held_by_def)
  with read_take_correct [OF d(2), of 9 i "replicate GET_SIZE 0" "\<lambda>e g bs. OK" 0 0]
  obtain bs d' where "clipboard_read (\<lambda>e g bs. OK) (replicate GET_SIZE 0) 0 0 (ENCODE_PID 9) d = Inr (OK, Some bs, d')"
    "board_of d' = (board_of d)(i := None)"
    by auto
  with d(3) show ?thesis
    by (intro exI [of _ i] exI [of _ d] exI [of _ d'] exI [of _ bs]) simp
qed

section \<open>Reachable states\<close>

text \<open>C5: In every state the driver reaches from a fresh start by serving reads of any kind and
  writes of well-behaved clients, the free-index stack holds exactly the empty entries, every text
  owns its own heap block of its length and no block is leaked, no process holds two locks, and free memory
  plus the memory of the stored texts is what the driver started with.\<close>

theorem reachable_invariant:
  assumes "reachable cf ct a h d" and "fresh_heap h"
  shows "wf_driver d \<and> capacity d = avail h"
  by (rule reachable_inv [OF assms])

theorem reachable_invariant_witness:
  "\<exists>i d. board_of d = [i \<mapsto> new_item sample_set] \<and> wf_driver d
    \<and> capacity d = BUF_MAX_COUNT * ENTRY_LEN_LIMIT"
proof -
  let ?cf = "\<lambda>e g n. Inr (set_bytes sample_set)"
  obtain i d where d: "board_of d = [i \<mapsto> new_item sample_set]"
      "do_clipboard_set sample_set sample_driver = Inr (int i, d)"
    using sample_stored by blast
  have "sane_write ?cf 0 0 (of_nat SET_SIZE)"
    using sample_sane set_of_bytes [OF sample_sane(2), of "[]"]
    by (simp add: sane_write_def size_values length_set_bytes sane_set_def)
  moreover have "clipboard_write ?cf (replicate SET_SIZE 0) 0 0 (of_nat SET_SIZE) sample_driver = Inr (int i, d)"
    using write_set_request [of ?cf 0 0 sample_set] sample_sane(2) d(2) by simp
  ultimately have "serves ?cf (\<lambda>e g bs. OK) sample_driver d"
    by (intro serve_write [where junk = "replicate SET_SIZE 0"]) simp_all
  then have "reachable ?cf (\<lambda>e g bs. OK) 4000 sample_heap d"
    unfolding sample_driver_def by (intro serve [OF boot])
  from reachable_invariant [OF this sample_heap] d(1) show ?thesis
    by (auto simp: sample_heap_def)
qed

text \<open>C16: In every reachable state the driver survives every read request, with any size argument
  and any outcome of the copy to the caller, and every write request of a well-behaved client: no assertion
  fails, no index leaves an array, no pointer is invalid.\<close>

theorem reachable_no_fault:
  assumes "reachable cf ct a h d" and "fresh_heap h"
    and "length rjunk = GET_SIZE" and "length wjunk = SET_SIZE" and "sane_write cf' e g wsz"
  shows "no_fault (clipboard_read ct' rjunk e g rsz d) \<and> no_fault (clipboard_write cf' wjunk e g wsz d)"
proof -
  have wf: "wf_driver d" using reachable_inv [OF assms(1,2)] by simp
  show ?thesis
    using read_keeps [OF wf assms(3), of ct' e g rsz] write_keeps [OF wf assms(4,5)]
    by (metis no_fault_simps(1))
qed

theorem reachable_no_fault_witness:
  "no_fault (clipboard_read (\<lambda>e g bs. OK) (replicate GET_SIZE 0) 0 0 5 sample_driver)
   \<and> no_fault (clipboard_write (\<lambda>e g n. Inr (lock_bytes (lock_msg 9 3 4))) (replicate SET_SIZE 0) 0 0
       (of_nat LOCK_SIZE) sample_driver)"
proof -
  have "unat (l_id (lock_msg 9 3 4)) = 3"
    unfolding lock_msg_def by simp
  then have sane: "sane_write (\<lambda>e g n. Inr (lock_bytes (lock_msg 9 3 4))) 0 0 (of_nat LOCK_SIZE)"
    using lock_of_bytes [of "lock_msg 9 3 4" "[]"]
    by (simp add: sane_write_def size_values BUF_MAX_COUNT_def)
  show ?thesis
    using reachable_no_fault [OF boot sample_heap _ _ sane, where a = 4000
        and rjunk = "replicate GET_SIZE 0" and wjunk = "replicate SET_SIZE 0"]
    by (simp add: sample_driver_def)
qed

text \<open>C25: In every reachable state the texts take at most 100 times 1024 bytes, and exactly these
  bytes are missing from the free memory: deleting an entry gives all of its memory back.\<close>

theorem reachable_memory_bound:
  assumes "reachable cf ct a h d" and "fresh_heap h"
  shows "(\<Sum>i\<in>occupied d. length (contents (item_of d (ent d i)))) \<le> BUF_MAX_COUNT * ENTRY_LEN_LIMIT
    \<and> avail (mem d) + (\<Sum>i\<in>occupied d. length (contents (item_of d (ent d i)))) = avail h"
proof -
  have wf: "wf_driver d" and cap: "capacity d = avail h"
    using reachable_inv [OF assms] by simp_all
  have len: "length (contents (item_of d (ent d i))) = unat (buffer_len (ent d i))"
    and le: "length (contents (item_of d (ent d i))) \<le> ENTRY_LEN_LIMIT" if "i \<in> occupied d" for i
    using wf_holds_text [OF wf that] by (auto simp: holds_text_iff item_of_def)
  have "card (occupied d) \<le> BUF_MAX_COUNT"
    using card_mono [of "{..<BUF_MAX_COUNT}" "occupied d"] occupied_less by fastforce
  moreover have "(\<Sum>i\<in>occupied d. length (contents (item_of d (ent d i)))) \<le> card (occupied d) * ENTRY_LEN_LIMIT"
    using sum_bounded_above [of "occupied d" _ ENTRY_LEN_LIMIT] le by fastforce
  moreover have "(\<Sum>i\<in>occupied d. length (contents (item_of d (ent d i)))) =
      (\<Sum>i\<in>occupied d. unat (buffer_len (ent d i)))"
    by (rule sum.cong) (simp_all add: len)
  ultimately show ?thesis
    using cap mult_le_mono1 [of "card (occupied d)" BUF_MAX_COUNT ENTRY_LEN_LIMIT]
    unfolding capacity_def by (simp only: order_trans mult_le_mono1 simp_thms)
qed

theorem reachable_memory_bound_witness:
  "avail (mem sample_driver) + (\<Sum>i\<in>occupied sample_driver. length (contents (item_of sample_driver (ent sample_driver i))))
    = BUF_MAX_COUNT * ENTRY_LEN_LIMIT"
  using reachable_memory_bound [OF boot sample_heap, where a = 4000]
  by (simp add: sample_driver_def) (simp add: sample_heap_def)

section \<open>Requests that fail\<close>

text \<open>C30: If copying the reply to the caller fails, the caller gets the error code and no bytes, but
  the text it had locked is gone: the entry was emptied before the copy.\<close>

theorem read_copy_failure_loses_text:
  assumes "wf_driver d" and "0 \<le> sint pid" and "held_by pid (board_of d) i"
    and "length junk = GET_SIZE" and "\<forall>bs. ct e g bs = err" and "err \<noteq> OK"
  shows "\<exists>d'. clipboard_read ct junk e g (ENCODE_PID pid) d = Inr (err, None, d')
    \<and> board_of d' = (board_of d)(i := None)"
  using get_refines [OF assms(1) length_get_of [OF assms(4)] assms(3)] assms(5,6)
  by (auto simp: read_take_request [OF assms(2)])

theorem read_copy_failure_loses_text_witness:
  "\<exists>i d d'. board_of d = [i \<mapsto> (new_item sample_set)\<lparr>holder := Some 9\<rparr>]
    \<and> clipboard_read (\<lambda>e g bs. - 14) (replicate GET_SIZE 0) 0 0 (ENCODE_PID 9) d = Inr (- 14, None, d')
    \<and> board_of d' = Map.empty"
proof -
  obtain i d where d: "i < BUF_MAX_COUNT" "wf_driver d"
    "board_of d = [i \<mapsto> (new_item sample_set)\<lparr>holder := Some 9\<rparr>]"
    using sample_locked by blast
  then have "held_by 9 (board_of d) i" by (simp add: held_by_def)
  with read_copy_failure_loses_text [OF d(2), of 9 i "replicate GET_SIZE 0" "\<lambda>e g bs. - 14" 0 0 "- 14"]
  obtain d' where "clipboard_read (\<lambda>e g bs. - 14) (replicate GET_SIZE 0) 0 0 (ENCODE_PID 9) d = Inr (- 14, None, d')"
    "board_of d' = (board_of d)(i := None)"
    by (auto simp: OK_def)
  with d(3) show ?thesis
    by (intro exI [of _ i] exI [of _ d] exI [of _ d']) simp
qed

text \<open>A process that holds no lock and asks for a text is answered with 1, which a caller that tests
  for negative results takes for success, and gets no bytes; nothing changes.\<close>

theorem read_without_lock_returns_one:
  assumes "0 \<le> sint pid" and "\<nexists>i. held_by pid (board_of d) i"
  shows "clipboard_read ct junk e g (ENCODE_PID pid) d = Inr (1, None, d)"
  using get_without_lock [of pid d "get_of junk"] assms
  by (simp add: read_take_request OK_def)

theorem read_without_lock_returns_one_witness:
  "clipboard_read (\<lambda>e g bs. OK) [] 0 0 (ENCODE_PID 9) sample_driver = Inr (1, None, sample_driver)"
  by (rule read_without_lock_returns_one) (simp_all add: sample_driver(2) held_by_def)

text \<open>A read whose size is an identifier below 100 returns the process that stored the entry of
  this number, or the last such process if it is empty; a size from 100 to 1031 is answered with -1; neither
  changes anything.\<close>

theorem read_owner_query_correct:
  assumes "wf_driver d" and "unat sz < GET_SIZE"
  shows "clipboard_read ct junk e g sz d =
    (if unat sz < BUF_MAX_COUNT then Inr (sint (source_pid (ent d (unat sz))), None, d)
     else Inr (- 1, None, d))"
proof (cases "unat sz < BUF_MAX_COUNT")
  case True
  have "ENCODE_ID (of_nat (unat sz)) = sz" by (simp add: ENCODE_ID_def)
  with read_owner_query [OF True] assms(1) True show ?thesis
    by (metis wf_driver_def)
next
  case False
  with assms(2) show ?thesis by (simp add: read_wrong_id)
qed

theorem read_owner_query_correct_witness:
  "clipboard_read (\<lambda>e g bs. OK) [] 0 0 100 sample_driver = Inr (- 1, None, sample_driver)"
  using read_owner_query_correct [OF sample_driver(1), of 100]
  by (simp add: size_values BUF_MAX_COUNT_def)

text \<open>A write whose size is neither that of a lock nor that of a set message is answered with -1, and
  a write whose bytes cannot be copied with the error code of the copy; neither changes anything.\<close>

theorem write_rejects:
  assumes "unat sz \<notin> {LOCK_SIZE, SET_SIZE} \<or> cf e g (unat sz) = Inl err"
  shows "clipboard_write cf junk e g sz d =
    Inr (if unat sz \<in> {LOCK_SIZE, SET_SIZE} then err else - 1, d)"
  using assms write_other_size [of sz cf junk e g d] write_copy_error [of sz cf e g err junk d] by auto

theorem write_rejects_witness:
  "clipboard_write (\<lambda>e g n. Inl (- 14)) [] 0 0 13 sample_driver = Inr (- 1, sample_driver)
   \<and> clipboard_write (\<lambda>e g n. Inl (- 14)) [] 0 0 12 sample_driver = Inr (- 14, sample_driver)"
  using write_rejects [of 13 "\<lambda>e g n. Inl (- 14)" 0 0 "- 14" "[]" sample_driver]
    write_rejects [of 12 "\<lambda>e g n. Inl (- 14)" 0 0 "- 14" "[]" sample_driver]
  by (simp add: size_values)

section \<open>Requests the driver trusts\<close>

text \<open>C31: The driver believes the length in a set message: on a well-formed state a set request leaves
  defined behaviour exactly when an entry is free and the announced length exceeds the 1024 bytes of the message,
  and then reads behind the message.\<close>

theorem write_set_faults_iff:
  assumes "wf_driver d" and "length (s_buffer m) = ENTRY_LEN_LIMIT"
    and "copyfrom e g SET_SIZE = Inr (set_bytes m)"
  shows "\<not> no_fault (clipboard_write copyfrom junk e g (of_nat SET_SIZE) d) \<longleftrightarrow>
    \<not> full_board (board_of d) \<and> ENTRY_LEN_LIMIT < unat (s_buffer_len m)"
  using set_faults_iff [OF assms(1,2)] write_set_request [of copyfrom, OF assms(3,2)]
  by (simp add: full_board_of)

theorem write_set_faults_iff_witness:
  "\<not> no_fault (clipboard_write (\<lambda>e g n. Inr (set_bytes (sample_set\<lparr>s_buffer_len := 2000\<rparr>))) [] 0 0
      (of_nat SET_SIZE) sample_driver)"
proof -
  let ?m = "sample_set\<lparr>s_buffer_len := 2000\<rparr>"
  have "length (s_buffer ?m) = ENTRY_LEN_LIMIT" using sample_sane(2) by simp
  from write_set_faults_iff [OF sample_driver(1) this, of "\<lambda>e g n. Inr (set_bytes ?m)" 0 0 "[]"]
  show ?thesis
    using sample_driver(3) unfolding full_board_of by (simp add: ENTRY_LEN_LIMIT_def)
qed

text \<open>C32: The driver believes the identifier in a lock message: a lock request leaves defined behaviour
  exactly when the identifier, an unsigned number, is 100 or more.\<close>

theorem write_lock_faults_iff:
  assumes "wf_driver d" and "copyfrom e g LOCK_SIZE = Inr (lock_bytes m)"
  shows "\<not> no_fault (clipboard_write copyfrom junk e g (of_nat LOCK_SIZE) d) \<longleftrightarrow> BUF_MAX_COUNT \<le> unat (l_id m)"
  unfolding write_lock_request [of copyfrom, OF assms(2)] by (rule lock_faults_iff [OF assms(1)])

theorem write_lock_faults_iff_witness:
  "\<not> no_fault (clipboard_write (\<lambda>e g n. Inr (lock_bytes \<lparr>l_pid = 9, l_id = 100, l_buffer_len = 4\<rparr>)) [] 0 0
      (of_nat LOCK_SIZE) sample_driver)"
  using write_lock_faults_iff [OF sample_driver(1), of
      "\<lambda>e g n. Inr (lock_bytes \<lparr>l_pid = 9, l_id = 100, l_buffer_len = 4\<rparr>)" 0 0
      "\<lparr>l_pid = 9, l_id = 100, l_buffer_len = 4\<rparr>" "[]"]
  by (simp add: BUF_MAX_COUNT_def)

section \<open>Requests and messages\<close>

text \<open>A process identifier survives its encoding in the size argument of a read, and the driver takes the
  encoded identifier for the number of an entry exactly when the addition wraps around, which no non-negative
  identifier does; an encoded identifier of an entry is always taken for one.\<close>

theorem request_encoding:
  "DECODE_PID (ENCODE_PID pid) = pid
   \<and> (IS_PID_QUERY (ENCODE_PID pid) \<longleftrightarrow> 2 ^ 32 - GET_SIZE \<le> unat pid)
   \<and> (IS_PID_QUERY (ENCODE_PID pid) \<longleftrightarrow> - int GET_SIZE \<le> sint pid \<and> sint pid < 0)
   \<and> DECODE_ID (ENCODE_ID i) = i
   \<and> (IS_CORRECT_ID (ENCODE_ID i) \<longleftrightarrow> unat i < BUF_MAX_COUNT)"
proof -
  have iff: "IS_PID_QUERY (ENCODE_PID pid) \<longleftrightarrow> 2 ^ 32 - GET_SIZE \<le> unat pid"
    using encode_pid_no_query [of pid] encode_pid_wraps [of pid] by linarith
  moreover have "2 ^ 32 - GET_SIZE \<le> unat pid \<longleftrightarrow> - int GET_SIZE \<le> sint pid \<and> sint pid < 0"
    by (rule negative_pid_iff)
  ultimately show ?thesis
    by (simp add: decode_encode_pid DECODE_ID_def ENCODE_ID_def IS_CORRECT_ID_def)
qed

text \<open>The three messages survive their way through memory: the bytes of a message, whatever follows
  them, are read back as the message, and a lock message is never as long as a set message.\<close>

theorem message_round_trip:
  assumes "length (g_buffer mg) = ENTRY_LEN_LIMIT" and "length (s_buffer ms) = ENTRY_LEN_LIMIT"
  shows "lock_of (lock_bytes ml @ rest) = ml \<and> get_of (get_bytes mg @ rest) = mg
    \<and> set_of (set_bytes ms @ rest) = ms
    \<and> length (lock_bytes ml) = LOCK_SIZE \<and> length (get_bytes mg) = GET_SIZE
    \<and> length (set_bytes ms) = SET_SIZE \<and> LOCK_SIZE \<noteq> SET_SIZE"
  using lock_of_bytes get_of_bytes [OF assms(1)] set_of_bytes [OF assms(2)]
    length_get_bytes [OF assms(1)] length_set_bytes [OF assms(2)]
  by (simp add: LOCK_SIZE_def SET_SIZE_def ENTRY_LEN_LIMIT_def)

theorem message_round_trip_witness:
  "get_of (get_bytes \<lparr>g_buffer_len = 3, g_decompressed_len = 4, g_buffer = replicate 1024 7\<rparr> @ [1, 2])
     = \<lparr>g_buffer_len = 3, g_decompressed_len = 4, g_buffer = replicate 1024 7\<rparr>
   \<and> set_of (set_bytes sample_set @ [1, 2]) = sample_set"
  using message_round_trip [of "\<lparr>g_buffer_len = 3, g_decompressed_len = 4, g_buffer = replicate 1024 7\<rparr>" sample_set]
    sample_sane(2)
  by (simp add: ENTRY_LEN_LIMIT_def)

end
