(* ===== verification/Client_Theorems.thy ===== *)
theory Client_Theorems
  imports Client Driver_Theorems
begin

text \<open>
  The library functions together with the driver: what \<open>copy_to_clipboard\<close> and
  \<open>paste_from_clipboard\<close> do when the device is the driver of theory \<open>Device_IO\<close>.
\<close>

section \<open>Processes connected to the driver\<close>

definition driver_sys ::
  "byte list \<Rightarrow> byte list \<Rightarrow> u32 \<Rightarrow> (u32 \<Rightarrow> u32 \<Rightarrow> byte) \<Rightarrow> nat \<Rightarrow> driver world sys" where
  "driver_sys rjunk wjunk = local_sys (port_read rjunk) (port_write wjunk)"

lemmas driver_copy = device.copy_stores [folded driver_sys_def]
lemmas driver_paste = device.paste_takes [folded driver_sys_def]
lemmas driver_paste_denied = device.paste_denied [folded driver_sys_def]
lemmas driver_paste_refused = device.paste_refused [folded driver_sys_def]

definition sample_world :: "driver world" where
  "sample_world = \<lparr>dev = sample_driver, open_files = 3\<rparr>"

lemma sample_world [simp]: "wf_driver (dev sample_world)" "open_files sample_world < 20"
  "\<not> full_board (board_of (dev sample_world))"
  unfolding full_board_of sample_world_def using sample_driver by simp_all

lemma sample_size: "expected_decompressed_size [97, 51, 98] 3 = Inr 4"
  by (simp add: expected_decompressed_size_def size_loop.simps isdigit_def digit_char_def
      include_char_def aget_def in_range_def)

section \<open>Copying and pasting\<close>

text \<open>C7: A text of at most 1024 bytes that one process copies and a process that may read it pastes by the
  identifier the copy returned, with a buffer that holds the text and an announced length at least its expanded
  length, arrives byte for byte, and leaves the device as it was, but for the lock the pasting process held.\<close>

theorem copy_then_paste:
  assumes "wf_driver (dev w)" and "open_files w < limit" and "f < limit'"
    and "\<not> full_board (board_of (dev w))"
    and "unat n \<le> ENTRY_LEN_LIMIT" and "unat n \<le> length bytes" and "length junk = ENTRY_LEN_LIMIT"
    and "expected_decompressed_size bytes n = Inr k"
    and "0 \<le> sint p" and "0 \<le> sint q" and "anc' p q \<noteq> 0"
    and "\<not> len < k" and "unat n \<le> length buf"
  shows "\<exists>i w1 w2.
    copy_to_clipboard (driver_sys rj wj p anc limit) junk bytes n w = Inr (of_nat i, w1)
    \<and> paste_from_clipboard (driver_sys rj' wj' q anc' limit') (of_nat i) buf len (w1\<lparr>open_files := f\<rparr>)
        = Inr (0, overwrite 0 (take (unat n) bytes) buf, w2)
    \<and> wf_driver (dev w2) \<and> board_of (dev w2) = drop_locks q (board_of (dev w))
    \<and> open_files w1 = open_files w \<and> open_files w2 = f"
proof -
  let ?it = "\<lparr>contents = take (unat n) bytes, plain_len = k, owner = p, holder = None\<rparr>"
  from driver_copy [OF assms(1,2,5,6,7,8), where rjunk = rj and wjunk = wj and pid = p and anc = anc] assms(4)
  obtain i s where s: "board_of (dev w) i = None"
      "copy_to_clipboard (driver_sys rj wj p anc limit) junk bytes n w = Inr (of_nat i, w\<lparr>dev := s\<rparr>)"
      "wf_driver s" "board_of s = (board_of (dev w))(i \<mapsto> ?it)"
    by auto
  let ?w = "w\<lparr>dev := s, open_files := f\<rparr>"
  have w: "wf_driver (dev ?w)" "open_files ?w < limit'" "board_of (dev ?w) i = Some ?it"
    "holder ?it = None" "0 \<le> sint (owner ?it)" "anc' (owner ?it) q \<noteq> 0" "\<not> len < plain_len ?it"
    using s assms(3,9,11,12) by simp_all
  have fits: "\<not> length buf < length (contents ?it)" using assms(13) by simp
  from driver_paste [where anc = anc' and pid = q, OF w(1,2) assms(10) w(3-7), where rjunk = rj' and wjunk = wj' and buf = buf] fits
  obtain t where t: "paste_from_clipboard (driver_sys rj' wj' q anc' limit') (of_nat i) buf len ?w =
      Inr (0, overwrite 0 (take (unat n) bytes) buf, ?w\<lparr>dev := t\<rparr>)"
      "wf_driver t" "board_of t = (drop_locks q (board_of s))(i := None)"
    by auto
  have "board_of t = drop_locks q (board_of (dev w))"
    using s(1) by (auto simp: t(3) s(4) drop_locks_def fun_eq_iff)
  with s t show ?thesis
    by (intro exI [of _ i] exI [of _ "w\<lparr>dev := s\<rparr>"] exI [of _ "?w\<lparr>dev := t\<rparr>"]) simp
qed

theorem copy_then_paste_witness:
  "\<exists>i w1 w2.
    copy_to_clipboard (driver_sys [] [] 7 (\<lambda>p q. 0) 20) (replicate 1024 0) [97, 51, 98] 3 sample_world
      = Inr (of_nat i, w1)
    \<and> paste_from_clipboard (driver_sys [] [] 9 (\<lambda>p q. 1) 20) (of_nat i) [0, 0, 0, 0] 4 (w1\<lparr>open_files := 3\<rparr>)
      = Inr (0, [97, 51, 98, 0], w2)"
  using copy_then_paste [of sample_world 20 3 20 3 "[97, 51, 98]" "replicate 1024 0" 4 7 9 "\<lambda>p q. 1" 4
      "[0, 0, 0, 0]" "[]" "[]" "\<lambda>p q. 0" "[]" "[]"]
  by (simp add: sample_size ENTRY_LEN_LIMIT_def overwrite_def) blast

text \<open>A process that is not allowed to read a text gets -1 and an unchanged buffer, and the device does not
  change; the descriptor it opened stays open.\<close>

theorem paste_needs_ancestor:
  assumes "wf_driver (dev w)" and "open_files w < limit"
    and "board_of (dev w) i = Some it" and "0 \<le> sint (owner it)" and "anc (owner it) q = 0"
  shows "paste_from_clipboard (driver_sys rj wj q anc limit) (of_nat i) buf len w =
    Inr (- 1, buf, w\<lparr>open_files := Suc (open_files w)\<rparr>)"
  by (rule driver_paste_denied [where anc = anc, OF assms])

theorem paste_needs_ancestor_witness:
  "\<exists>i d. board_of d = [i \<mapsto> new_item sample_set]
    \<and> paste_from_clipboard (driver_sys [] [] 9 (\<lambda>p q. 0) 20) (of_nat i) [0] 4 \<lparr>dev = d, open_files = 3\<rparr> =
        Inr (- 1, [0], \<lparr>dev = d, open_files = 4\<rparr>)"
proof -
  obtain i d where d: "wf_driver d" "board_of d = [i \<mapsto> new_item sample_set]"
    using sample_stored by blast
  with paste_needs_ancestor [of "\<lparr>dev = d, open_files = 3\<rparr>" 20 i "new_item sample_set" "\<lambda>p q. 0" 9 "[]" "[]" "[0]" 4]
  show ?thesis by (auto simp: sample_item)
qed

text \<open>C17: A text that is locked by another process, or longer when expanded than the length the caller announces,
  is not pasted: the caller gets -1 and an unchanged buffer, the text stays, and all the caller loses is the lock
  it held and a file descriptor.\<close>

theorem paste_needs_room_and_lock:
  assumes "wf_driver (dev w)" and "open_files w < limit"
    and "board_of (dev w) i = Some it" and "0 \<le> sint (owner it)" and "anc (owner it) q \<noteq> 0"
    and "(\<exists>h. holder it = Some h \<and> h \<noteq> q) \<or> len < plain_len it"
  shows "\<exists>s. paste_from_clipboard (driver_sys rj wj q anc limit) (of_nat i) buf len w =
      Inr (- 1, buf, w\<lparr>dev := s, open_files := Suc (open_files w)\<rparr>)
    \<and> wf_driver s \<and> board_of s = drop_locks q (board_of (dev w))"
proof -
  have "\<not> lockable len (drop_locks q (board_of (dev w)) i)"
    using assms(3,6) by (auto simp: lockable_def drop_locks_def)
  from driver_paste_refused [where anc = anc, OF assms(1-5) this] show ?thesis by simp
qed

theorem paste_needs_room_and_lock_witness:
  "\<exists>i d s. board_of d = [i \<mapsto> (new_item sample_set)\<lparr>holder := Some 9\<rparr>]
    \<and> paste_from_clipboard (driver_sys [] [] 11 (\<lambda>p q. 1) 20) (of_nat i) [0] 4 \<lparr>dev = d, open_files = 3\<rparr> =
        Inr (- 1, [0], \<lparr>dev = s, open_files = 4\<rparr>)
    \<and> board_of s = board_of d"
proof -
  let ?it = "(new_item sample_set)\<lparr>holder := Some 9\<rparr>"
  obtain i d where d: "wf_driver d" "board_of d = [i \<mapsto> ?it]"
    using sample_locked by blast
  have drop: "drop_locks 11 (board_of d) = board_of d"
    by (simp add: drop_locks_def d(2) fun_eq_iff)
  from paste_needs_room_and_lock [of "\<lparr>dev = d, open_files = 3\<rparr>" 20 i ?it "\<lambda>p q. 1" 11 4 "[]" "[]" "[0]"] d
  obtain s where "paste_from_clipboard (driver_sys [] [] 11 (\<lambda>p q. 1) 20) (of_nat i) [0] 4
      \<lparr>dev = d, open_files = 3\<rparr> = Inr (- 1, [0], \<lparr>dev = s, open_files = 4\<rparr>)"
    "board_of s = drop_locks 11 (board_of d)"
    by (auto simp: sample_item)
  with d(2) show ?thesis unfolding drop
    by (intro exI [of _ i] exI [of _ d] exI [of _ s]) simp
qed

text \<open>C37: A paste checks the announced length against the expanded length of the text only.  If the caller may read the
  text, nobody has locked it, and the expanded length is at most the announced length, so that the lock succeeds, but
  the text has more stored bytes than the caller's buffer holds, then the copy to the caller leaves the buffer.\<close>

theorem paste_overflows_buffer:
  assumes "wf_driver (dev w)" and "open_files w < limit" and "0 \<le> sint q"
    and "board_of (dev w) i = Some it" and "holder it = None" and "0 \<le> sint (owner it)"
    and "anc (owner it) q \<noteq> 0" and "\<not> len < plain_len it" and "length buf < length (contents it)"
  shows "paste_from_clipboard (driver_sys rj wj q anc limit) (of_nat i) buf len w = Inl Out_Of_Bounds"
  using driver_paste [where anc = anc and buf = buf and rjunk = rj and wjunk = wj, OF assms(1-8)] assms(9)
  by auto

text \<open>The text \<open>a01\<close>, of expanded length 1 and three bytes, in a one-byte buffer.\<close>

theorem paste_overflows_buffer_witness:
  "\<exists>i d. board_of d i = Some \<lparr>contents = [97, 48, 49], plain_len = 1, owner = 7, holder = None\<rparr>
    \<and> paste_from_clipboard (driver_sys [] [] 9 (\<lambda>p q. 1) 20) (of_nat i) [0] 1 \<lparr>dev = d, open_files = 3\<rparr>
      = Inl Out_Of_Bounds"
proof -
  have size: "expected_decompressed_size [97, 48, 49] 3 = Inr 1"
    by (simp add: expected_decompressed_size_def size_loop.simps isdigit_def digit_char_def
        include_char_def aget_def in_range_def)
  let ?it = "\<lparr>contents = [97, 48, 49], plain_len = 1, owner = 7, holder = None\<rparr>"
  obtain i d where "wf_driver d" "board_of d = (board_of (dev sample_world))(i \<mapsto> ?it)"
    using driver_copy [of sample_world 20 3 "[97, 48, 49]" "replicate 1024 0" 1 "[]" "[]" 7 "\<lambda>p q. 0"] size
    by (auto simp: ENTRY_LEN_LIMIT_def)
  then have d: "wf_driver d" "board_of d i = Some ?it" by simp_all
  with paste_overflows_buffer [of "\<lparr>dev = d, open_files = 3\<rparr>" 20 9 i ?it "\<lambda>p q. 1" 1 "[0]" "[]" "[]"]
  show ?thesis by (intro exI [of _ i] exI [of _ d]) simp
qed

text \<open>A copy of more than 1024 bytes is refused before any system call, and a copy to a full device is refused
  by the device; both return -1 and change nothing.\<close>

theorem copy_refuses:
  assumes "ENTRY_LEN_LIMIT < unat n \<or>
     wf_driver (dev w) \<and> open_files w < limit \<and> full_board (board_of (dev w)) \<and> unat n \<le> length bytes
     \<and> length junk = ENTRY_LEN_LIMIT \<and> expected_decompressed_size bytes n = Inr k"
  shows "copy_to_clipboard (driver_sys rj wj p anc limit) junk bytes n w = Inr (- 1, w)"
proof (cases "ENTRY_LEN_LIMIT < unat n")
  case True
  then show ?thesis by (simp add: copy_to_clipboard_def)
next
  case False
  with assms driver_copy [of w limit n bytes junk k rj wj p anc] show ?thesis by simp
qed

theorem copy_refuses_witness:
  "copy_to_clipboard (driver_sys [] [] 7 (\<lambda>p q. 0) 20) [] [97] 1025 sample_world = Inr (- 1, sample_world)"
  using copy_refuses [of 1025 sample_world 20 "[97]" "[]"] by (simp add: ENTRY_LEN_LIMIT_def)

end
