(* ===== verification/Interleaving.thy ===== *)
theory Interleaving
  imports Paste_Steps Client_Theorems
begin

text \<open>
  Processes that paste and copy in any order over the driver: the system of theory \<open>Paste_Steps\<close> refines
  one whose device is the abstract clipboard, the locks of the driver are exactly the processes between
  their lock and their take, what a process locked is what it takes, and what of the ancestor check survives
  the interleaving.
\<close>

section \<open>The system over the abstract clipboard\<close>

text \<open>One step of process \<open>q\<close>, as a change of the clipboard and of its own call.\<close>

inductive board_moves :: "(u32 \<Rightarrow> u32 \<Rightarrow> byte) \<Rightarrow> u32 \<Rightarrow> board \<times> proc \<Rightarrow> board \<times> proc \<Rightarrow> bool"
  for anc q where
  b_call: "pc p = Returned r \<Longrightarrow>
    board_moves anc q (b, p) (b, p\<lparr>pc := Opening, arg_id := i, arg_len := n, pbuf := x\<rparr>)"
| b_open: "pc p = Opening \<Longrightarrow> unat (arg_id p) < BUF_MAX_COUNT \<Longrightarrow>
    board_moves anc q (b, p) (b, p\<lparr>pc := Asking fd, files := f\<rparr>)"
| b_fail: "pc p = Opening \<or> pc p = Asking fd \<Longrightarrow>
    board_moves anc q (b, p) (b, p\<lparr>pc := Returned (- 1), files := f\<rparr>)"
| b_ask: "pc p = Asking fd \<Longrightarrow> 0 \<le> src \<Longrightarrow>
    (\<And>it. b (unat (arg_id p)) = Some it \<Longrightarrow> src = sint (owner it)) \<Longrightarrow>
    board_moves anc q (b, p) (b, p\<lparr>pc := Checking fd src\<rparr>)"
| b_check: "pc p = Checking fd src \<Longrightarrow>
    board_moves anc q (b, p)
      (b, p\<lparr>pc := (if anc (word_of_int src) q = 0 then Returned (- 1) else Locking fd)\<rparr>)"
| b_lock: "pc p = Locking fd \<Longrightarrow> b (unat (arg_id p)) = Some it \<Longrightarrow> holder it = None \<Longrightarrow>
    \<not> arg_len p < plain_len it \<Longrightarrow>
    board_moves anc q (b, p) (b(unat (arg_id p) \<mapsto> it\<lparr>holder := Some q\<rparr>), p\<lparr>pc := Taking fd\<rparr>)"
| b_refuse: "pc p = Locking fd \<Longrightarrow> \<not> lockable (arg_len p) (b (unat (arg_id p))) \<Longrightarrow>
    board_moves anc q (b, p) (b, p\<lparr>pc := Returned (- 1)\<rparr>)"
| b_take: "pc p = Taking fd \<Longrightarrow> b (unat (arg_id p)) = Some it \<Longrightarrow> holder it = Some q \<Longrightarrow>
    board_moves anc q (b, p) (b(unat (arg_id p) := None),
      p\<lparr>pc := Returned 0, pbuf := overwrite 0 (contents it) (pbuf p), files := files p - 1\<rparr>)"
| b_copy: "pc p = Returned r \<Longrightarrow> b j = None \<Longrightarrow> j < BUF_MAX_COUNT \<Longrightarrow> owner it = q \<Longrightarrow> holder it = None \<Longrightarrow>
    board_moves anc q (b, p) (b(j \<mapsto> it), p\<lparr>pc := Returned (of_nat j)\<rparr>)"
| b_no_copy: "pc p = Returned r \<Longrightarrow> board_moves anc q (b, p) (b, p\<lparr>pc := Returned (- 1)\<rparr>)"

inductive_cases board_movesE: "board_moves anc q (b, p) (b', p')"

text \<open>What holds of a process and the clipboard between its steps.\<close>

definition proc_ok :: "u32 \<Rightarrow> board \<Rightarrow> proc \<Rightarrow> bool" where
  "proc_ok q b p \<longleftrightarrow>
     (\<forall>i. held_by q b i \<longleftrightarrow> is_Taking (pc p) \<and> i = unat (arg_id p))
     \<and> (is_Opening (pc p) \<or> is_Returned (pc p) \<or> unat (arg_id p) < BUF_MAX_COUNT)"

lemma held_by_simps [simp]:
  "held_by q (b(i := None)) j \<longleftrightarrow> j \<noteq> i \<and> held_by q b j"
  "held_by q (b(i \<mapsto> it)) j \<longleftrightarrow> (if j = i then holder it = Some q else held_by q b j)"
  by (simp_all add: held_by_def)

lemma held_by_other:
  "b i = Some it \<Longrightarrow> holder it = Some h \<Longrightarrow> held_by q b i \<longleftrightarrow> q = h"
  by (auto simp: held_by_def)

lemma drop_no_locks:
  assumes "\<forall>i. \<not> held_by q b i"
  shows "drop_locks q b = b"
proof (rule ext)
  fix i
  show "drop_locks q b i = b i"
    using spec [OF assms, of i] by (cases "b i") (auto simp: drop_locks_def held_by_def)
qed

lemma board_moves_ok:
  assumes "board_moves anc q (b, p) (b', p')" and "proc_ok q b p"
  shows "proc_ok q b' p'"
  using assms by cases (auto simp: proc_ok_def held_by_def split: if_splits)

lemma board_moves_locks:
  assumes "board_moves anc q (b, p) (b', p')" and "r \<noteq> q"
  shows "held_by r b' i \<longleftrightarrow> held_by r b i"
  using assms by cases (auto simp: held_by_def)

text \<open>An item another process holds does not change.\<close>

lemma board_moves_frame:
  assumes "board_moves anc r (b, p) (b', p')" and "b i = Some it" and "holder it = Some q" and "q \<noteq> r"
  shows "b' i = Some it"
  using assms by cases auto

text \<open>As long as a place stays occupied, its text and its owner stay.\<close>

lemma board_moves_keep:
  assumes "board_moves anc r (b, p) (b', p')" and "b i = Some it" and "b' i \<noteq> None"
  obtains h where "b' i = Some (it\<lparr>holder := h\<rparr>)"
proof -
  have same: "it\<lparr>holder := holder it\<rparr> = it" by simp
  from assms that [of "holder it"] that [of "Some r"] show thesis
    by cases (auto split: if_splits)
qed

section \<open>The refinement\<close>

definition config_ok :: "('s \<Rightarrow> board) \<Rightarrow> ('s \<Rightarrow> bool) \<Rightarrow> 's config \<Rightarrow> bool" where
  "config_ok board good c \<longleftrightarrow>
     good (shared c) \<and> (\<forall>q. proc_ok q (board (shared c)) (procs c q))"

context clipboard_device begin

abbreviation (input) process :: "(u32 \<Rightarrow> u32 \<Rightarrow> byte) \<Rightarrow> nat \<Rightarrow> u32 \<Rightarrow> 's world sys" where
  "process anc limit q \<equiv> local_sys dev_read dev_write q anc limit"

lemma ask_refines:
  assumes "good (dev w)" and "unat (arg_id p) < BUF_MAX_COUNT" and "pc p = Asking fd"
    and "paste_step (process anc limit q) (arg_id p) n (Asking fd, pbuf p, w) = Inr (l, x, w')"
  shows "w' = w \<and> board_moves anc q (board (dev w), p) (board (dev w'), p\<lparr>pc := l, pbuf := x\<rparr>)"
proof -
  obtain v where v: "dev_read (ENCODE_ID (arg_id p)) (dev w) = Inr (v, None, dev w)"
    "\<forall>it. board (dev w) (unat (arg_id p)) = Some it \<longrightarrow> v = sint (owner it)"
    using owner_law [OF assms(1,2)] by auto
  have same: "p\<lparr>pc := l, pbuf := pbuf p\<rparr> = p\<lparr>pc := l\<rparr>" by simp
  from assms(4) v(1) have res: "w' = w" "x = pbuf p"
      "l = (if v < 0 then Returned (- 1) else Checking fd v)"
    by (auto simp: local_sys_def errno_ret_def split: if_splits)
  show ?thesis
  proof (cases "v < 0")
    case True
    have "p\<lparr>pc := Returned (- 1), files := files p\<rparr> = p\<lparr>pc := Returned (- 1)\<rparr>" by simp
    with True res assms(3) b_fail [of p fd anc q "board (dev w)" "files p"] show ?thesis
      by (simp add: same)
  next
    case False
    with res assms(3) v(2) show ?thesis by (simp add: same b_ask)
  qed
qed

lemma lock_step:
  assumes "good (dev w)" and "proc_ok q (board (dev w)) p" and "pc p = Locking fd"
  obtains t where "good t"
    "board t = (if lockable (arg_len p) (board (dev w) (unat (arg_id p)))
       then set_holder q (unat (arg_id p)) (board (dev w)) else board (dev w))"
    "paste_step (process anc limit q) (arg_id p) (arg_len p) (Locking fd, pbuf p, w) =
       Inr (if lockable (arg_len p) (board (dev w) (unat (arg_id p))) then Taking fd else Returned (- 1),
         pbuf p, w\<lparr>dev := t\<rparr>)"
proof -
  let ?i = "unat (arg_id p)" and ?b = "board (dev w)"
  have i: "?i < BUF_MAX_COUNT" and free: "drop_locks q ?b = ?b"
    using assms(2,3) by (auto simp: proc_ok_def intro: drop_no_locks)
  have msg: "lock_msg q ?i (arg_len p) = \<lparr>l_pid = q, l_id = arg_id p, l_buffer_len = arg_len p\<rparr>"
    by (simp add: lock_msg_def)
  from lock_law [OF assms(1) i, of q "arg_len p"] obtain t where
    t: "dev_write (lock_bytes \<lparr>l_pid = q, l_id = arg_id p, l_buffer_len = arg_len p\<rparr>) (dev w) =
          Inr (if lockable (arg_len p) (?b ?i) then OK else - 1, t)" "good t"
      "board t = (if lockable (arg_len p) (?b ?i) then set_holder q ?i ?b else ?b)"
    unfolding free msg by (auto simp: Let_def)
  with that show thesis by (simp add: local_sys_def OK_def)
qed

lemma lock_refines_step:
  assumes "good (dev w)" and "proc_ok q (board (dev w)) p" and "pc p = Locking fd"
    and "paste_step (process anc limit q) (arg_id p) (arg_len p) (Locking fd, pbuf p, w) = Inr (l, x, w')"
  shows "good (dev w') \<and> open_files w' = open_files w
    \<and> board_moves anc q (board (dev w), p) (board (dev w'), p\<lparr>pc := l, pbuf := x\<rparr>)"
proof -
  let ?i = "unat (arg_id p)" and ?b = "board (dev w)"
  obtain t where t: "good t"
      "board t = (if lockable (arg_len p) (?b ?i) then set_holder q ?i ?b else ?b)"
      "paste_step (process anc limit q) (arg_id p) (arg_len p) (Locking fd, pbuf p, w) =
       Inr (if lockable (arg_len p) (?b ?i) then Taking fd else Returned (- 1), pbuf p, w\<lparr>dev := t\<rparr>)"
    by (rule lock_step [where anc = anc and limit = limit, OF assms(1-3)])
  from assms(4) [unfolded t(3)] have res: "w' = w\<lparr>dev := t\<rparr>" "x = pbuf p"
      "l = (if lockable (arg_len p) (?b ?i) then Taking fd else Returned (- 1))"
    by auto
  show ?thesis
  proof (cases "lockable (arg_len p) (?b ?i)")
    case True
    then obtain it where it: "?b ?i = Some it" "holder it = None" "\<not> arg_len p < plain_len it"
      by (auto simp: lockable_def split: option.splits)
    with t(2) True have "board t = ?b(?i \<mapsto> it\<lparr>holder := Some q\<rparr>)"
      by (simp add: set_holder_def)
    with res True t(1) it assms(3) show ?thesis by (simp add: b_lock)
  next
    case False
    with res t(1,2) assms(3) show ?thesis by (simp add: b_refuse)
  qed
qed

lemma take_refines_step:
  assumes "good (dev w)" and "proc_ok q (board (dev w)) p" and "pc p = Taking fd" and "0 \<le> sint q"
  obtains it out t where "board (dev w) (unat (arg_id p)) = Some it" "holder it = Some q"
    "dev_read (ENCODE_PID q) (dev w) = Inr (OK, out, t)" "good t"
    "board t = (board (dev w))(unat (arg_id p) := None)"
    "paste_step (process anc limit q) (arg_id p) (arg_len p) (Taking fd, pbuf p, w) =
       (if length (pbuf p) < length (contents it) then Inl Out_Of_Bounds
        else Inr (Returned 0, overwrite 0 (contents it) (pbuf p),
               w\<lparr>dev := t, open_files := open_files w - 1\<rparr>))"
proof -
  let ?i = "unat (arg_id p)"
  have held: "held_by q (board (dev w)) ?i"
    using assms(2,3) by (simp add: proc_ok_def)
  from take_law [OF assms(1,4) held] obtain it junk t where
    it: "board (dev w) ?i = Some it" "length junk = ENTRY_LEN_LIMIT"
      "dev_read (ENCODE_PID q) (dev w) = Inr (OK, Some (get_bytes (get_reply it junk)), t)"
      "good t" "board t = (board (dev w))(?i := None)"
    by blast
  note mg = reply_stored [OF assms(1) it(1,2)]
  have "holder it = Some q"
    using held it(1) by (simp add: held_by_def)
  moreover have "paste_step (process anc limit q) (arg_id p) (arg_len p) (Taking fd, pbuf p, w) =
       (if length (pbuf p) < length (contents it) then Inl Out_Of_Bounds
        else Inr (Returned 0, overwrite 0 (contents it) (pbuf p),
               w\<lparr>dev := t, open_files := open_files w - 1\<rparr>))"
    using it(3) mg by (simp add: local_sys_def OK_def Let_def)
  ultimately show thesis using that it by blast
qed

lemma step_refines:
  assumes "good (shared c)" and "proc_ok q (board (shared c)) p" and "procs c q = p"
    and "0 \<le> sint q" and "\<not> is_Returned (pc p)"
    and "paste_step (process anc limit q) (arg_id p) (arg_len p) (pc p, pbuf p, view c q) = Inr (l, x, w)"
  shows "good (dev w) \<and> board_moves anc q (board (shared c), p)
    (board (dev w), p\<lparr>pc := l, pbuf := x, files := open_files w\<rparr>)"
proof -
  have same: "p\<lparr>pc := l, pbuf := pbuf p, files := files p\<rparr> = p\<lparr>pc := l\<rparr>" for l by simp
  have same': "p\<lparr>pc := l, pbuf := x, files := files p\<rparr> = p\<lparr>pc := l, pbuf := x\<rparr>" for l x by simp
  have same'': "p\<lparr>pc := l, pbuf := pbuf p, files := f\<rparr> = p\<lparr>pc := l, files := f\<rparr>" for l f by simp
  have f: "open_files (view c q) = files p" "dev (view c q) = shared c"
    using assms(3) by simp_all
  show ?thesis
  proof (cases "pc p")
    case Opening
    note fail = b_fail [of p, OF disjI1, OF Opening]
    from assms(1,3,6) Opening f fail [where anc = anc and q = q and b = "board (shared c)" and f = "files p"]
      fail [where anc = anc and q = q and b = "board (shared c)" and f = "Suc (files p)"]
      b_open [where anc = anc and q = q and b = "board (shared c)" and f = "Suc (files p)" and fd = "int (files p)", OF Opening]
    show ?thesis by (auto simp: local_sys_def same same'' split: if_splits)
  next
    case (Asking fd)
    then have i: "unat (arg_id p) < BUF_MAX_COUNT"
      using assms(2) by (simp add: proc_ok_def)
    from ask_refines [where w = "view c q" and anc = anc and limit = limit and q = q, OF _ i Asking] assms(1,6) Asking f
    show ?thesis by (auto simp: same')
  next
    case (Checking fd src)
    with assms b_check [OF this, of anc q "board (shared c)"] f show ?thesis
      by (auto simp: local_sys_def same split: if_splits)
  next
    case (Locking fd)
    from lock_refines_step [of "view c q", OF _ _ Locking, of q anc limit] assms Locking f
    show ?thesis by (auto simp: same')
  next
    case (Taking fd)
    have ok: "good (dev (view c q))" "proc_ok q (board (dev (view c q))) p"
      using assms(1,2) f by simp_all
    obtain it t where it: "board (shared c) (unat (arg_id p)) = Some it" "holder it = Some q" "good t"
      "board t = (board (shared c))(unat (arg_id p) := None)"
      "paste_step (process anc limit q) (arg_id p) (arg_len p) (Taking fd, pbuf p, view c q) =
       (if length (pbuf p) < length (contents it) then Inl Out_Of_Bounds
        else Inr (Returned 0, overwrite 0 (contents it) (pbuf p),
               (view c q)\<lparr>dev := t, open_files := files p - 1\<rparr>))"
      using take_refines_step [where anc = anc and limit = limit, OF ok Taking assms(4)]
      unfolding f by metis
    from it(5) assms(6) have "w = (view c q)\<lparr>dev := t, open_files := files p - 1\<rparr>"
      "l = Returned 0" "x = overwrite 0 (contents it) (pbuf p)"
      unfolding Taking by (simp_all split: if_splits)
    note t = it(1-4) this
    with b_take [where b = "board (shared c)", OF Taking t(1,2)] show ?thesis by simp
  next
    case (Returned r)
    with assms(5) show ?thesis by simp
  qed
qed

lemma copy_refines:
  assumes "good (dev w)" and "pc p = Returned r" and "length junk = ENTRY_LEN_LIMIT"
    and "files p = open_files w"
    and "copy_to_clipboard (process anc limit q) junk b n w = Inr (r', w')"
  shows "good (dev w') \<and> board_moves anc q (board (dev w), p)
    (board (dev w'), p\<lparr>pc := Returned r', files := open_files w'\<rparr>)"
proof -
  have same: "p\<lparr>pc := l, files := open_files w\<rparr> = p\<lparr>pc := l\<rparr>" for l
    using assms(4) by (cases p) simp
  show ?thesis
  proof (cases "unat n \<le> ENTRY_LEN_LIMIT \<and> open_files w < limit")
    case False
    then have "w' = w" "r' = - 1"
      using assms(5) by (auto simp: copy_to_clipboard_def local_sys_def split: if_splits)
    with assms(1,2) show ?thesis by (simp add: same b_no_copy)
  next
    case True
    with assms(5) obtain k where k: "expected_decompressed_size b n = Inr k" "unat n \<le> length b"
      by (auto simp: copy_to_clipboard_def local_sys_def rbind_eq_Inr split: if_splits)
    note stores = copy_stores [where anc = anc and pid = q, OF assms(1) conjunct2 [OF True]
        conjunct1 [OF True] k(2) assms(3) k(1)]
    show ?thesis
    proof (cases "full_board (board (dev w))")
      case True
      with stores assms(5) have "w' = w" "r' = - 1" by simp_all
      with assms(1,2) show ?thesis by (simp add: same b_no_copy)
    next
      case False
      with stores obtain i s where s: "i < BUF_MAX_COUNT" "board (dev w) i = None"
        "copy_to_clipboard (process anc limit q) junk b n w = Inr (of_nat i, w\<lparr>dev := s\<rparr>)" "good s"
        "board s = (board (dev w))(i \<mapsto>
          \<lparr>contents = take (unat n) b, plain_len = k, owner = q, holder = None\<rparr>)"
        by (simp only: if_False) blast
      have "board_moves anc q (board (dev w), p) (board s, p\<lparr>pc := Returned (of_nat i)\<rparr>)"
        unfolding s(5) using assms(2) s(1,2) by (intro b_copy) simp_all
      with s(3,4) assms(5) show ?thesis by (auto simp: same)
    qed
  qed
qed

lemma moves_refine:
  assumes ok: "config_ok board good c" and m: "moves (process anc limit) q c c'"
  shows "config_ok board good c'
    \<and> board_moves anc q (board (shared c), procs c q) (board (shared c'), procs c' q)
    \<and> (\<forall>r. r \<noteq> q \<longrightarrow> procs c' r = procs c r)"
proof -
  have good: "good (shared c)" and p: "proc_ok r (board (shared c)) (procs c r)" for r
    using ok by (simp_all add: config_ok_def)
  from m have step: "good (shared c')
      \<and> board_moves anc q (board (shared c), procs c q) (board (shared c'), procs c' q)
      \<and> (\<forall>r. r \<noteq> q \<longrightarrow> procs c' r = procs c r)"
  proof cases
    case (call_paste p r b n i)
    have same: "p\<lparr>pc := Opening, arg_id := i, arg_len := n, pbuf := b, files := files p\<rparr> =
        p\<lparr>pc := Opening, arg_id := i, arg_len := n, pbuf := b\<rparr>" by simp
    from call_paste good b_call [OF call_paste(3)] show ?thesis by (simp add: same)
  next
    case (step_paste p l b w)
    with step_refines [OF good p [of q, unfolded step_paste(3)] step_paste(3,2,4,5)]
    show ?thesis by simp
  next
    case (call_copy p r junk b n r' w)
    with copy_refines [where w = "view c q" and p = "procs c q"] good show ?thesis by simp
  qed
  have "proc_ok r (board (shared c')) (procs c' r)" for r
  proof (cases "r = q")
    case True
    with step p [of q] board_moves_ok show ?thesis by blast
  next
    case False
    with step p [of r] board_moves_locks show ?thesis
      unfolding proc_ok_def by metis
  qed
  with step show ?thesis by (simp add: config_ok_def)
qed

lemma run_ok:
  "(any_moves (process anc limit))\<^sup>*\<^sup>* c c' \<Longrightarrow> config_ok board good c \<Longrightarrow> config_ok board good c'"
  by (induction rule: rtranclp_induct) (use moves_refine in \<open>auto simp: any_moves_def\<close>)

lemma other_step:
  assumes "config_ok board good c" and "moves (process anc limit) r c c'" and "r \<noteq> q"
    and "board (shared c) i = Some it" and "holder it = Some q"
  shows "config_ok board good c' \<and> procs c' q = procs c q \<and> board (shared c') i = Some it"
  using moves_refine [OF assms(1,2)] assms(3-5)
    board_moves_frame [where q = q and r = r and i = i and it = it] by metis

text \<open>What a process locked it takes, whatever the others do in between.\<close>

lemma taken_text:
  assumes "config_ok board good c" and "pc (procs c q) = Taking fd" and "0 \<le> sint q"
    and "board (shared c) (unat (arg_id (procs c q))) = Some it"
  shows "\<exists>out t. dev_read (ENCODE_PID q) (shared c) = Inr (OK, out, t) \<and> good t
    \<and> board t = (board (shared c))(unat (arg_id (procs c q)) := None)
    \<and> paste_step (process anc limit q) (arg_id (procs c q)) (arg_len (procs c q))
        (Taking fd, pbuf (procs c q), view c q) =
      (if length (pbuf (procs c q)) < length (contents it) then Inl Out_Of_Bounds
       else Inr (Returned 0, overwrite 0 (contents it) (pbuf (procs c q)),
              \<lparr>dev = t, open_files = files (procs c q) - 1\<rparr>))"
proof -
  have ok: "good (dev (view c q))" "proc_ok q (board (dev (view c q))) (procs c q)"
    using assms(1) by (simp_all add: config_ok_def)
  have upd: "(view c q)\<lparr>dev := t, open_files := f\<rparr> = \<lparr>dev = t, open_files = f\<rparr>" for t f
    by (simp add: view_def)
  from take_refines_step [where anc = anc and limit = limit, OF ok assms(2,3)] assms(4)
  show ?thesis unfolding upd view_simps by (metis option.inject)
qed

text \<open>A process in the middle of a call can take its next step, if its buffer holds the text it has locked.\<close>

lemma step_progress:
  assumes ok: "config_ok board good c" and q: "0 \<le> sint q"
    and room: "\<And>fd it. pc (procs c q) = Taking fd \<Longrightarrow> board (shared c) (unat (arg_id (procs c q))) = Some it \<Longrightarrow>
      length (contents it) \<le> length (pbuf (procs c q))"
  shows "\<exists>x. paste_step (process anc limit q) (arg_id (procs c q)) (arg_len (procs c q))
      (pc (procs c q), pbuf (procs c q), view c q) = Inr x"
proof -
  have good: "good (dev (view c q))" and p: "proc_ok q (board (dev (view c q))) (procs c q)"
    using ok by (simp_all add: config_ok_def)
  show ?thesis
  proof (cases "pc (procs c q)")
    case (Asking fd)
    then have "unat (arg_id (procs c q)) < BUF_MAX_COUNT" using p by (simp add: proc_ok_def)
    with owner_law [OF good] obtain v where
      "dev_read (ENCODE_ID (arg_id (procs c q))) (shared c) = Inr (v, None, shared c)" by fastforce
    with Asking show ?thesis by (auto simp: local_sys_def)
  next
    case (Locking fd)
    from lock_step [where anc = anc and limit = limit, OF good p this] Locking show ?thesis by metis
  next
    case (Taking fd)
    then have "held_by q (board (shared c)) (unat (arg_id (procs c q)))" using p by (simp add: proc_ok_def)
    then obtain it where it: "board (shared c) (unat (arg_id (procs c q))) = Some it"
      by (auto simp: held_by_def split: option.splits)
    with taken_text [where anc = anc and limit = limit, OF ok Taking q it] room [OF Taking it] Taking
    show ?thesis by auto
  qed (auto simp: local_sys_def)
qed

end

end
