(* ===== verification/Carried_Device.thy ===== *)
theory Carried_Device
  imports Interleaving
begin

text \<open>
  A device that another layer serves to the processes: the contract \<open>carried_device\<close> says that the requests the
  library makes have through the layer the outcomes they have on the device itself.  From the contract alone, a
  copy, every step of a paste and a whole paste through the layer are those on the device.
\<close>

section \<open>The contract\<close>

text \<open>
  \<open>low\<close> is the device inside the state of the layer, \<open>put\<close> replaces it; the layer behaves in the states
  \<open>sound\<close>.
\<close>

locale carried_device =
  fixes low_read :: "u32 \<Rightarrow> 's \<Rightarrow> (int \<times> byte list option \<times> 's) cres"
    and low_write :: "byte list \<Rightarrow> 's \<Rightarrow> (int \<times> 's) cres"
    and high_read :: "u32 \<Rightarrow> 't \<Rightarrow> (int \<times> byte list option \<times> 't) cres"
    and high_write :: "byte list \<Rightarrow> 't \<Rightarrow> (int \<times> 't) cres"
    and low :: "'t \<Rightarrow> 's"
    and put :: "'s \<Rightarrow> 't \<Rightarrow> 't"
    and sound :: "'t \<Rightarrow> bool"
  assumes low_put: "low (put s t) = s"
    and put_low: "put (low t) t = t"
    and put_put: "put s (put s' t) = put s t"
    and read_law: "sound t \<Longrightarrow>
      high_read sz t = rbind (low_read sz (low t)) (\<lambda>(r, out, s). Inr (r, out, put s t))"
    and read_sound: "sound t \<Longrightarrow> low_read sz (low t) = Inr (r, out, s) \<Longrightarrow> sound (put s t)"
    and lock_law: "sound t \<Longrightarrow> unat (l_id m) < BUF_MAX_COUNT \<Longrightarrow>
      high_write (lock_bytes m) t = rbind (low_write (lock_bytes m) (low t)) (\<lambda>(r, s). Inr (r, put s t))"
    and lock_sound: "sound t \<Longrightarrow> unat (l_id m) < BUF_MAX_COUNT \<Longrightarrow>
      low_write (lock_bytes m) (low t) = Inr (r, s) \<Longrightarrow> sound (put s t)"
    and set_law: "sound t \<Longrightarrow> sane_set ms \<Longrightarrow> 0 \<le> sint (s_pid ms) \<Longrightarrow>
      high_write (set_bytes ms) t = rbind (low_write (set_bytes ms) (low t)) (\<lambda>(r, s). Inr (r, put s t))"
    and set_sound: "sound t \<Longrightarrow> sane_set ms \<Longrightarrow> 0 \<le> sint (s_pid ms) \<Longrightarrow>
      low_write (set_bytes ms) (low t) = Inr (r, s) \<Longrightarrow> sound (put s t)"

section \<open>The library functions through the layer\<close>

text \<open>The world and the configuration without the layer, and how a world without it comes back.\<close>

definition lower_world :: "('t \<Rightarrow> 's) \<Rightarrow> 't world \<Rightarrow> 's world" where
  "lower_world low w = \<lparr>dev = low (dev w), open_files = open_files w\<rparr>"

definition raise_world :: "('s \<Rightarrow> 't \<Rightarrow> 't) \<Rightarrow> 't world \<Rightarrow> 's world \<Rightarrow> 't world" where
  "raise_world put w v = \<lparr>dev = put (dev v) (dev w), open_files = open_files v\<rparr>"

definition lowered :: "('t \<Rightarrow> 's) \<Rightarrow> 't config \<Rightarrow> 's config" where
  "lowered low c = \<lparr>shared = low (shared c), procs = procs c\<rparr>"

lemma world_simps [simp]:
  "dev (lower_world low w) = low (dev w)" "open_files (lower_world low w) = open_files w"
  "dev (raise_world put w v) = put (dev v) (dev w)" "open_files (raise_world put w v) = open_files v"
  "shared (lowered low c) = low (shared c)" "procs (lowered low c) = procs c"
  by (simp_all add: lower_world_def raise_world_def lowered_def)

text \<open>A call that has passed the opening of the device names an existing entry.\<close>

definition named :: "u32 \<Rightarrow> point \<Rightarrow> bool" where
  "named i l \<longleftrightarrow> l = Opening \<or> is_Returned l \<or> unat i < BUF_MAX_COUNT"

lemma named_step: "named i l \<Longrightarrow> paste_step sys i n (l, b, w) = Inr (l', b', w') \<Longrightarrow> named i l'"
  by (cases l) (auto simp: named_def Let_def split: if_splits prod.splits)

lemma named_Locking: "named i (Locking fd) \<Longrightarrow> unat i < BUF_MAX_COUNT"
  by (simp add: named_def)

lemma world_eqI: "dev v = dev w \<Longrightarrow> open_files v = open_files w \<Longrightarrow> (v :: 's world) = w"
  by simp

context carried_device begin

abbreviation (input) high :: "(u32 \<Rightarrow> u32 \<Rightarrow> byte) \<Rightarrow> nat \<Rightarrow> u32 \<Rightarrow> 't world sys" where
  "high anc limit q \<equiv> local_sys high_read high_write q anc limit"

abbreviation (input) basic :: "(u32 \<Rightarrow> u32 \<Rightarrow> byte) \<Rightarrow> nat \<Rightarrow> u32 \<Rightarrow> 's world sys" where
  "basic anc limit q \<equiv> local_sys low_read low_write q anc limit"

lemma copy_carried:
  assumes w: "sound (dev w)" and q: "0 \<le> sint q" and junk: "length junk = ENTRY_LEN_LIMIT"
  shows "copy_to_clipboard (high anc limit q) junk b n w =
    rbind (copy_to_clipboard (basic anc limit q) junk b n (lower_world low w)) (\<lambda>(r, v). Inr (r, raise_world put w v))"
proof (cases "unat n \<le> ENTRY_LEN_LIMIT \<and> open_files w < limit \<and> unat n \<le> length b")
  case False
  then show ?thesis
    by (auto simp: copy_to_clipboard_def local_sys_def raise_world_def put_low rbind_def split: sum.splits)
next
  case True
  show ?thesis
  proof (cases "expected_decompressed_size b n")
    case (Inl e)
    with True show ?thesis by (simp add: copy_to_clipboard_def local_sys_def)
  next
    case (Inr k)
    let ?m = "\<lparr>s_pid = q, s_buffer_len = n, s_decompressed_len = k,
      s_buffer = overwrite 0 (take (unat n) b) junk\<rparr>"
    have "sane_set ?m" using True junk by (simp add: sane_set_def)
    from set_law [OF w this] q True Inr show ?thesis
      by (cases "low_write (set_bytes ?m) (low (dev w))")
        (auto simp: copy_to_clipboard_def local_sys_def raise_world_def)
  qed
qed

lemma copy_sound:
  assumes "sound (dev w)" and "0 \<le> sint q" and "length junk = ENTRY_LEN_LIMIT"
    and "copy_to_clipboard (basic anc limit q) junk b n (lower_world low w) = Inr (r, v)"
  shows "sound (put (dev v) (dev w))"
proof (cases "dev v = low (dev w)")
  case True
  with assms(1) show ?thesis by (simp add: put_low)
next
  case False
  with assms(4) obtain k s where n: "unat n \<le> ENTRY_LEN_LIMIT" "unat n \<le> length b"
    and k: "low_write (set_bytes \<lparr>s_pid = q, s_buffer_len = n, s_decompressed_len = k,
      s_buffer = overwrite 0 (take (unat n) b) junk\<rparr>) (low (dev w)) = Inr (s, dev v)"
    by (auto simp: copy_to_clipboard_def local_sys_def rbind_eq_Inr split: if_splits)
  from set_sound [OF assms(1) _ _ k] n assms(2,3) show ?thesis by (simp add: sane_set_def)
qed

text \<open>Where a call names an entry in a request, the entry exists.\<close>

lemma step_carried:
  assumes w: "sound (dev w)" and i: "\<And>fd. l = Locking fd \<Longrightarrow> unat i < BUF_MAX_COUNT"
  shows "paste_step (high anc limit q) i n (l, b, w) =
    rbind (paste_step (basic anc limit q) i n (l, b, lower_world low w)) (\<lambda>(l, b, v). Inr (l, b, raise_world put w v))"
proof (cases l)
  case (Locking fd)
  let ?m = "\<lparr>l_pid = q, l_id = i, l_buffer_len = n\<rparr>"
  from lock_law [OF w, of ?m] i [OF Locking] Locking show ?thesis
    by (cases "low_write (lock_bytes ?m) (low (dev w))") (auto simp: local_sys_def raise_world_def)
next
  case (Asking fd)
  with read_law [OF w, of "ENCODE_ID i"] show ?thesis
    by (cases "low_read (ENCODE_ID i) (low (dev w))") (auto simp: local_sys_def raise_world_def)
next
  case (Taking fd)
  with read_law [OF w, of "ENCODE_PID q"] show ?thesis
    by (cases "low_read (ENCODE_PID q) (low (dev w))") (auto simp: local_sys_def raise_world_def Let_def)
qed (auto simp: local_sys_def raise_world_def put_low)

lemma step_sound:
  assumes w: "sound (dev w)" and i: "\<And>fd. l = Locking fd \<Longrightarrow> unat i < BUF_MAX_COUNT"
    and "paste_step (basic anc limit q) i n (l, b, lower_world low w) = Inr (l', b', v)"
  shows "sound (put (dev v) (dev w))"
proof (cases l)
  case (Locking fd)
  with assms(3) obtain r where "low_write (lock_bytes \<lparr>l_pid = q, l_id = i, l_buffer_len = n\<rparr>) (low (dev w))
      = Inr (r, dev v)"
    by (auto simp: local_sys_def rbind_eq_Inr split: if_splits)
  with lock_sound [OF w _ this] i [OF Locking] show ?thesis by simp
next
  case (Asking fd)
  with assms(3) read_sound [OF w] show ?thesis
    by (auto simp: local_sys_def rbind_eq_Inr split: if_splits)
next
  case (Taking fd)
  with assms(3) read_sound [OF w] show ?thesis
    by (auto simp: local_sys_def rbind_eq_Inr Let_def split: if_splits)
qed (use w assms(3) in \<open>auto simp: local_sys_def put_low split: if_splits\<close>)

text \<open>A whole paste is its five steps.\<close>

lemma steps_carried:
  assumes "sound (dev w)" and "named i l"
  shows "paste_steps k (high anc limit q) i n (l, b, w) =
      rbind (paste_steps k (basic anc limit q) i n (l, b, lower_world low w)) (\<lambda>(l, b, v). Inr (l, b, raise_world put w v))
    \<and> (\<forall>l' b' v. paste_steps k (basic anc limit q) i n (l, b, lower_world low w) = Inr (l', b', v)
        \<longrightarrow> sound (put (dev v) (dev w)))"
  using assms
proof (induction k arbitrary: l b w)
  case 0
  then show ?case by (simp add: raise_world_def put_low)
next
  case (Suc k)
  have i: "\<And>fd. l = Locking fd \<Longrightarrow> unat i < BUF_MAX_COUNT"
    using Suc.prems(2) named_Locking by simp
  show ?case
  proof (cases "paste_step (basic anc limit q) i n (l, b, lower_world low w)")
    case (Inl e)
    with step_carried [OF Suc.prems(1) i, where b = b and n = n and anc = anc and limit = limit and q = q]
    show ?thesis by simp
  next
    case (Inr x)
    obtain l1 b1 v where x: "x = (l1, b1, v)" by (cases x)
    note low1 = Inr [unfolded x]
    have high1: "paste_step (high anc limit q) i n (l, b, w) = Inr (l1, b1, raise_world put w v)"
      using step_carried [OF Suc.prems(1) i, where b = b and n = n and anc = anc and limit = limit and q = q] low1
      by simp
    have "sound (dev (raise_world put w v))"
      using step_sound [OF Suc.prems(1) i low1] by simp
    moreover have "named i l1" by (rule named_step [OF Suc.prems(2) low1])
    moreover have "lower_world low (raise_world put w v) = v"
      by (simp add: world_eqI low_put)
    moreover have "raise_world put (raise_world put w v) = raise_world put w"
      by (simp add: fun_eq_iff put_put raise_world_def)
    ultimately show ?thesis
      using Suc.IH [of "raise_world put w v" l1 b1] low1 high1 by (simp add: put_put)
  qed
qed

lemma paste_carried:
  assumes "sound (dev w)"
  shows "paste_from_clipboard (high anc limit q) i b n w =
    rbind (paste_from_clipboard (basic anc limit q) i b n (lower_world low w))
      (\<lambda>(r, b, v). Inr (r, b, raise_world put w v))"
proof -
  have "named i Opening" by (simp add: named_def)
  from conjunct1 [OF steps_carried [where l = Opening and k = 5 and i = i and b = b and n = n and anc = anc
      and limit = limit and q = q, OF assms this]]
  show ?thesis
    unfolding paste_steps_function
    by (cases "paste_from_clipboard (high anc limit q) i b n w";
        cases "paste_from_clipboard (basic anc limit q) i b n (lower_world low w)") auto
qed

lemma lower_view: "lower_world low (view c q) = view (lowered low c) q"
  by (simp add: lower_world_def view_def lowered_def)

end

end
