(* ===== verification/Served_Port.thy ===== *)
theory Served_Port
  imports Clipboard_Task Carried_Device
begin

text \<open>
  The framework and the clipboard driver together, as a process meets them: a \<open>read\<close> or a \<open>write\<close> is a message to
  the task, and its outcome is the reply the task sends and the bytes it copies into the caller's buffer.  With
  acceptable requests this is the driver of theory \<open>Device_Port\<close> carried by the framework.
\<close>

section \<open>One request and its reply\<close>

text \<open>
  What a request does not decide itself: the other fields of the message (its sender, the grant and the identifier
  of the request among them), how it is received, and what the variables of the handlers held before.
\<close>

record circumstances =
  msg_base :: message
  ipc :: ipc_status
  read_var :: "byte list"
  write_var :: "byte list"

definition transfer :: "m_type \<Rightarrow> u32 \<Rightarrow> message \<Rightarrow> message" where
  "transfer ty n m = m\<lparr>m_type := ty, rw_minor := 0, rw_count := n\<rparr>"

text \<open>The entries a list of the latest first has gained.\<close>

definition gained :: "'a list \<Rightarrow> 'a list \<Rightarrow> 'a list" where
  "gained xs ys = take (length ys - length xs) ys"

definition request_id :: "message \<Rightarrow> u32" where
  "request_id m = (if m_type m \<in> {CDEV_OPEN, CDEV_CLOSE} then oc_id m else rw_id m)"

text \<open>
  The caller waits for one reply to its request and takes it, with the bytes that were copied under its grant; it
  waits for ever when the reply does not come.
\<close>

definition receive ::
  "message \<Rightarrow> task cdstate \<Rightarrow> task cdstate \<Rightarrow> (int \<times> byte list option \<times> task cdstate) cres" where
  "receive m st t =
     (case gained (sent st) (sent t) of
        [(endpt, CDEV_REPLY r i, call)] \<Rightarrow>
          if endpt = m_source m \<and> i = request_id m then
            Inr (r, (case gained (copied (priv st)) (copied (priv t)) of
                  [(e, g, bs)] \<Rightarrow> if e = m_source m \<and> g = rw_grant m then Some bs else None
                | _ \<Rightarrow> None),
              t\<lparr>sent := sent st, priv := (priv t)\<lparr>copied := copied (priv st)\<rparr>\<rparr>)
          else Inl Blocked
      | _ \<Rightarrow> Inl Blocked)"

definition served_read ::
  "codes \<Rightarrow> circumstances \<Rightarrow> u32 \<Rightarrow> task cdstate \<Rightarrow> (int \<times> byte list option \<times> task cdstate) cres" where
  "served_read C X sz st =
     (let m = transfer CDEV_READ sz (msg_base X)
      in rbind (chardriver_process C (clipboard_tab (\<lambda>e g n. Inr (fit n [])) (\<lambda>e g bs. OK) (read_var X) (write_var X))
                  m (ipc X) st)
           (receive m st))"

definition served_write ::
  "codes \<Rightarrow> circumstances \<Rightarrow> byte list \<Rightarrow> task cdstate \<Rightarrow> (int \<times> task cdstate) cres" where
  "served_write C X bs st =
     (let m = transfer CDEV_WRITE (of_nat (length bs)) (msg_base X)
      in rbind (chardriver_process C (clipboard_tab (\<lambda>e g n. Inr (fit n bs)) (\<lambda>e g bs. OK) (read_var X) (write_var X))
                  m (ipc X) st)
           (\<lambda>t. rbind (receive m st t) (\<lambda>(r, out, t). Inr (r, t))))"

definition the_driver :: "task cdstate \<Rightarrow> driver" where
  "the_driver st = drv (priv st)"

definition put_driver :: "driver \<Rightarrow> task cdstate \<Rightarrow> task cdstate" where
  "put_driver d st = st\<lparr>priv := (priv st)\<lparr>drv := d\<rparr>\<rparr>"

text \<open>What the framework makes of the status a hook returned.\<close>

definition delivered :: "codes \<Rightarrow> int \<Rightarrow> 'a \<Rightarrow> 'a cres" where
  "delivered C r x =
     (if r = EDONTREPLY C then Inl Blocked else if r = SUSPEND C then Inl Panic
      else if r = ERESTART C then Inl Blocked else Inr x)"

section \<open>The task serves the port of the driver\<close>

lemma gained_simps [simp]: "gained xs xs = []" "gained xs (x # xs) = [x]"
  by (simp_all add: gained_def Suc_diff_le)

lemma transfer_simps [simp]:
  "m_type (transfer ty n m) = ty" "rw_minor (transfer ty n m) = 0" "rw_count (transfer ty n m) = n"
  "m_source (transfer ty n m) = m_source m" "rw_grant (transfer ty n m) = rw_grant m"
  "rw_id (transfer ty n m) = rw_id m"
  by (simp_all add: transfer_def)

lemma process_transfer:
  assumes "\<not> is_ipc_notify ips" and "is_open_dev 0 st" and "ty = CDEV_READ \<or> ty = CDEV_WRITE"
  shows "chardriver_process C cdp (transfer ty n m) ips st =
    rbind (do_transfer C cdp (transfer ty n m) (ty = CDEV_WRITE) st)
      (\<lambda>(r, t). chardriver_reply C (transfer ty n m) ips r t)"
  using assms by (intro process_opened [where k = 0])
    (auto simp: requests_def chardriver_get_minor_def run_request_def)

lemma reply_received:
  assumes "m_type m = CDEV_READ \<or> m_type m = CDEV_WRITE" and "sent t = sent st"
  shows "rbind (chardriver_reply C m ips r t) (receive m st) =
    delivered C r (r, (case gained (copied (priv st)) (copied (priv t)) of
          [(e, g, bs)] \<Rightarrow> if e = m_source m \<and> g = rw_grant m then Some bs else None
        | _ \<Rightarrow> None), t\<lparr>priv := (priv t)\<lparr>copied := copied (priv st)\<rparr>\<rparr>)"
  using assms by (auto simp: chardriver_reply_def delivered_def send_reply_def emit_def receive_def request_id_def)

lemma served_read_port:
  assumes "\<not> is_ipc_notify (ipc X)" and "is_open_dev 0 st"
  shows "served_read C X sz st =
    rbind (port_read (read_var X) sz (the_driver st)) (\<lambda>(r, out, d). delivered C r (r, out, put_driver d st))"
proof -
  have same: "clipboard_read (\<lambda>e g bs. OK) junk e g sz d = clipboard_read (\<lambda>e g bs. OK) junk 0 0 sz d" for junk e g d
    by (simp add: clipboard_read_def)
  let ?m = "transfer CDEV_READ sz (msg_base X)"
  have m: "m_type ?m = CDEV_READ \<or> m_type ?m = CDEV_WRITE" by simp
  have hook: "chardriver_process C (clipboard_tab cf (\<lambda>e g bs. OK) (read_var X) wj) ?m (ipc X) st =
      rbind (rbind (port_read (read_var X) sz (the_driver st)) (\<lambda>(r, out, d).
        Inr (r, st\<lparr>priv := (priv st)\<lparr>drv := d, copied := (case out of None \<Rightarrow> copied (priv st)
              | Some bs \<Rightarrow> (m_source ?m, rw_grant ?m, bs) # copied (priv st))\<rparr>\<rparr>)))
        (\<lambda>(r, t). chardriver_reply C ?m (ipc X) r t)" for cf wj
    unfolding process_transfer [OF assms disjI1 [OF refl]]
    by (cases "port_read (read_var X) sz (the_driver st)")
      (auto simp: do_transfer_def clipboard_tab_def call_hook_def read_hook_def port_read_def the_driver_def
        same [of _ "m_source (msg_base X)" "rw_grant (msg_base X)"] split: option.split)
  show ?thesis
  proof (cases "port_read (read_var X) sz (the_driver st)")
    case (Inl e)
    then show ?thesis by (simp add: served_read_def hook)
  next
    case (Inr x)
    obtain r out d where "x = (r, out, d)" by (cases x)
    with Inr show ?thesis
      by (cases out) (simp_all add: served_read_def hook reply_received [OF m] put_driver_def)
  qed
qed

lemma served_write_port:
  assumes "\<not> is_ipc_notify (ipc X)" and "is_open_dev 0 st"
  shows "served_write C X bs st =
    rbind (port_write (write_var X) bs (the_driver st)) (\<lambda>(r, d). delivered C r (r, put_driver d st))"
proof -
  have same: "clipboard_write (\<lambda>e g n. Inr (fit n bs)) junk e g sz d =
      clipboard_write (\<lambda>e g n. Inr (fit n bs)) junk 0 0 sz d" for junk e g sz d
    by (simp add: clipboard_write_def)
  let ?m = "transfer CDEV_WRITE (of_nat (length bs)) (msg_base X)"
  have m: "m_type ?m = CDEV_READ \<or> m_type ?m = CDEV_WRITE" by simp
  have hook: "chardriver_process C (clipboard_tab (\<lambda>e g n. Inr (fit n bs)) ct rj (write_var X)) ?m (ipc X) st =
      rbind (rbind (port_write (write_var X) bs (the_driver st)) (\<lambda>(r, d). Inr (r, put_driver d st)))
        (\<lambda>(r, t). chardriver_reply C ?m (ipc X) r t)" for ct rj
    unfolding process_transfer [OF assms disjI2 [OF refl]]
    by (cases "port_write (write_var X) bs (the_driver st)")
      (auto simp: do_transfer_def clipboard_tab_def call_hook_def on_driver_def port_write_def the_driver_def
        put_driver_def same [of _ "m_source (msg_base X)" "rw_grant (msg_base X)"])
  show ?thesis
  proof (cases "port_write (write_var X) bs (the_driver st)")
    case (Inl e)
    then show ?thesis by (simp add: served_write_def hook)
  next
    case (Inr x)
    obtain r d where x: "x = (r, d)" by (cases x)
    have "rbind (chardriver_reply C ?m (ipc X) r (put_driver d st))
        (\<lambda>t. rbind (receive ?m st t) (\<lambda>(r, out, t). Inr (r, t))) =
      rbind (rbind (chardriver_reply C ?m (ipc X) r (put_driver d st)) (receive ?m st)) (\<lambda>(r, out, t). Inr (r, t))"
      by (simp add: rbind_assoc)
    with Inr x show ?thesis
      by (simp add: served_write_def hook reply_received [OF m] put_driver_def delivered_def)
  qed
qed

section \<open>The task carries the driver\<close>

text \<open>The pseudo-replies are no status of the driver.\<close>

definition codes_apart :: "codes \<Rightarrow> bool" where
  "codes_apart C \<longleftrightarrow> EDONTREPLY C < - 1 \<and> SUSPEND C < - 1 \<and> ERESTART C < - 1"

definition serving :: "codes \<Rightarrow> circumstances \<Rightarrow> task cdstate \<Rightarrow> bool" where
  "serving C X st \<longleftrightarrow>
     codes_apart C \<and> \<not> is_ipc_notify (ipc X) \<and> is_open_dev 0 st \<and> task_inv (the_driver st)"

lemma delivered_status: "codes_apart C \<Longrightarrow> - 1 \<le> r \<Longrightarrow> delivered C r x = Inr x"
  by (auto simp: delivered_def codes_apart_def)

lemma put_driver [simp]:
  "the_driver (put_driver d st) = d" "put_driver (the_driver st) st = st"
  "put_driver d (put_driver d' st) = put_driver d st" "is_open_dev k (put_driver d st) = is_open_dev k st"
  by (simp_all add: the_driver_def put_driver_def)

lemma port_read_status:
  assumes "task_inv d" and "port_read junk sz d = Inr (r, out, d')"
  shows "task_inv d' \<and> - 1 \<le> r"
  using read_status [OF assms(1) length_fit assms(2) [unfolded port_read_def]] by (auto simp: OK_def)

lemma port_lock_status:
  assumes "task_inv d" and "unat (l_id m) < BUF_MAX_COUNT" and "port_write junk (lock_bytes m) d = Inr (r, d')"
  shows "task_inv d' \<and> - 1 \<le> r"
proof -
  have lock: "do_clipboard_lock m d = Inr (r, d')" using assms(3) by (simp add: port_write_lock)
  have "wf_driver d'" using lock_keeps [OF _ assms(2), of d] assms(1) lock by (auto simp: task_inv_def)
  with owners_lock [OF lock] lock_status [OF lock] assms(1) show ?thesis
    by (auto simp: task_inv_def owners_ok_def OK_def)
qed

lemma port_set_status:
  assumes "task_inv d" and "sane_set m" and "0 \<le> sint (s_pid m)" and "port_write junk (set_bytes m) d = Inr (r, d')"
  shows "task_inv d' \<and> - 1 \<le> r"
proof -
  have wf: "wf_driver d" using assms(1) by (simp add: task_inv_def)
  have set: "do_clipboard_set m d = Inr (r, d')" using assms(4) by (simp add: port_write_set [OF assms(2)])
  have "wf_driver d'" using set_keeps [OF wf assms(2)] set by auto
  with owners_set [OF set] set_status [OF wf assms(2) set] assms(1,3) show ?thesis
    by (auto simp: task_inv_def owners_ok_def)
qed

interpretation task: carried_device "port_read (read_var X)" "port_write (write_var X)" "served_read C X"
  "served_write C X" the_driver put_driver "serving C X"
  for C X
proof unfold_locales
  fix st sz
  assume st: "serving C X st"
  then show "served_read C X sz st =
      rbind (port_read (read_var X) sz (the_driver st)) (\<lambda>(r, out, d). Inr (r, out, put_driver d st))"
    using port_read_status
    by (cases "port_read (read_var X) sz (the_driver st)") (auto simp: served_read_port serving_def delivered_status)
  show "serving C X (put_driver d st)" if "port_read (read_var X) sz (the_driver st) = Inr (r, out, d)" for r out d
    using st port_read_status [OF _ that] by (simp add: serving_def)
next
  fix st and m :: clipboard_lock_msg
  assume st: "serving C X st" and m: "unat (l_id m) < BUF_MAX_COUNT"
  then show "served_write C X (lock_bytes m) st =
      rbind (port_write (write_var X) (lock_bytes m) (the_driver st)) (\<lambda>(r, d). Inr (r, put_driver d st))"
    using port_lock_status [OF _ m]
    by (cases "port_write (write_var X) (lock_bytes m) (the_driver st)")
      (auto simp: served_write_port serving_def delivered_status)
  show "serving C X (put_driver d st)" if "port_write (write_var X) (lock_bytes m) (the_driver st) = Inr (r, d)" for r d
    using st port_lock_status [OF _ m that] by (simp add: serving_def)
next
  fix st and m :: clipboard_set_msg
  assume st: "serving C X st" and m: "sane_set m" "0 \<le> sint (s_pid m)"
  then show "served_write C X (set_bytes m) st =
      rbind (port_write (write_var X) (set_bytes m) (the_driver st)) (\<lambda>(r, d). Inr (r, put_driver d st))"
    using port_set_status [OF _ m]
    by (cases "port_write (write_var X) (set_bytes m) (the_driver st)")
      (auto simp: served_write_port serving_def delivered_status)
  show "serving C X (put_driver d st)" if "port_write (write_var X) (set_bytes m) (the_driver st) = Inr (r, d)" for r d
    using st port_set_status [OF _ m that] by (simp add: serving_def)
qed simp_all

section \<open>A task that has not opened its device\<close>

lemma unopened_blocks:
  assumes "next_open_devs_slot st = 0" and "\<not> is_ipc_notify (ipc X)"
  shows "served_read C X sz st = Inl Blocked" and "served_write C X bs st = Inl Blocked"
  using assms
  by (simp_all add: served_read_def served_write_def chardriver_process_def IS_CDEV_RQ_def chardriver_get_minor_def
      is_open_dev_def opened_def receive_def)

lemma open_again:
  assumes "next_open_devs_slot st = 0" and "open_devs st \<noteq> []" and "codes_apart C"
    and "m_type m = CDEV_OPEN" and "oc_minor m = 0" and "\<not> is_ipc_notify ips"
  shows "\<exists>t. chardriver_process C (clipboard_tab cf ct rj wj) m ips st = Inr t
    \<and> is_open_dev 0 t \<and> the_driver t = the_driver st
    \<and> sent t = (m_source m, CDEV_REPLY OK (oc_id m), if call_sendrec ips then ipc_sendnb else asynsend3) # sent st"
proof -
  obtain k ks where "open_devs st = k # ks" using assms(2) by (cases "open_devs st") simp_all
  moreover have "0 \<noteq> EDONTREPLY C" "0 \<noteq> SUSPEND C" "0 \<noteq> ERESTART C"
    using assms(3) by (auto simp: codes_apart_def)
  ultimately show ?thesis
    using assms(1,4-6)
    by (simp add: chardriver_process_def IS_CDEV_RQ_def chardriver_get_minor_def is_open_dev_def opened_def
        set_open_dev_def dispatch_def run_request_def do_open_def clipboard_tab_def on_driver_def
        clipboard_open_def call_hook_def chardriver_reply_def send_reply_def emit_def the_driver_def OK_def)
qed

text \<open>\<open>main\<close> up to the first open, whatever the start.\<close>

lemma main_opened:
  assumes init: "sef_cb_init S ty d s = Inr (r, e, s')"
    and "devs \<noteq> []" and "codes_apart C" and "m_type m = CDEV_OPEN" and "oc_minor m = 0" and "\<not> is_ipc_notify ips"
  shows "\<exists>st. clipboard_main S ty C (clipboard_tab cf ct rj wj) [Received m ips] devs d s = Inr st
    \<and> is_open_dev 0 st \<and> the_driver st = e
    \<and> sent st = [(m_source m, CDEV_REPLY OK (oc_id m), if call_sendrec ips then ipc_sendnb else asynsend3)]"
proof -
  let ?st = "\<lparr>running = True, open_devs = devs, next_open_devs_slot = 0, sent = [], priv = \<lparr>drv = e, copied = []\<rparr>\<rparr>"
  obtain t where "chardriver_process C (clipboard_tab cf ct rj wj) m ips ?st = Inr t" "is_open_dev 0 t" "the_driver t = e"
      "sent t = [(m_source m, CDEV_REPLY OK (oc_id m), if call_sendrec ips then ipc_sendnb else asynsend3)]"
    using open_again [where st = ?st and cf = cf and ct = ct and rj = rj and wj = wj, OF _ _ assms(3-6)] assms(2)
    by (auto simp: the_driver_def)
  with init show ?thesis by (simp add: clipboard_main_def chardriver_task_def)
qed

end
