(* ===== verification/Served_Calls.thy ===== *)
theory Served_Calls
  imports Served_Port
begin

text \<open>
  The system calls of a process as messages to the task, the open and the close of the device among them, also while
  the task has not opened its device: which steps of a copy or a paste are then made, and which get no answer.
\<close>

section \<open>Opening and closing the device\<close>

definition control :: "m_type \<Rightarrow> message \<Rightarrow> message" where
  "control ty m = m\<lparr>m_type := ty, oc_minor := 0\<rparr>"

definition served_control ::
  "codes \<Rightarrow> circumstances \<Rightarrow> m_type \<Rightarrow> task cdstate \<Rightarrow> (int \<times> task cdstate) cres" where
  "served_control C X ty st =
     (let m = control ty (msg_base X)
      in rbind (chardriver_process C (clipboard_tab (\<lambda>e g n. Inr (fit n [])) (\<lambda>e g bs. OK) (read_var X) (write_var X))
                  m (ipc X) st)
           (\<lambda>t. rbind (receive m st t) (\<lambda>(r, out, t). Inr (r, t))))"

text \<open>
  The system calls of a process, each a message to the task.  An open needs a free file descriptor before it is sent;
  opens and closes have no outcome without an answer, which \<open>control_open\<close> and \<open>control_close\<close> show to come
  wherever they are made.
\<close>

definition served_sys ::
  "codes \<Rightarrow> circumstances \<Rightarrow> (u32 \<Rightarrow> u32 \<Rightarrow> byte) \<Rightarrow> nat \<Rightarrow> u32 \<Rightarrow> task cdstate world sys" where
  "served_sys C X anc limit q =
     (local_sys (served_read C X) (served_write C X) q anc limit)
       \<lparr>sys_open := (\<lambda>mode w.
          if open_files w < limit then
            (case served_control C X CDEV_OPEN (dev w) of
               Inl e \<Rightarrow> (- 1, w)
             | Inr (r, st) \<Rightarrow>
                 if r < 0 then (- 1, w\<lparr>dev := st\<rparr>)
                 else (int (open_files w), \<lparr>dev = st, open_files = Suc (open_files w)\<rparr>))
          else (- 1, w)),
        sys_close := (\<lambda>fd w.
          \<lparr>dev = (case served_control C X CDEV_CLOSE (dev w) of Inl e \<Rightarrow> dev w | Inr (r, st) \<Rightarrow> st),
           open_files = open_files w - 1\<rparr>)\<rparr>"

text \<open>The table of opened devices after an open.\<close>

definition opened_dev :: "'s cdstate \<Rightarrow> 's cdstate" where
  "opened_dev st =
     (if is_open_dev 0 st then st
      else st\<lparr>open_devs := (open_devs st)[next_open_devs_slot st := 0],
              next_open_devs_slot := Suc (next_open_devs_slot st)\<rparr>)"

text \<open>A state between two messages: the device is opened, or no device has been opened yet.\<close>

definition ready :: "codes \<Rightarrow> circumstances \<Rightarrow> task cdstate \<Rightarrow> bool" where
  "ready C X st \<longleftrightarrow>
     codes_apart C \<and> \<not> is_ipc_notify (ipc X) \<and> task_inv (the_driver st)
     \<and> (is_open_dev 0 st \<or> next_open_devs_slot st = 0 \<and> open_devs st \<noteq> [])"

lemma ready_serving: "ready C X st \<Longrightarrow> is_open_dev 0 st \<Longrightarrow> serving C X st"
  by (simp add: ready_def serving_def)

lemma serving_ready: "serving C X st \<Longrightarrow> ready C X st \<and> is_open_dev 0 st"
  by (simp add: ready_def serving_def)

lemma the_driver_opened [simp]: "the_driver (opened_dev st) = the_driver st"
  by (simp add: opened_dev_def the_driver_def)

lemma put_opened [simp]: "put_driver (the_driver st) (opened_dev st) = opened_dev st"
  using put_driver(2) [of "opened_dev st"] by simp

lemma opened_open [simp]: "is_open_dev 0 st \<Longrightarrow> opened_dev st = st"
  by (simp add: opened_dev_def)

lemma opened_serving: "ready C X st \<Longrightarrow> serving C X (opened_dev st)"
  by (cases "open_devs st")
    (auto simp: ready_def serving_def opened_dev_def is_open_dev_def opened_def the_driver_def)

lemma control_simps [simp]:
  "m_type (control ty m) = ty" "oc_minor (control ty m) = 0" "m_source (control ty m) = m_source m"
  "oc_id (control ty m) = oc_id m"
  by (simp_all add: control_def)

lemma open_hook:
  "do_open C (clipboard_tab cf ct rj wj) m st = Inr (OK, st)"
  "do_close (clipboard_tab cf ct rj wj) m st = Inr (OK, st)"
  by (simp_all add: do_open_def do_close_def clipboard_tab_def call_hook_def on_driver_def clipboard_open_def
      clipboard_close_def OK_def)

lemma answered_ok:
  assumes "codes_apart C" and "m_type m \<in> {CDEV_OPEN, CDEV_CLOSE}" and "sent t = sent st" and "priv t = priv st"
  shows "rbind (chardriver_reply C m ips OK t) (\<lambda>t. rbind (receive m st t) (\<lambda>(r, out, t). Inr (r, t))) = Inr (OK, t)"
proof -
  have "OK \<noteq> EDONTREPLY C" "OK \<noteq> SUSPEND C" "OK \<noteq> ERESTART C"
    using assms(1) by (auto simp: codes_apart_def OK_def)
  moreover have "t\<lparr>sent := sent st, priv := (priv st)\<lparr>copied := copied (priv st)\<rparr>\<rparr> = t"
    unfolding assms(3,4) [symmetric] by (cases t; cases "priv t") simp
  ultimately show ?thesis
    using assms(2-4)
    by (auto simp: chardriver_reply_def send_reply_def emit_def receive_def request_id_def)
qed

lemma control_open:
  assumes "ready C X st"
  shows "served_control C X CDEV_OPEN st = Inr (OK, opened_dev st)"
proof (cases "is_open_dev 0 st")
  case True
  let ?m = "control CDEV_OPEN (msg_base X)"
  have "chardriver_process C (clipboard_tab cf ct rj wj) ?m (ipc X) st = chardriver_reply C ?m (ipc X) OK st" for cf ct rj wj
    using assms True
    by (simp add: ready_def chardriver_process_def IS_CDEV_RQ_def chardriver_get_minor_def dispatch_def run_request_def open_hook)
  with answered_ok [of C ?m st st "ipc X"] assms True show ?thesis
    by (simp add: served_control_def ready_def)
next
  case False
  let ?m = "control CDEV_OPEN (msg_base X)"
  have "set_open_dev 0 st = Inr (opened_dev st)"
    using assms False by (auto simp: ready_def set_open_dev_def opened_dev_def)
  then have "chardriver_process C (clipboard_tab cf ct rj wj) ?m (ipc X) st = chardriver_reply C ?m (ipc X) OK (opened_dev st)"
    for cf ct rj wj
    using assms False
    by (simp add: ready_def chardriver_process_def IS_CDEV_RQ_def chardriver_get_minor_def dispatch_def run_request_def open_hook)
  with answered_ok [of C ?m "opened_dev st" st "ipc X"] assms False show ?thesis
    by (simp add: served_control_def ready_def opened_dev_def)
qed

lemma control_close:
  assumes "serving C X st"
  shows "served_control C X CDEV_CLOSE st = Inr (OK, st)"
proof -
  let ?m = "control CDEV_CLOSE (msg_base X)"
  have "chardriver_process C (clipboard_tab cf ct rj wj) ?m (ipc X) st = chardriver_reply C ?m (ipc X) OK st" for cf ct rj wj
    using assms
    by (simp add: serving_def chardriver_process_def IS_CDEV_RQ_def chardriver_get_minor_def dispatch_def run_request_def open_hook)
  with answered_ok [of C ?m st st "ipc X"] assms show ?thesis
    by (simp add: served_control_def serving_def)
qed

section \<open>The system calls where they are answered\<close>

text \<open>Without an opened device a request of a call that is running is not answered.\<close>

fun waits :: "point \<Rightarrow> bool" where
  "waits (Asking fd) \<longleftrightarrow> True"
| "waits (Locking fd) \<longleftrightarrow> True"
| "waits (Taking fd) \<longleftrightarrow> True"
| "waits _ \<longleftrightarrow> False"

lemma faults_wait: "paste_step sys i n (l, b, w) = Inl e \<Longrightarrow> waits l"
  by (cases l) (auto simp: Let_def split: if_splits prod.splits)

text \<open>The world after an open that finds a free descriptor.\<close>

definition entered :: "nat \<Rightarrow> task cdstate world \<Rightarrow> task cdstate world" where
  "entered limit w = (if open_files w < limit then w\<lparr>dev := opened_dev (dev w)\<rparr> else w)"

lemma served_sys_simps [simp]:
  "sys_read (served_sys C X anc limit q) = sys_read (local_sys (served_read C X) (served_write C X) q anc limit)"
  "sys_write (served_sys C X anc limit q) = sys_write (local_sys (served_read C X) (served_write C X) q anc limit)"
  "sys_getpid (served_sys C X anc limit q) = q" "sys_ancestor (served_sys C X anc limit q) = anc"
  by (simp_all add: served_sys_def local_sys_def)

lemma served_open:
  "ready C X (dev w) \<Longrightarrow> sys_open (served_sys C X anc limit q) mode w =
    (if open_files w < limit then (int (open_files w), \<lparr>dev = opened_dev (dev w), open_files = Suc (open_files w)\<rparr>)
     else (- 1, w))"
  by (simp add: served_sys_def control_open OK_def)

lemma served_close:
  "serving C X (dev w) \<Longrightarrow> sys_close (served_sys C X anc limit q) fd w = w\<lparr>open_files := open_files w - 1\<rparr>"
  by (simp add: served_sys_def control_close)

lemma not_open:
  assumes "ready C X st" and "\<not> is_open_dev 0 st"
  shows "served_read C X sz st = Inl Blocked" and "served_write C X bs st = Inl Blocked"
  using assms unopened_blocks by (simp_all add: ready_def)

lemma blocked_step:
  assumes "ready C X (dev w)" and "\<not> is_open_dev 0 (dev w)" and "waits l"
  shows "paste_step (served_sys C X anc limit q) i n (l, b, w) = Inl Blocked"
  using assms not_open [OF assms(1,2)] by (cases l) (simp_all add: local_sys_def)

text \<open>On an opened device these are the system calls of theory \<open>Client\<close>.\<close>

lemma step_local:
  assumes w: "serving C X (dev w)" and i: "named i l"
  shows "paste_step (served_sys C X anc limit q) i n (l, b, w) =
    paste_step (local_sys (served_read C X) (served_write C X) q anc limit) i n (l, b, w)"
proof (cases l)
  case Opening
  have "ready C X (dev w)" "is_open_dev 0 (dev w)" using serving_ready [OF w] by simp_all
  with Opening show ?thesis by (auto simp: served_open local_sys_def)
next
  case (Taking fd)
  show ?thesis
  proof (cases "served_read C X (ENCODE_PID q) (dev w)")
    case (Inl e)
    with Taking show ?thesis by (simp add: local_sys_def)
  next
    case (Inr x)
    obtain r out st where x: "x = (r, out, st)" by (cases x)
    have "serving C X st"
      using Inr x task.read_law [OF w, of "ENCODE_PID q"] task.read_sound [OF w, of "ENCODE_PID q"]
      by (auto simp: rbind_eq_Inr)
    with Taking Inr x show ?thesis by (simp add: local_sys_def served_close Let_def)
  qed
qed (simp_all add: local_sys_def)

section \<open>Copies and steps on the device\<close>

lemma served_copy:
  assumes w: "ready C X (dev w)" and q: "0 \<le> sint q" and junk: "length junk = ENTRY_LEN_LIMIT"
  shows "copy_to_clipboard (served_sys C X anc limit q) junk b n w =
    rbind (copy_to_clipboard (local_sys (port_read (read_var X)) (port_write (write_var X)) q anc limit) junk b n
        (lower_world the_driver w))
      (\<lambda>(r, v). Inr (r, raise_world put_driver (if unat n \<le> ENTRY_LEN_LIMIT then entered limit w else w) v))"
proof (cases "unat n \<le> ENTRY_LEN_LIMIT \<and> open_files w < limit \<and> unat n \<le> length b")
  case False
  with w show ?thesis
    by (auto simp: copy_to_clipboard_def served_open entered_def local_sys_def raise_world_def rbind_def
        split: sum.splits)
next
  case True
  show ?thesis
  proof (cases "expected_decompressed_size b n")
    case (Inl e)
    with True w show ?thesis by (simp add: copy_to_clipboard_def served_open local_sys_def)
  next
    case (Inr k)
    let ?m = "\<lparr>s_pid = q, s_buffer_len = n, s_decompressed_len = k,
      s_buffer = overwrite 0 (take (unat n) b) junk\<rparr>"
    have m: "sane_set ?m" "0 \<le> sint (s_pid ?m)" using True junk q by (simp_all add: sane_set_def)
    note set = task.set_law [OF opened_serving [OF w] m] task.set_sound [OF opened_serving [OF w] m]
    from set True Inr w show ?thesis
      by (cases "port_write (write_var X) (set_bytes ?m) (the_driver (dev w))")
        (auto simp: copy_to_clipboard_def served_open served_close entered_def local_sys_def raise_world_def)
  qed
qed

lemma served_copy_ready:
  assumes w: "ready C X (dev w)" and q: "0 \<le> sint q" and junk: "length junk = ENTRY_LEN_LIMIT"
    and c: "copy_to_clipboard (local_sys (port_read (read_var X)) (port_write (write_var X)) q anc limit) junk b n
        (lower_world the_driver w) = Inr (r, v)"
  shows "ready C X (put_driver (dev v) (dev (if unat n \<le> ENTRY_LEN_LIMIT then entered limit w else w)))"
proof (cases "unat n \<le> ENTRY_LEN_LIMIT \<and> open_files w < limit")
  case True
  let ?w = "w\<lparr>dev := opened_dev (dev w)\<rparr>"
  have "serving C X (dev ?w)" using opened_serving [OF w] by simp
  from task.copy_sound [OF this q junk, where b = b and n = n and anc = anc and limit = limit] c True
  show ?thesis using serving_ready by (auto simp: entered_def lower_world_def)
next
  case False
  with c have "v = lower_world the_driver w" by (auto simp: copy_to_clipboard_def local_sys_def split: if_splits)
  with False w show ?thesis by (auto simp: entered_def)
qed

text \<open>A step is answered unless it waits for a device that is not opened.\<close>

lemma served_step:
  assumes w: "ready C X (dev w)" and i: "named i l" and l: "is_open_dev 0 (dev w) \<or> \<not> waits l"
  shows "paste_step (served_sys C X anc limit q) i n (l, b, w) =
    rbind (paste_step (local_sys (port_read (read_var X)) (port_write (write_var X)) q anc limit) i n
        (l, b, lower_world the_driver w))
      (\<lambda>(l', b', v). Inr (l', b', raise_world put_driver (if l = Opening then entered limit w else w) v))"
proof (cases "is_open_dev 0 (dev w)")
  case True
  note s = ready_serving [OF w True]
  have "\<And>fd. l = Locking fd \<Longrightarrow> unat i < BUF_MAX_COUNT" using i named_Locking by simp
  from task.step_carried [OF s this, where b = b and n = n and anc = anc and limit = limit and q = q] True
  show ?thesis by (simp add: step_local [OF s i] entered_def)
next
  case False
  with l w show ?thesis
    by (cases l) (auto simp: served_open local_sys_def entered_def raise_world_def)
qed

lemma served_step_ready:
  assumes w: "ready C X (dev w)" and i: "named i l" and l: "is_open_dev 0 (dev w) \<or> \<not> waits l"
    and p: "paste_step (local_sys (port_read (read_var X)) (port_write (write_var X)) q anc limit) i n
        (l, b, lower_world the_driver w) = Inr (l', b', v)"
  shows "ready C X (put_driver (dev v) (dev (if l = Opening then entered limit w else w)))"
proof (cases "is_open_dev 0 (dev w)")
  case True
  note s = ready_serving [OF w True]
  have "\<And>fd. l = Locking fd \<Longrightarrow> unat i < BUF_MAX_COUNT" using i named_Locking by simp
  from task.step_sound [OF s this p] True serving_ready show ?thesis by (simp add: entered_def)
next
  case False
  with l p have v: "dev v = the_driver (dev w)"
    by (cases l) (auto simp: local_sys_def split: if_splits)
  with v w serving_ready [OF opened_serving [OF w]] show ?thesis by (simp add: entered_def)
qed

section \<open>A paste while the device stays opened\<close>

lemma steps_local:
  assumes "serving C X (dev w)" and "named i l"
  shows "paste_steps k (served_sys C X anc limit q) i n (l, b, w) =
    paste_steps k (local_sys (served_read C X) (served_write C X) q anc limit) i n (l, b, w)"
  using assms
proof (induction k arbitrary: l b w)
  case (Suc k)
  let ?step = "paste_step (local_sys (served_read C X) (served_write C X) q anc limit) i n (l, b, w)"
  show ?case
  proof (cases ?step)
    case (Inl e)
    with step_local [OF Suc.prems] show ?thesis by simp
  next
    case (Inr x)
    obtain l1 b1 w1 where x: "x = (l1, b1, w1)" by (cases x)
    have i: "\<And>fd. l = Locking fd \<Longrightarrow> unat i < BUF_MAX_COUNT" using Suc.prems(2) named_Locking by simp
    have "serving C X (dev w1)"
      using task.step_carried [OF Suc.prems(1) i, where b = b and n = n and anc = anc and limit = limit and q = q]
        task.step_sound [OF Suc.prems(1) i, where b = b and n = n and anc = anc and limit = limit and q = q] Inr x
      by (auto simp: rbind_eq_Inr)
    from Suc.IH [OF this named_step [OF Suc.prems(2) Inr [unfolded x]]] Inr x step_local [OF Suc.prems]
    show ?thesis by simp
  qed
qed simp

lemma served_paste:
  assumes "serving C X (dev w)"
  shows "paste_from_clipboard (served_sys C X anc limit q) i b n w =
    rbind (paste_from_clipboard (local_sys (port_read (read_var X)) (port_write (write_var X)) q anc limit) i b n
        (lower_world the_driver w))
      (\<lambda>(r, b, v). Inr (r, b, raise_world put_driver w v))"
proof -
  let ?S = "served_sys C X anc limit q" and ?L = "local_sys (served_read C X) (served_write C X) q anc limit"
  have "named i Opening" by (simp add: named_def)
  from steps_local [OF assms this, where k = 5 and n = n and b = b and anc = anc and limit = limit and q = q]
  have "paste_from_clipboard ?S i b n w = paste_from_clipboard ?L i b n w"
    unfolding paste_steps_function
    by (cases "paste_from_clipboard ?S i b n w"; cases "paste_from_clipboard ?L i b n w") auto
  with task.paste_carried [OF assms, where anc = anc and limit = limit and q = q and i = i and b = b and n = n]
  show ?thesis by simp
qed

section \<open>Moves of processes on the task and on the driver\<close>

definition config_ready :: "codes \<Rightarrow> circumstances \<Rightarrow> task cdstate config \<Rightarrow> bool" where
  "config_ready C X c \<longleftrightarrow> ready C X (shared c) \<and> (\<forall>q. named (arg_id (procs c q)) (pc (procs c q)))"

lemma config_moved:
  assumes "config_ready C X c" and "ready C X (dev w)" and "named (arg_id p) (pc p)"
  shows "config_ready C X (moved q p w c)"
  using assms by (simp add: config_ready_def)

lemma lowered_moved:
  "lowered the_driver (moved q p (raise_world put_driver w v) c) = moved q p v (lowered the_driver c)"
  by (simp add: lowered_def moved_def raise_world_def)

lemma lowered_call:
  "lowered the_driver (moved q p (view c q) c) = moved q p (view (lowered the_driver c) q) (lowered the_driver c)"
  by (simp add: lowered_def moved_def view_def)

lemma served_lowered:
  assumes ok: "config_ready C X c" and q: "0 \<le> sint q"
    and m: "moves (served_sys C X anc limit) q c c'"
  shows "moves (\<lambda>q. local_sys (port_read (read_var X)) (port_write (write_var X)) q anc limit) q
      (lowered the_driver c) (lowered the_driver c')
    \<and> config_ready C X c' \<and> (is_open_dev 0 (shared c) \<or> \<not> waits (pc (procs c q)))"
    (is "moves ?L _ _ _ \<and> _")
  using m
proof cases
  case (call_paste p r b n i)
  let ?p = "p\<lparr>pc := Opening, arg_id := i, arg_len := n, pbuf := b\<rparr>"
  have "moves ?L q (lowered the_driver c) (moved q ?p (view (lowered the_driver c) q) (lowered the_driver c))"
    by (rule moves.call_paste [OF _ call_paste(3)]) (use call_paste(2) in simp)
  moreover have "config_ready C X c'"
    unfolding call_paste(1) by (rule config_moved [OF ok]) (use ok in \<open>simp_all add: config_ready_def named_def\<close>)
  ultimately show ?thesis using call_paste by (simp add: lowered_call)
next
  case (step_paste p l b w)
  have s: "ready C X (dev (view c q))" and n: "named (arg_id p) (pc p)"
    using ok step_paste(3) by (auto simp: config_ready_def)
  have answered: "is_open_dev 0 (dev (view c q)) \<or> \<not> waits (pc p)"
    using blocked_step [OF s] step_paste(5) by fastforce
  note step = served_step [OF s n answered, where b = "pbuf p" and n = "arg_len p" and anc = anc and limit = limit and q = q]
  let ?w = "if pc p = Opening then entered limit (view c q) else view c q"
  obtain v where v: "paste_step (?L q) (arg_id p) (arg_len p) (pc p, pbuf p, lower_world the_driver (view c q)) =
      Inr (l, b, v)" "w = raise_world put_driver ?w v"
    using step_paste(5) step by (auto simp: rbind_eq_Inr)
  have "moves ?L q (lowered the_driver c) (moved q (p\<lparr>pc := l, pbuf := b\<rparr>) v (lowered the_driver c))"
    by (rule moves.step_paste [OF q _ step_paste(4)]) (use step_paste(3) v(1) in \<open>simp_all add: task.lower_view\<close>)
  moreover have "config_ready C X c'"
    unfolding step_paste(1) v(2)
    by (rule config_moved [OF ok])
      (use served_step_ready [OF s n answered v(1)] named_step [OF n step_paste(5)] in simp_all)
  ultimately show ?thesis using answered step_paste(3) unfolding step_paste(1) v(2) lowered_moved by simp
next
  case (call_copy p r junk b n r' w)
  have s: "ready C X (dev (view c q))" using ok by (simp add: config_ready_def)
  let ?w = "if unat n \<le> ENTRY_LEN_LIMIT then entered limit (view c q) else view c q"
  obtain v where v: "copy_to_clipboard (?L q) junk b n (lower_world the_driver (view c q)) = Inr (r', v)"
      "w = raise_world put_driver ?w v"
    using call_copy(5) unfolding served_copy [OF s q call_copy(4)] by (auto simp: rbind_eq_Inr)
  have "moves ?L q (lowered the_driver c) (moved q (p\<lparr>pc := Returned r'\<rparr>) v (lowered the_driver c))"
    by (rule moves.call_copy [OF _ call_copy(3,4)]) (use call_copy(2) v(1) in \<open>simp_all add: task.lower_view\<close>)
  moreover have "config_ready C X c'"
    unfolding call_copy(1) v(2)
    by (rule config_moved [OF ok]) (use served_copy_ready [OF s q call_copy(4) v(1)] in \<open>simp_all add: named_def\<close>)
  ultimately show ?thesis using call_copy(2,3) unfolding call_copy(1) v(2) lowered_moved by simp
qed

lemma served_raised:
  assumes ok: "config_ready C X c" and q: "0 \<le> sint q"
    and m: "moves (\<lambda>q. local_sys (port_read (read_var X)) (port_write (write_var X)) q anc limit) q
      (lowered the_driver c) d" (is "moves ?L _ _ _")
    and answered: "is_open_dev 0 (shared c) \<or> \<not> waits (pc (procs c q))"
  shows "\<exists>c'. moves (served_sys C X anc limit) q c c' \<and> lowered the_driver c' = d"
  using m
proof cases
  case (call_paste p r b n i)
  have "moves (served_sys C X anc limit) q c
      (moved q (p\<lparr>pc := Opening, arg_id := i, arg_len := n, pbuf := b\<rparr>) (view c q) c)"
    by (rule moves.call_paste [OF _ call_paste(3)]) (use call_paste(2) in simp)
  then show ?thesis using call_paste(1) lowered_call by metis
next
  case (step_paste p l b w)
  have s: "ready C X (dev (view c q))" and n: "named (arg_id p) (pc p)"
    and a: "is_open_dev 0 (dev (view c q)) \<or> \<not> waits (pc p)"
    using ok answered step_paste(3) by (auto simp: config_ready_def)
  let ?w = "if pc p = Opening then entered limit (view c q) else view c q"
  have "paste_step (served_sys C X anc limit q) (arg_id p) (arg_len p) (pc p, pbuf p, view c q) =
      Inr (l, b, raise_world put_driver ?w w)"
    using served_step [OF s n a, where b = "pbuf p" and n = "arg_len p" and anc = anc and limit = limit and q = q]
      step_paste(5) by (simp add: task.lower_view)
  then have "moves (served_sys C X anc limit) q c (moved q (p\<lparr>pc := l, pbuf := b\<rparr>) (raise_world put_driver ?w w) c)"
    by (intro moves.step_paste [OF q _ step_paste(4)]) (use step_paste(3) in simp_all)
  then show ?thesis using lowered_moved step_paste(1) by metis
next
  case (call_copy p r junk b n r' w)
  have s: "ready C X (dev (view c q))" using ok by (simp add: config_ready_def)
  let ?w = "if unat n \<le> ENTRY_LEN_LIMIT then entered limit (view c q) else view c q"
  have "copy_to_clipboard (served_sys C X anc limit q) junk b n (view c q) = Inr (r', raise_world put_driver ?w w)"
    using served_copy [OF s q call_copy(4), where anc = anc and limit = limit and b = b and n = n] call_copy(5)
    by (simp add: task.lower_view)
  then have "moves (served_sys C X anc limit) q c (moved q (p\<lparr>pc := Returned r'\<rparr>) (raise_world put_driver ?w w) c)"
    by (intro moves.call_copy [OF _ call_copy(3,4)]) (use call_copy(2) in simp_all)
  then show ?thesis using lowered_moved call_copy(1) by metis
qed

end
