(* ===== verification/Hello.thy ===== *)
theory Hello
  imports Chardriver
begin

text \<open>
  The example driver \<open>drivers/examples/hello/hello.c\<close>, a second client of the framework: it counts
  its opens and serves a constant text for reading.  The text \<open>HELLO_MESSAGE\<close> comes from a header
  of the system and is a parameter; the data store is the record \<open>ds_u32\<close>.
\<close>

section \<open>The hooks\<close>

definition hello_open :: "u32 \<Rightarrow> int \<Rightarrow> u32 \<Rightarrow> int \<Rightarrow> (int \<times> int) cres" where
  "hello_open minor access user_endpt open_counter =
     (if open_counter = 2 ^ 31 - 1 then Inl Signed_Overflow else Inr (0, open_counter + 1))"

definition hello_close :: "u32 \<Rightarrow> int \<Rightarrow> (int \<times> int) cres" where
  "hello_close minor open_counter = Inr (0, open_counter)"

text \<open>The second component of the result is what was copied to the caller.\<close>

definition hello_read ::
  "(u32 \<Rightarrow> u32 \<Rightarrow> byte list \<Rightarrow> int) \<Rightarrow> byte list \<Rightarrow> 64 word \<Rightarrow> u32 \<Rightarrow> u32 \<Rightarrow> u32 \<Rightarrow> int \<times> byte list" where
  "hello_read copyto buf position endpt grant sz =
     (let dev_size = of_nat (length buf)
      in if dev_size \<le> position then (0, [])
         else let sz = (if dev_size < position + ucast sz then ucast (dev_size - position) else sz);
                  ptr = drop (unat position) buf;
                  ret = copyto endpt grant (take (unat sz) ptr)
              in if ret \<noteq> 0 then (ret, []) else (sint sz, take (unat sz) ptr))"

definition hello_tab :: "(u32 \<Rightarrow> u32 \<Rightarrow> byte list \<Rightarrow> int) \<Rightarrow> byte list \<Rightarrow> int chardriver" where
  "hello_tab copyto buf =
     \<lparr>cdr_open = Some hello_open,
      cdr_close = Some hello_close,
      cdr_read = Some (\<lambda>minor position endpt grant sz flags i open_counter.
        Inr (fst (hello_read copyto buf position endpt grant sz), open_counter)),
      cdr_write = None, cdr_ioctl = None, cdr_cancel = None, cdr_select = None,
      cdr_intr = None, cdr_alarm = None, cdr_other = None\<rparr>"

section \<open>Start and live update\<close>

record 'd ds_u32 =
  ds_publish_u32 :: "string \<Rightarrow> u32 \<Rightarrow> 'd \<Rightarrow> 'd"
  ds_retrieve_u32 :: "string \<Rightarrow> 'd \<Rightarrow> u32 option"
  ds_delete_u32 :: "string \<Rightarrow> 'd \<Rightarrow> 'd"

definition hello_lu_state_save :: "'d ds_u32 \<Rightarrow> int \<Rightarrow> 'd \<Rightarrow> int \<times> 'd" where
  "hello_lu_state_save S open_counter s =
     (0, ds_publish_u32 S ''open_counter'' (word_of_int open_counter) s)"

text \<open>If the value is missing the variable \<open>value\<close> keeps what it held, \<open>junk\<close>.\<close>

definition hello_lu_state_restore :: "'d ds_u32 \<Rightarrow> u32 \<Rightarrow> 'd \<Rightarrow> int \<times> 'd" where
  "hello_lu_state_restore S junk s =
     (let v = (case ds_retrieve_u32 S ''open_counter'' s of None \<Rightarrow> junk | Some v \<Rightarrow> v)
      in (sint v, ds_delete_u32 S ''open_counter'' s))"

definition hello_cb_init ::
  "codes \<Rightarrow> announce_sys \<Rightarrow> 'd ds_u32 \<Rightarrow> u32 \<Rightarrow> init_type \<Rightarrow> int cdstate \<Rightarrow> 'd \<Rightarrow> (int cdstate \<times> 'd) cres" where
  "hello_cb_init C A S junk ty st s =
     (let do_announce_driver = (ty \<noteq> SEF_INIT_LU);
          st = st\<lparr>priv := 0\<rparr>;
          (st, s) = (if ty = SEF_INIT_LU
            then let (v, s) = hello_lu_state_restore S junk s in (st\<lparr>priv := v\<rparr>, s) else (st, s))
      in rbind (if do_announce_driver then chardriver_announce C A st else Inr st) (\<lambda>st. Inr (st, s)))"

text \<open>The callbacks that \<open>sef_local_startup\<close> registers, and the main program after a start of the given kind.\<close>

record 'd hello_callbacks =
  hc_init_fresh :: "int cdstate \<Rightarrow> 'd \<Rightarrow> (int cdstate \<times> 'd) cres"
  hc_init_lu :: "int cdstate \<Rightarrow> 'd \<Rightarrow> (int cdstate \<times> 'd) cres"
  hc_init_restart :: "int cdstate \<Rightarrow> 'd \<Rightarrow> (int cdstate \<times> 'd) cres"
  hc_lu_state_save :: "int \<Rightarrow> 'd \<Rightarrow> int \<times> 'd"

definition hello_local_startup ::
  "codes \<Rightarrow> announce_sys \<Rightarrow> 'd ds_u32 \<Rightarrow> u32 \<Rightarrow> 'd hello_callbacks" where
  "hello_local_startup C A S junk =
     \<lparr>hc_init_fresh = hello_cb_init C A S junk SEF_INIT_FRESH,
      hc_init_lu = hello_cb_init C A S junk SEF_INIT_LU,
      hc_init_restart = hello_cb_init C A S junk SEF_INIT_RESTART,
      hc_lu_state_save = hello_lu_state_save S\<rparr>"

definition hello_main ::
  "codes \<Rightarrow> announce_sys \<Rightarrow> 'd ds_u32 \<Rightarrow> u32 \<Rightarrow> init_type \<Rightarrow> (u32 \<Rightarrow> u32 \<Rightarrow> byte list \<Rightarrow> int) \<Rightarrow> byte list
    \<Rightarrow> event list \<Rightarrow> int cdstate \<Rightarrow> 'd \<Rightarrow> int cdstate cres" where
  "hello_main C A S junk ty copyto buf evs st s =
     (let cb = hello_local_startup C A S junk
      in rbind (case ty of SEF_INIT_FRESH \<Rightarrow> hc_init_fresh cb st s | SEF_INIT_LU \<Rightarrow> hc_init_lu cb st s
           | SEF_INIT_RESTART \<Rightarrow> hc_init_restart cb st s)
         (\<lambda>(st, s). chardriver_task C (hello_tab copyto buf) evs st))"

section \<open>Reading\<close>

lemma ucast64: "unat (ucast (w :: u32) :: 64 word) = unat w"
proof -
  have "unat w < 2 ^ 64" using unsigned_less [of w, where 'a = nat] by simp
  then show ?thesis by (simp add: unsigned_ucast_eq take_bit_nat_eq_self)
qed

lemma hello_read_bytes:
  assumes len: "length buf < 2 ^ 31" and ok: "\<And>bs. copyto e g bs = 0"
  shows "hello_read copyto buf pos e g sz =
    (int (length (take (unat sz) (drop (unat pos) buf))), take (unat sz) (drop (unat pos) buf))"
proof -
  let ?n = "of_nat (length buf) :: 64 word"
  have n: "unat ?n = length buf" using len by (simp add: unat_of_nat take_bit_nat_eq_self)
  show ?thesis
  proof (cases "?n \<le> pos")
    case True
    then have "length buf \<le> unat pos" using n by (simp add: word_le_nat_alt)
    with True show ?thesis by (simp add: hello_read_def)
  next
    case False
    then have lt: "unat pos < length buf" using n by (simp add: word_le_nat_alt)
    have sum: "unat (pos + ucast sz) = unat pos + unat sz"
    proof -
      have "unat pos + unat sz < 2 ^ 64"
        using lt len unsigned_less [of sz, where 'a = nat] by simp
      then show ?thesis by (simp add: unat_word_ariths ucast64)
    qed
    have lim: "?n < pos + ucast sz \<longleftrightarrow> length buf < unat pos + unat sz"
      by (simp add: word_less_nat_alt n sum)
    have "unat (?n - pos) = length buf - unat pos"
      using lt n by (simp add: unat_sub word_le_nat_alt)
    then have diff: "unat (ucast (?n - pos) :: u32) = length buf - unat pos"
      using len by (simp add: unsigned_ucast_eq take_bit_nat_eq_self)
    let ?sz = "if ?n < pos + ucast sz then ucast (?n - pos) else sz"
    have sz: "unat ?sz = length (take (unat sz) (drop (unat pos) buf))"
      using lim diff by auto
    then have "take (unat ?sz) (drop (unat pos) buf) = take (unat sz) (drop (unat pos) buf)"
      by (metis append_eq_conv_conj append_take_drop_id)
    moreover have "sint ?sz = int (unat ?sz)"
      by (rule sint_eq_unat) (use sz len in simp)
    ultimately show ?thesis
      using False sz unfolding hello_read_def Let_def by (simp add: ok)
  qed
qed

text \<open>A caller that reads chunks of \<open>sz\<close> bytes until it gets none, in at most \<open>fuel\<close> reads.\<close>

fun hello_cat :: "nat \<Rightarrow> (u32 \<Rightarrow> u32 \<Rightarrow> byte list \<Rightarrow> int) \<Rightarrow> byte list \<Rightarrow> u32 \<Rightarrow> u32 \<Rightarrow> u32 \<Rightarrow> 64 word \<Rightarrow> byte list" where
  "hello_cat 0 copyto buf e g sz pos = []"
| "hello_cat (Suc fuel) copyto buf e g sz pos =
     (case hello_read copyto buf pos e g sz of (r, bs) \<Rightarrow>
        if r \<le> 0 then [] else bs @ hello_cat fuel copyto buf e g sz (pos + word_of_int r))"

lemma hello_cat_drop:
  assumes "length buf < 2 ^ 31" and "\<And>bs. copyto e g bs = 0" and "0 < unat sz"
  shows "k \<le> length buf \<Longrightarrow> length buf - k \<le> fuel \<Longrightarrow>
    hello_cat fuel copyto buf e g sz (of_nat k) = drop k buf"
proof (induction fuel arbitrary: k)
  case 0
  then show ?case by simp
next
  case (Suc fuel)
  have k: "unat (of_nat k :: 64 word) = k"
    using Suc.prems(1) assms(1) by (simp add: unat_of_nat take_bit_nat_eq_self)
  define bs where "bs = take (unat sz) (drop k buf)"
  have read: "hello_read copyto buf (of_nat k) e g sz = (int (length bs), bs)"
    
    using hello_read_bytes [where copyto = copyto and e = e and g = g and pos = "of_nat k" and sz = sz,
        OF assms(1,2)]
    by (simp add: k bs_def)
  have rest: "bs @ drop (k + length bs) buf = drop k buf"
  proof -
    have "bs = take (length bs) (drop k buf)" by (simp add: bs_def min_def)
    moreover have "drop (k + length bs) buf = drop (length bs) (drop k buf)" by (simp add: add.commute)
    ultimately show ?thesis by (metis append_take_drop_id)
  qed
  show ?case
  proof (cases "k = length buf")
    case True
    then show ?thesis using read by (simp add: bs_def)
  next
    case False
    with Suc.prems(1) assms(3) have pos: "0 < length bs" by (simp add: bs_def)
    have "hello_cat fuel copyto buf e g sz (of_nat (k + length bs)) = drop (k + length bs) buf"
      using Suc.prems pos by (intro Suc.IH) (auto simp: bs_def)
    with read pos rest show ?thesis by simp
  qed
qed

end
