(* ===== verification/Update_Theorems.thy ===== *)
theory Update_Theorems
  imports Live_Update Driver_Theorems
begin

text \<open>
  What a live update, an update that is taken back and a restart do to the clipboard.
\<close>

section \<open>A sample data store and the static variable of a new process\<close>

definition map_store :: "(string \<rightharpoonup> blob) ds" where
  "map_store = \<lparr>ds_publish_mem = (\<lambda>k v s. s(k \<mapsto> v)), ds_retrieve_mem = (\<lambda>k s. s k),
     ds_delete_mem = (\<lambda>k s. s(k := None))\<rparr>"

lemma map_store: "ds_laws map_store"
  by (simp add: ds_laws_def map_store_def)

definition new_process :: "nat \<Rightarrow> heap \<Rightarrow> driver" where
  "new_process a h = \<lparr>CLIPBOARD = static_clipboard a, mem = h\<rparr>"

abbreviation stack_of :: "driver \<Rightarrow> bstack" where
  "stack_of d \<equiv> available_entries (CLIPBOARD d)"

lemma update_callbacks:
  assumes "ds_laws S" and "wf_driver d" and "fresh_heap h"
  shows "\<exists>t u t' u'. cb_lu_state_save (sef_local_startup S) d s = Inr (OK, t, u)
    \<and> cb_init_lu (sef_local_startup S) (new_process a h) u = Inr (OK, t', u')
    \<and> restored S d a (avail h) BUF_MAX_COUNT (t', u')"
proof -
  obtain t u where tu: "sef_cb_lu_state_save S d s = Inr (OK, t, u)"
      "ds_retrieve_mem S ''clipboard'' u = Some (Struct (CLIPBOARD d))"
      "\<forall>i\<in>occupied d. ds_retrieve_mem S (buf_name i) u = Some (Bytes (text_of d i))"
    using save_all [OF assms(1,2)] by blast
  obtain t' u' where "lu_state_restore S (new_process a h) u = Inr (OK, t', u')"
      "restored S d a (avail h) BUF_MAX_COUNT (t', u')"
    unfolding new_process_def using restore_all [OF assms tu(2,3), of a] by blast
  with tu(1) show ?thesis by (simp add: sef_local_startup_def sef_cb_init_def)
qed

section \<open>Updates\<close>

text \<open>C15: A live update into a process whose static variables lie where the old process had them preserves
  the clipboard: saving and restoring succeed, every text, length, owner and lock is as before, and the new
  state is well-formed.\<close>

theorem live_update_preserves:
  assumes "ds_laws S" and "wf_driver d" and "fresh_heap h"
  shows "\<exists>t u t' u'. cb_lu_state_save (sef_local_startup S) d s = Inr (OK, t, u)
    \<and> cb_init_lu (sef_local_startup S) (new_process (base (stack_of d)) h) u = Inr (OK, t', u')
    \<and> wf_driver t' \<and> board_of t' = board_of d"
proof -
  have n: "BUF_MAX_COUNT * ENTRY_LEN_LIMIT \<le> avail h" using assms(3) by (simp add: fresh_heap_def)
  obtain t u t' u' where "cb_lu_state_save (sef_local_startup S) d s = Inr (OK, t, u)"
      "cb_init_lu (sef_local_startup S) (new_process (base (stack_of d)) h) u = Inr (OK, t', u')"
      "restored S d (base (stack_of d)) (avail h) BUF_MAX_COUNT (t', u')"
    using update_callbacks [OF assms, of s "base (stack_of d)"] by blast
  with restored_same_place [OF assms(2) this(3) n] show ?thesis by blast
qed

theorem live_update_preserves_witness:
  "\<exists>i d t u t' u'. board_of d = [i \<mapsto> (new_item sample_set)\<lparr>holder := Some 9\<rparr>]
    \<and> sef_cb_lu_state_save map_store d Map.empty = Inr (OK, t, u)
    \<and> sef_cb_init map_store SEF_INIT_LU (new_process (base (stack_of d)) sample_heap) u = Inr (OK, t', u')
    \<and> board_of t' = board_of d"
proof -
  obtain i d where d: "wf_driver d" "board_of d = [i \<mapsto> (new_item sample_set)\<lparr>holder := Some 9\<rparr>]"
    using sample_locked by blast
  from live_update_preserves [OF map_store d(1) sample_heap, of Map.empty] d(2) show ?thesis
    unfolding sef_local_startup_def callbacks.simps by blast
qed

text \<open>C35: The saved stack pointer is an address of the old process.  If it is none of the 101 positions of the static
  stack of the new process, saving and restoring still report success, and the first set request faults when it
  reads the top of the stack: through a null pointer, or outside the stack's array.\<close>

theorem live_update_moved_faults:
  assumes "ds_laws S" and "wf_driver d" and "fresh_heap h"
    and "current (stack_of d) < a \<or> a + STACK_SIZE < current (stack_of d)"
    and "copyfrom e g SET_SIZE = Inr (set_bytes m)" and "length (s_buffer m) = ENTRY_LEN_LIMIT"
  shows "\<exists>t u t' u'. cb_lu_state_save (sef_local_startup S) d s = Inr (OK, t, u)
    \<and> cb_init_lu (sef_local_startup S) (new_process a h) u = Inr (OK, t', u')
    \<and> clipboard_write copyfrom junk e g (of_nat SET_SIZE) t'
        = Inl (if current (stack_of d) = 0 then Bad_Pointer else Out_Of_Bounds)"
proof -
  let ?fault = "if current (stack_of d) = 0 then Bad_Pointer else Out_Of_Bounds"
  obtain t u t' u' where t: "cb_lu_state_save (sef_local_startup S) d s = Inr (OK, t, u)"
      "cb_init_lu (sef_local_startup S) (new_process a h) u = Inr (OK, t', u')"
      "stack_of t' = (stack_of d)\<lparr>base := a\<rparr>"
    using update_callbacks [OF assms(1-3), of s a] by (auto simp: restored_def)
  have "length (vals (stack_of d)) = STACK_SIZE"
    using assms(2) by (simp add: wf_parts wf_stack_def)
  with assms(4) have "\<not> is_empty (stack_of t')" and "top_stack (stack_of t') = Inl ?fault"
    by (auto simp: t(3) is_empty_def top_stack_def deref_def aget_def in_range_def stack_bounds)
  then have "do_clipboard_set m t' = Inl ?fault"
    by (simp add: do_clipboard_set_def)
  with t(1,2) show ?thesis
    unfolding write_set_request [of copyfrom, OF assms(5,6), symmetric, of t' junk] by blast
qed

theorem live_update_moved_faults_witness:
  "\<exists>t u t' u'. sef_cb_lu_state_save map_store sample_driver Map.empty = Inr (OK, t, u)
    \<and> sef_cb_init map_store SEF_INIT_LU (new_process 5000 sample_heap) u = Inr (OK, t', u')
    \<and> clipboard_write (\<lambda>e g n. Inr (set_bytes sample_set)) [] 0 0 (of_nat SET_SIZE) t' = Inl Out_Of_Bounds"
proof -
  have current: "current (stack_of sample_driver) = 4100"
    by (simp add: sample_driver_def fresh_driver_def clipboard_init_def init_def upper_bound_def Let_def
        set_available_def static_clipboard_def STACK_SIZE_def)
  then have "current (stack_of sample_driver) < 5000 \<or> 5000 + STACK_SIZE < current (stack_of sample_driver)"
    by simp
  from live_update_moved_faults [OF map_store sample_driver(1) sample_heap this,
      of "\<lambda>e g n. Inr (set_bytes sample_set)" 0 0 sample_set Map.empty "[]"] sample_sane(2)
  show ?thesis unfolding sef_local_startup_def callbacks.simps by (simp add: current)
qed

text \<open>Saving frees the buffers but keeps the entries.  If the update is then taken back and the old process goes
  on, the next process that takes a text it had locked makes the driver read freed memory.\<close>

theorem rollback_reads_freed_memory:
  assumes "ds_laws S" and "wf_driver d"
    and "held_by pid (board_of d) i" and "board_of d i = Some it" and "contents it \<noteq> []"
    and "0 \<le> sint pid" and "length junk = GET_SIZE"
  shows "\<exists>t u. cb_lu_state_save (sef_local_startup S) d s = Inr (OK, t, u)
    \<and> clipboard_read ct junk e g (ENCODE_PID pid) t = Inl Bad_Pointer"
proof -
  obtain t u where t: "sef_cb_lu_state_save S d s = Inr (OK, t, u)" "CLIPBOARD t = CLIPBOARD d"
      "blocks (mem t) = Map.empty"
    using save_all [OF assms(1,2)] by blast
  have i: "i \<in> locks d" "i < BUF_MAX_COUNT" "locking_pid (ent d i) = pid"
    using assms(3) by (auto simp: held_by_lock locks_def)
  then have "get_lock_id pid d = int i"
    using get_lock_id_unique [OF _ i(1,3)] assms(2) by (simp add: wf_driver_def)
  then have id: "get_lock_id pid t = int i" by (simp add: get_lock_id_def t(2))
  have "i \<in> occupied d" and it: "contents it = text_of d i"
    using assms(4) by (auto simp: board_of_def text_of_def split: if_splits)
  from text_block(2,3) [OF assms(2) this(1)] it assms(5)
  have n: "unat (buffer_len (ent d i)) \<noteq> 0" "unat (buffer_len (ent d i)) \<le> ENTRY_LEN_LIMIT"
    by (metis length_0_conv)+
  have at: "entry_at (int i) t = Inr (ent d i)"
    using assms(2) i(2) by (simp add: wf_driver_def t(2) ent_def)
  have "length (g_buffer (get_of junk)) = ENTRY_LEN_LIMIT"
    using assms(7) by (rule length_get_of)
  with n id at t(3) have "do_clipboard_get (get_of junk) pid t = Inl Bad_Pointer"
    by (simp add: do_clipboard_get_def memcpy_out_def del: entry_at_int)
  then show ?thesis
    using t(1) by (simp add: sef_local_startup_def read_take_request [OF assms(6)])
qed

theorem rollback_reads_freed_memory_witness:
  "\<exists>d t u. wf_driver d \<and> sef_cb_lu_state_save map_store d Map.empty = Inr (OK, t, u)
    \<and> clipboard_read (\<lambda>e g bs. OK) (replicate GET_SIZE 0) 0 0 (ENCODE_PID 9) t = Inl Bad_Pointer"
proof -
  obtain i d where d: "wf_driver d" "board_of d = [i \<mapsto> (new_item sample_set)\<lparr>holder := Some 9\<rparr>]"
    using sample_locked by blast
  then have "held_by 9 (board_of d) i" "board_of d i = Some ((new_item sample_set)\<lparr>holder := Some 9\<rparr>)"
    "contents ((new_item sample_set)\<lparr>holder := Some 9\<rparr>) \<noteq> []"
    by (simp_all add: held_by_def sample_item)
  from rollback_reads_freed_memory [OF map_store d(1) this, of "replicate GET_SIZE 0" Map.empty] d(1)
  show ?thesis unfolding sef_local_startup_def callbacks.simps by auto
qed

section \<open>Starts\<close>

text \<open>C36: A fresh start empties the clipboard and leaves a well-formed state.  A restart initialises nothing: its
  static variable is zero, the null stack pointer does not count as empty, and the first set request
  makes the driver read through it.\<close>

theorem fresh_start_and_restart:
  assumes "fresh_heap h" and "0 < a"
    and "copyfrom e g SET_SIZE = Inr (set_bytes m)" and "length (s_buffer m) = ENTRY_LEN_LIMIT"
  shows "\<exists>d d'. cb_init_fresh (sef_local_startup S) (new_process a h) s = Inr (OK, d, s)
    \<and> wf_driver d \<and> board_of d = Map.empty
    \<and> cb_init_restart (sef_local_startup S) (new_process a h) s = Inr (OK, d', s)
    \<and> clipboard_write copyfrom junk e g (of_nat SET_SIZE) d' = Inl Bad_Pointer"
proof -
  have "do_clipboard_set m (new_process a h) = Inl Bad_Pointer"
    using assms(2)
    by (simp add: do_clipboard_set_def new_process_def static_clipboard_def is_empty_def top_stack_def lower_bound_def)
  with fresh_wf(1,2) [OF assms(1), of a] show ?thesis
    by (simp add: sef_local_startup_def sef_cb_init_def fresh_driver_def new_process_def
        write_set_request [of copyfrom, OF assms(3,4)])
qed

theorem fresh_start_and_restart_witness:
  "\<exists>d'. sef_cb_init map_store SEF_INIT_RESTART (new_process 4000 sample_heap) Map.empty = Inr (OK, d', Map.empty)
    \<and> clipboard_write (\<lambda>e g n. Inr (set_bytes sample_set)) [] 0 0 (of_nat SET_SIZE) d' = Inl Bad_Pointer"
  using fresh_start_and_restart [OF sample_heap, of 4000 "\<lambda>e g n. Inr (set_bytes sample_set)" 0 0 sample_set
      map_store Map.empty "[]"] sample_sane(2)
  by (auto simp: sef_local_startup_def)

end
