(* ===== verification/Task_Theorems.thy ===== *)
theory Task_Theorems
  imports Clipboard_Task Hello Update_Theorems
begin

text \<open>
  What the framework guarantees to drivers and callers, and what the clipboard and the example driver do as
  tasks of the framework.
\<close>

section \<open>Samples\<close>

definition sample_codes :: codes where
  "sample_codes = \<lparr>EIO = - 5, ENOTTY = - 25, EBADF = - 9, ENXIO = - 6, EINVAL = - 22, EINTR = - 4,
     EDONTREPLY = - 201, SUSPEND = - 998, ERESTART = - 200, CDEV_CLONED = 2 ^ 30, CDEV_CTTY = 2 ^ 29,
     is_cdev_rq = (\<lambda>n. False), DS_MAX_KEYLEN = 80\<rparr>"

definition request :: "m_type \<Rightarrow> u32 \<Rightarrow> message" where
  "request ty sz = \<lparr>m_type = ty, m_source = 3, oc_minor = 0, oc_access = 2, oc_user = 5, oc_id = 1,
     rw_minor = 0, rw_pos = 0, rw_grant = 8, rw_count = sz, rw_flags = 0, rw_request = 0, rw_user = 5, rw_id = 1,
     ca_minor = 0, ca_id = 1, se_minor = 0, se_ops = 0, bdev_id = 1, interrupts = 0, timestamp = 0\<rparr>"

definition plain_ipc :: ipc_status where
  "plain_ipc = \<lparr>is_ipc_notify = False, call_sendrec = False, notifier = OTHER_PROC\<rparr>"

definition sample_state :: "'s \<Rightarrow> 's cdstate" where
  "sample_state s = \<lparr>running = True, open_devs = replicate 16 0, next_open_devs_slot = 1, sent = [], priv = s\<rparr>"

lemma sample_open: "is_open_dev 0 (sample_state s)"
  by (simp add: is_open_dev_def opened_def sample_state_def)

lemma sample_sane_codes: "sane_codes sample_codes"
  by (simp add: sane_codes_def sample_codes_def)

section \<open>The framework\<close>

text \<open>C23: The framework answers a request on an opened device with the status its hook returned, exactly once, to the
  process that sent it and under the identifier of its request; it is silent only for \<open>EDONTREPLY\<close> on a
  request that may be suspended and for \<open>ERESTART\<close>, and stops the driver on \<open>SUSPEND\<close> and on
  \<open>EDONTREPLY\<close> elsewhere.\<close>

theorem request_answered_once:
  assumes "\<not> is_ipc_notify ips" and "m_type m \<in> requests"
    and "chardriver_get_minor C m = Inr k" and "is_open_dev k st"
    and "run_request C cdp m st = Some (Inr (r, t))"
  shows "sent t = sent st \<and> chardriver_process C cdp m ips st =
    (if r = EDONTREPLY C then if m_type m \<in> suspendable then Inr t else Inl Panic
     else if r = SUSPEND C then Inl Panic
     else if r = ERESTART C then Inr t
     else Inr (t\<lparr>sent := (m_source m, answer m r, if call_sendrec ips then ipc_sendnb else asynsend3) # sent st\<rparr>))"
proof -
  have "chardriver_process C cdp m ips st = chardriver_reply C m ips r t"
    using process_opened [OF assms] by simp
  then show ?thesis
    using run_request_sent [OF assms(5)]
    by (simp add: chardriver_reply_answer [OF assms(2)] send_reply_def emit_def)
qed

theorem request_answered_once_witness:
  "chardriver_process sample_codes (hello_tab (\<lambda>e g bs. 0) [72, 105]) (request CDEV_READ 10) plain_ipc (sample_state 4)
     = Inr ((sample_state 4)\<lparr>sent := [(3, CDEV_REPLY 2 1, asynsend3)]\<rparr>)"
proof -
  have "run_request sample_codes (hello_tab (\<lambda>e g bs. 0) [72, 105]) (request CDEV_READ 10) (sample_state 4)
      = Some (Inr (2, sample_state 4))"
    using hello_read_bytes [of "[72, 105]" "\<lambda>e g bs. 0" 3 8 0 10]
    by (simp add: run_request_def request_def do_transfer_def hello_tab_def call_hook_def sample_state_def)
  from request_answered_once [OF _ _ _ sample_open this, of plain_ipc] show ?thesis
    by (simp add: plain_ipc_def requests_def request_def chardriver_get_minor_def sample_codes_def answer_def
        sample_state_def)
qed

text \<open>A request for a device that was not opened, as callers of a driver that restarted send, is
  dropped: no hook runs, nothing changes, no reply is sent.\<close>

theorem unopened_dropped:
  assumes "\<not> is_ipc_notify ips" and "m_type m \<in> requests - {CDEV_OPEN}"
    and "chardriver_get_minor C m = Inr k" and "\<not> is_open_dev k st"
  shows "chardriver_process C cdp m ips st = Inr st"
  using assms requests_rq [of m C cdp st] by (simp add: chardriver_process_def)

theorem unopened_dropped_witness:
  "chardriver_process sample_codes (hello_tab (\<lambda>e g bs. 0) []) ((request CDEV_READ 10)\<lparr>rw_minor := 7\<rparr>) plain_ipc
     (sample_state 4) = Inr (sample_state 4)"
  by (rule unopened_dropped [where k = 7])
    (simp_all add: plain_ipc_def requests_def request_def chardriver_get_minor_def is_open_dev_def
      opened_def sample_state_def)

text \<open>Whatever message arrives, the framework sends at most one reply, to the sender of the message, and
  none to a notification.\<close>

theorem at_most_one_reply:
  assumes "chardriver_process C cdp m ips st = Inr t"
  shows "sent t = sent st \<or>
    (\<exists>msg. \<not> is_ipc_notify ips
      \<and> sent t = (m_source m, msg, if call_sendrec ips then ipc_sendnb else asynsend3) # sent st)"
proof -
  have reply: "chardriver_reply C m ips r u = Inr t \<Longrightarrow> sent t = sent u \<or>
      (\<exists>msg. sent t = (m_source m, msg, if call_sendrec ips then ipc_sendnb else asynsend3) # sent u)" for r u
    by (auto simp: chardriver_reply_def send_reply_def emit_def Let_def split: if_splits m_type.splits)
  have disp: "dispatch C cdp m ips u = Inr t \<Longrightarrow> sent t = sent u \<or>
      (\<exists>msg. sent t = (m_source m, msg, if call_sendrec ips then ipc_sendnb else asynsend3) # sent u)" for u
    by (auto simp: dispatch_def rbind_eq_Inr split: option.splits
        dest!: reply call_quiet_sent run_request_sent)
  show ?thesis
  proof (cases "is_ipc_notify ips")
    case True
    with assms show ?thesis
      by (auto simp: chardriver_process_def process_notify_def split: notifier.splits dest!: call_quiet_sent)
  next
    case False
    with assms show ?thesis
      by (auto simp: chardriver_process_def do_block_open_def send_reply_def emit_def rbind_eq_Inr
          split: if_splits sum.splits dest!: disp set_open_dev_sent)
  qed
qed

theorem at_most_one_reply_witness:
  "sent (do_block_open sample_codes (request BDEV_OPEN 0) plain_ipc (sample_state (4 :: int))) = sent (sample_state (4 :: int)) \<or>
    (\<exists>msg. \<not> is_ipc_notify plain_ipc
      \<and> sent (do_block_open sample_codes (request BDEV_OPEN 0) plain_ipc (sample_state (4 :: int))) =
        (m_source (request BDEV_OPEN 0), msg, if call_sendrec plain_ipc then ipc_sendnb else asynsend3)
          # sent (sample_state (4 :: int)))"
  by (rule at_most_one_reply [of sample_codes "hello_tab (\<lambda>e g bs. 0) []"])
    (simp add: chardriver_process_def plain_ipc_def request_def)

section \<open>The clipboard driver as a task\<close>

text \<open>C13: From a fresh start the driver survives every sequence of acceptable requests, whatever their
  order and number: its main loop never faults or panics, and the invariant holds at its end, with the
  memory it started with.\<close>

theorem clipboard_task_safe:
  assumes "fresh_heap h" and "devs \<noteq> []"
    and "\<forall>ev\<in>set evs. \<exists>m ips. ev = Received m ips \<and> polite C cf ct m"
  shows "\<exists>st. clipboard_main S SEF_INIT_FRESH C (clipboard_tab cf ct rjunk wjunk) evs devs
      (new_process a h) s = Inr st
    \<and> wf_driver (drv (priv st)) \<and> owners_ok (drv (priv st)) \<and> next_open_devs_slot st \<le> 1"
proof -
  let ?d = "fresh_driver a h"
  let ?st = "\<lparr>running = False, open_devs = devs, next_open_devs_slot = 0, sent = [],
    priv = \<lparr>drv = ?d, copied = []\<rparr>\<rparr>"
  have "task_inv ?d" using fresh_wf(1) [OF assms(1)] fresh_owners by (simp add: task_inv_def)
  moreover have "table_ok {0} ?st"
    using assms(2) by (cases devs) (simp_all add: table_ok_def opened_def)
  ultimately obtain st where st: "chardriver_task C (clipboard_tab cf ct rjunk wjunk) evs ?st = Inr st"
      "task_inv (drv (priv st))" "table_ok {0} st"
    using clipboard_hooks.task_runs [where st = ?st and evs = evs and C = C and cf = cf and ct = ct
        and rjunk = rjunk and wjunk = wjunk] assms(3)
    unfolding clipboard_hooks.safe_def by auto
  have "next_open_devs_slot st \<le> 1"
    using st(3) card_mono [of "{0 :: u32}" "set (opened st)"] distinct_card [of "opened st"]
    by (simp add: table_ok_def opened_def)
  with st show ?thesis
    by (simp add: clipboard_main_def sef_cb_init_def fresh_driver_def new_process_def task_inv_def)
qed

lemma sample_polite: "polite sample_codes (\<lambda>e g n. Inr (set_bytes sample_set)) (\<lambda>e g bs. 0) (request CDEV_WRITE 1036)"
proof -
  have bs: "set_of (set_bytes sample_set) = sample_set"
    using set_of_bytes [OF sample_sane(2), of "[]"] by simp
  have len: "length (set_bytes sample_set) = 1036"
    using length_set_bytes [OF sample_sane(2)] by (simp add: size_values)
  show ?thesis
    unfolding polite_def sane_write_def
    using sample_sane_codes
    by (simp add: request_def chardriver_get_minor_def bs len size_values sample_codes_def)
      (simp add: sample_set_def ENTRY_LEN_LIMIT_def)
qed

theorem clipboard_task_safe_witness:
  "\<exists>st. clipboard_main map_store SEF_INIT_FRESH sample_codes
      (clipboard_tab (\<lambda>e g n. Inr (set_bytes sample_set)) (\<lambda>e g bs. 0) [] [])
      [Received (request CDEV_WRITE 1036) plain_ipc] [0, 0] (new_process 4000 sample_heap) Map.empty = Inr st
    \<and> wf_driver (drv (priv st))"
  using clipboard_task_safe [OF sample_heap, of "[0, 0]" "[Received (request CDEV_WRITE 1036) plain_ipc]"
      sample_codes "\<lambda>e g n. Inr (set_bytes sample_set)" "\<lambda>e g bs. 0" map_store "[]" "[]" 4000 Map.empty]
    sample_polite by auto

text \<open>C33: The driver answers an owner query with the process identifier a client once wrote in a set message, and the
  framework takes one such answer for the pseudo-reply \<open>SUSPEND\<close>: after a set message with that identifier, the
  owner query for the entry stops the driver.\<close>

theorem forged_owner_stops_driver:
  assumes "wf_driver (drv (priv st))" and "i < BUF_MAX_COUNT"
    and "sint (source_pid (ent (drv (priv st)) i)) = SUSPEND C"
    and "SUSPEND C \<noteq> EDONTREPLY C" and "\<not> is_ipc_notify ips"
    and "m_type m = CDEV_READ" and "rw_count m = of_nat i" and "is_open_dev (rw_minor m) st"
  shows "chardriver_process C (clipboard_tab cf ct rjunk wjunk) m ips st = Inl Panic"
proof -
  have len: "length (entries (CLIPBOARD (drv (priv st)))) = BUF_MAX_COUNT"
    using assms(1) by (simp add: wf_driver_def)
  have "clipboard_read ct (fit GET_SIZE rjunk) (m_source m) (rw_grant m) (rw_count m) (drv (priv st)) =
      Inr (SUSPEND C, None, drv (priv st))"
    using read_owner_query [OF assms(2) len] assms(3,7) by (simp add: ENCODE_ID_def)
  then have "run_request C (clipboard_tab cf ct rjunk wjunk) m st = Some (Inr (SUSPEND C, st))"
    using assms(6) by (simp add: run_request_def do_transfer_def clipboard_tab_def read_hook_def call_hook_def)
  then show ?thesis
    using assms by (simp add: chardriver_process_def IS_CDEV_RQ_def chardriver_get_minor_def dispatch_def
        chardriver_reply_def)
qed

theorem forged_owner_stops_driver_witness:
  "\<exists>i d. do_clipboard_set (sample_set\<lparr>s_pid := word_of_int (- 998)\<rparr>) sample_driver = Inr (int i, d)
    \<and> chardriver_process sample_codes (clipboard_tab (\<lambda>e g n. Inl 0) (\<lambda>e g bs. 0) [] []) (request CDEV_READ (of_nat i))
        plain_ipc (sample_state \<lparr>drv = d, copied = []\<rparr>) = Inl Panic"
proof -
  let ?m = "sample_set\<lparr>s_pid := word_of_int (- 998)\<rparr>"
  have "sane_set ?m" using sample_sane(1) by (simp add: sane_set_def)
  from set_refines [OF sample_driver(1) this sample_driver(3)] obtain i d where
    d: "i < BUF_MAX_COUNT" "do_clipboard_set ?m sample_driver = Inr (int i, d)" "wf_driver d"
      "board_of d = (board_of sample_driver)(i \<mapsto> new_item ?m)" by blast
  then have "board_of d i = Some (new_item ?m)" by simp
  then have "source_pid (ent d i) = word_of_int (- 998)"
    by (simp add: board_of_def item_of_def new_item_def split: if_splits)
  let ?st = "sample_state \<lparr>drv = d, copied = []\<rparr>"
  have own: "sint (source_pid (ent (drv (priv ?st)) i)) = SUSPEND sample_codes"
    using \<open>source_pid (ent d i) = word_of_int (- 998)\<close> by (simp add: sample_state_def sample_codes_def)
  have wf: "wf_driver (drv (priv ?st))" using d(3) by (simp add: sample_state_def)
  have "SUSPEND sample_codes \<noteq> EDONTREPLY sample_codes" "\<not> is_ipc_notify plain_ipc"
    "m_type (request CDEV_READ (of_nat i)) = CDEV_READ" "rw_count (request CDEV_READ (of_nat i)) = of_nat i"
    "is_open_dev (rw_minor (request CDEV_READ (of_nat i))) ?st"
    using sample_open [of "\<lparr>drv = d, copied = []\<rparr>"] by (simp_all add: sample_codes_def plain_ipc_def request_def)
  from forged_owner_stops_driver [OF wf d(1) own this, of "\<lambda>e g n. Inl 0" "\<lambda>e g bs. 0" "[]" "[]"] d(2)
  show ?thesis by blast
qed

section \<open>The example driver\<close>

text \<open>Reading the example device in chunks of any positive size from position 0 yields exactly its text and
  then the end of the file; each read returns the number of bytes it copied.\<close>

theorem hello_reads_message:
  assumes "length buf < 2 ^ 31" and "\<forall>bs. copyto e g bs = 0" and "0 < unat sz" and "length buf \<le> fuel"
  shows "hello_cat fuel copyto buf e g sz 0 = buf
    \<and> hello_read copyto buf pos e g sz =
        (int (length (take (unat sz) (drop (unat pos) buf))), take (unat sz) (drop (unat pos) buf))"
proof -
  have ok: "\<And>bs. copyto e g bs = 0" using assms(2) by blast
  show ?thesis
    using hello_cat_drop [where copyto = copyto and e = e and g = g and sz = sz and k = 0 and fuel = fuel, OF assms(1) ok assms(3)] assms(4)
      hello_read_bytes [where copyto = copyto and e = e and g = g and sz = sz and pos = pos, OF assms(1) ok]
    by simp
qed

theorem hello_reads_message_witness:
  "hello_cat 5 (\<lambda>e g bs. 0) [72, 101, 108, 108, 111] 3 8 2 0 = [72, 101, 108, 108, 111]"
  using hello_reads_message [of "[72, 101, 108, 108, 111]" "\<lambda>e g bs. 0" 3 8 2 5] by simp

text \<open>A live update carries the count of opens over, for a data store that returns what was published, without
  announcing the driver; a fresh start or a restart sets it to 0 and announces the driver, which makes
  callers open it again.\<close>

theorem hello_update:
  assumes "\<forall>k v s. ds_retrieve_u32 S k (ds_publish_u32 S k v s) = Some v"
    and "0 \<le> n" and "n < 2 ^ 31" and "sys_statectl A = 0" and "own_label A = Inr label" and "\<forall>key. publish_up A key = 0"
  shows "hello_cb_init C A S junk SEF_INIT_LU st (snd (hello_lu_state_save S n s)) =
      Inr (st\<lparr>priv := n\<rparr>, ds_delete_u32 S ''open_counter'' (snd (hello_lu_state_save S n s)))
    \<and> hello_cb_init C A S junk SEF_INIT_FRESH st s = Inr (st\<lparr>priv := 0, next_open_devs_slot := 0\<rparr>, s)
    \<and> hello_cb_init C A S junk SEF_INIT_RESTART st s = Inr (st\<lparr>priv := 0, next_open_devs_slot := 0\<rparr>, s)"
proof -
  have "sint (word_of_int n :: u32) = n"
  proof -
    obtain k where k: "n = int k" using assms(2) nonneg_int_cases by blast
    with assms(3) have "unat (of_nat k :: u32) = k" by (simp add: unat_of_nat take_bit_nat_eq_self)
    with assms(3) k sint_eq_unat [of "of_nat k"] show ?thesis by simp
  qed
  then show ?thesis
    using assms(1,4-6)
    by (simp add: hello_cb_init_def hello_lu_state_save_def hello_lu_state_restore_def chardriver_announce_def
        clear_open_devs_def)
qed

theorem hello_update_witness:
  "hello_cb_init sample_codes \<lparr>sys_statectl = 0, own_label = Inr ''hello'', publish_up = (\<lambda>key. 0)\<rparr>
      \<lparr>ds_publish_u32 = (\<lambda>k v s. s(k \<mapsto> v)), ds_retrieve_u32 = (\<lambda>k s. s k), ds_delete_u32 = (\<lambda>k s. s(k := None))\<rparr>
      0 SEF_INIT_LU (sample_state 0) [''open_counter'' \<mapsto> 7] = Inr (sample_state 7, Map.empty)"
  using hello_update [of "\<lparr>ds_publish_u32 = (\<lambda>k v s. s(k \<mapsto> v)), ds_retrieve_u32 = (\<lambda>k s. s k),
      ds_delete_u32 = (\<lambda>k s. s(k := None))\<rparr>" 7 "\<lparr>sys_statectl = 0, own_label = Inr ''hello'', publish_up = (\<lambda>key. 0)\<rparr>"
      "''hello''" sample_codes 0 "sample_state 0" Map.empty]
  by (simp add: hello_lu_state_save_def sample_state_def)

end
