(* ===== verification/Interleaving_Moves.thy ===== *)
theory Interleaving_Moves
  imports Interleaving
begin

text \<open>
  Runs of interleaved processes against the contract of the device: what the ancestor check is worth while the
  place of a text stays occupied, how far a process gets on its own, and how a place that is emptied and filled
  between the check and the lock defeats the check.
\<close>

section \<open>Runs in which a place stays occupied\<close>

definition keeping_moves ::
  "('s \<Rightarrow> board) \<Rightarrow> nat \<Rightarrow> (u32 \<Rightarrow> 's world sys) \<Rightarrow> 's config \<Rightarrow> 's config \<Rightarrow> bool" where
  "keeping_moves board i S c c' \<longleftrightarrow> any_moves S c c' \<and> board (shared c') i \<noteq> None"

lemma keeping_any:
  "(keeping_moves board i S)\<^sup>*\<^sup>* c c' \<Longrightarrow> (any_moves S)\<^sup>*\<^sup>* c c'"
  by (erule rtranclp_mono [THEN predicate2D, rotated]) (auto simp: keeping_moves_def)

text \<open>What the call of \<open>q\<close> has found out is true of the item at \<open>i\<close>, if it is about this item.\<close>

definition checked :: "(u32 \<Rightarrow> u32 \<Rightarrow> byte) \<Rightarrow> u32 \<Rightarrow> u32 \<Rightarrow> u32 \<Rightarrow> proc \<Rightarrow> bool" where
  "checked anc q own i p \<longleftrightarrow> (arg_id p = i \<longrightarrow>
     (case pc p of
        Checking fd src \<Rightarrow> src = sint own
      | Locking fd \<Rightarrow> anc own q \<noteq> 0
      | Taking fd \<Rightarrow> anc own q \<noteq> 0
      | _ \<Rightarrow> True))"

lemma board_moves_checked:
  assumes "board_moves anc q (b, p) (b', p')" and "checked anc q (owner it) (of_nat i) p"
    and "b i = Some it" and "i < BUF_MAX_COUNT"
  shows "checked anc q (owner it) (of_nat i) p'"
  using assms by cases (auto simp: checked_def)

context clipboard_device begin

lemma keeping_step:
  assumes ok: "config_ok board good c" and m: "moves (process anc limit) r c c'"
    and it: "board (shared c) i = Some (it\<lparr>holder := h\<rparr>)" "board (shared c') i \<noteq> None"
    and "checked anc q (owner it) (of_nat i) (procs c q)"
  shows "config_ok board good c' \<and> (\<exists>h. board (shared c') i = Some (it\<lparr>holder := h\<rparr>))
    \<and> checked anc q (owner it) (of_nat i) (procs c' q)"
proof -
  note m = moves_refine [OF ok m]
  have i: "i < BUF_MAX_COUNT"
    using ok it(1) dom_board by (auto simp: config_ok_def)
  obtain h' where "board (shared c') i = Some (it\<lparr>holder := h\<rparr>\<lparr>holder := h'\<rparr>)"
    using board_moves_keep [where i = i, OF conjunct1 [OF conjunct2 [OF m]] it] by blast
  moreover have "checked anc q (owner it) (of_nat i) (procs c' q)"
  proof (cases "q = r")
    case True
    with m assms(5) board_moves_checked [where it = "it\<lparr>holder := h\<rparr>" and i = i
        and b = "board (shared c)"] i it(1)
    show ?thesis by fastforce
  next
    case False
    with m assms(5) show ?thesis by simp
  qed
  ultimately show ?thesis using m by auto
qed

text \<open>Single moves that can be made.\<close>

lemma check_move:
  assumes ok: "config_ok board good c" and "pc (procs c q) = Checking fd src" and "0 \<le> sint q"
    and "anc (word_of_int src) q \<noteq> 0"
  shows "\<exists>c'. moves (process anc limit) q c c' \<and> config_ok board good c' \<and> shared c' = shared c
    \<and> procs c' = (procs c)(q := (procs c q)\<lparr>pc := Locking fd\<rparr>)"
proof -
  let ?p = "procs c q"
  let ?c = "moved q (?p\<lparr>pc := Locking fd, pbuf := pbuf ?p\<rparr>) (view c q) c"
  have same: "?p\<lparr>pc := Locking fd, pbuf := pbuf ?p, files := files ?p\<rparr> = ?p\<lparr>pc := Locking fd\<rparr>" by simp
  have m: "moves (process anc limit) q c ?c"
    using assms(2-4) by (intro step_paste) (simp_all add: local_sys_def)
  with moves_refine [OF ok m] show ?thesis
    by (intro exI [of _ ?c]) (auto simp: same)
qed

lemma lock_move:
  assumes ok: "config_ok board good c" and pc: "pc (procs c q) = Locking fd" and "0 \<le> sint q"
    and can: "lockable (arg_len (procs c q)) (board (shared c) (unat (arg_id (procs c q))))"
  shows "\<exists>c'. moves (process anc limit) q c c' \<and> config_ok board good c'
    \<and> board (shared c') = set_holder q (unat (arg_id (procs c q))) (board (shared c))
    \<and> procs c' = (procs c)(q := (procs c q)\<lparr>pc := Taking fd\<rparr>)"
proof -
  let ?p = "procs c q"
  have "good (dev (view c q))" "proc_ok q (board (dev (view c q))) ?p"
    using ok by (simp_all add: config_ok_def)
  from lock_step [where anc = anc and limit = limit, OF this pc] obtain t where t0: "good t"
      "board t = (if lockable (arg_len ?p) (board (dev (view c q)) (unat (arg_id ?p)))
         then set_holder q (unat (arg_id ?p)) (board (dev (view c q))) else board (dev (view c q)))"
      "paste_step (process anc limit q) (arg_id ?p) (arg_len ?p) (Locking fd, pbuf ?p, view c q) =
       Inr (if lockable (arg_len ?p) (board (dev (view c q)) (unat (arg_id ?p))) then Taking fd
         else Returned (- 1), pbuf ?p, (view c q)\<lparr>dev := t\<rparr>)"
    by this
  note t = t0 [unfolded view_simps if_P [OF can]]
  let ?c = "moved q (?p\<lparr>pc := Taking fd, pbuf := pbuf ?p\<rparr>) ((view c q)\<lparr>dev := t\<rparr>) c"
  have same: "?p\<lparr>pc := Taking fd, pbuf := pbuf ?p, files := files ?p\<rparr> = ?p\<lparr>pc := Taking fd\<rparr>" by simp
  have m: "moves (process anc limit) q c ?c"
    using pc assms(3) t(3) by (intro step_paste) (simp_all only: refl point.disc not_False_eq_True)
  with moves_refine [OF ok m] t(2) show ?thesis
    by (intro exI [of _ ?c]) (auto simp: same)
qed

lemma take_move:
  assumes ok: "config_ok board good c" and pc: "pc (procs c q) = Taking fd" and "0 \<le> sint q"
    and it: "board (shared c) (unat (arg_id (procs c q))) = Some it"
    and room: "length (contents it) \<le> length (pbuf (procs c q))"
  shows "\<exists>c' out. moves (process anc limit) q c c' \<and> config_ok board good c'
    \<and> dev_read (ENCODE_PID q) (shared c) = Inr (OK, out, shared c')
    \<and> board (shared c') = (board (shared c))(unat (arg_id (procs c q)) := None)
    \<and> procs c' = (procs c)(q := (procs c q)\<lparr>pc := Returned 0,
        pbuf := overwrite 0 (contents it) (pbuf (procs c q)), files := files (procs c q) - 1\<rparr>)"
proof -
  let ?p = "procs c q"
  from taken_text [where anc = anc and limit = limit, OF ok pc assms(3) it] room obtain out t where
    t: "dev_read (ENCODE_PID q) (shared c) = Inr (OK, out, t)"
      "board t = (board (shared c))(unat (arg_id ?p) := None)"
      "paste_step (process anc limit q) (arg_id ?p) (arg_len ?p) (Taking fd, pbuf ?p, view c q) =
       Inr (Returned 0, overwrite 0 (contents it) (pbuf ?p), \<lparr>dev = t, open_files = files ?p - 1\<rparr>)"
    by (metis not_less)
  let ?c = "moved q (?p\<lparr>pc := Returned 0, pbuf := overwrite 0 (contents it) (pbuf ?p)\<rparr>)
    \<lparr>dev = t, open_files = files ?p - 1\<rparr> c"
  have m: "moves (process anc limit) q c ?c"
    using pc assms(3) t(3) by (intro step_paste) (simp_all only: refl point.disc not_False_eq_True)
  with moves_refine [OF ok m] t(1,2) show ?thesis
    by (intro exI [of _ ?c]) auto
qed

text \<open>How far an idle process gets on its own.\<close>

lemma ask_moves:
  assumes ok: "config_ok board good c" and idle: "pc (procs c q) = Returned v" and q: "0 \<le> sint q"
    and files: "files (procs c q) < limit"
    and it: "board (shared c) i = Some it" "0 \<le> sint (owner it)"
  shows "\<exists>c' fd. (keeping_moves board i (process anc limit))\<^sup>*\<^sup>* c c' \<and> config_ok board good c' \<and> shared c' = shared c
    \<and> procs c' = (procs c)(q := \<lparr>pc = Checking fd (sint (owner it)), arg_id = of_nat i, arg_len = n,
        pbuf = x, files = Suc (files (procs c q))\<rparr>)"
proof -
  let ?S = "process anc limit" and ?f = "files (procs c q)"
  have i: "i < BUF_MAX_COUNT" using ok it(1) dom_board by (auto simp: config_ok_def)
  define c1 where "c1 = moved q ((procs c q)\<lparr>pc := Opening, arg_id := of_nat i, arg_len := n, pbuf := x\<rparr>)
    (view c q) c"
  have m1: "moves ?S q c c1"
    unfolding c1_def by (rule call_paste [OF refl idle])
  have c1: "procs c1 q = \<lparr>pc = Opening, arg_id = of_nat i, arg_len = n, pbuf = x, files = ?f\<rparr>"
    "shared c1 = shared c" "\<forall>r. r \<noteq> q \<longrightarrow> procs c1 r = procs c r"
    by (simp_all add: c1_def)
  define c2 where "c2 = moved q ((procs c1 q)\<lparr>pc := Asking (int ?f), pbuf := x\<rparr>)
    ((view c1 q)\<lparr>open_files := Suc ?f\<rparr>) c1"
  have m2: "moves ?S q c1 c2"
    unfolding c2_def using q files i c1(1) by (intro step_paste) (simp_all add: local_sys_def)
  have c2: "procs c2 q = \<lparr>pc = Asking (int ?f), arg_id = of_nat i, arg_len = n, pbuf = x, files = Suc ?f\<rparr>"
    "shared c2 = shared c" "\<forall>r. r \<noteq> q \<longrightarrow> procs c2 r = procs c r"
    using c1 by (simp_all add: c2_def)
  have "good (shared c)" using ok by (simp add: config_ok_def)
  then have ask: "dev_read (ENCODE_ID (of_nat i)) (shared c) = Inr (sint (owner it), None, shared c)"
    using owner_law [OF _ i] it(1) by fastforce
  define c3 where "c3 = moved q ((procs c2 q)\<lparr>pc := Checking (int ?f) (sint (owner it)), pbuf := x\<rparr>)
    (view c2 q) c2"
  have w: "(view c2 q)\<lparr>dev := shared c\<rparr> = view c2 q" using c2(2) by (simp add: view_def)
  have m3: "moves ?S q c2 c3"
    unfolding c3_def using q c2(1,2) ask it(2) w by (intro step_paste) (simp_all add: local_sys_def)
  have c3: "shared c3 = shared c" using c2(2) by (simp add: c3_def)
  have "keeping_moves board i ?S c c1" "keeping_moves board i ?S c1 c2" "keeping_moves board i ?S c2 c3"
    using m1 m2 m3 it(1) c1(2) c2(2) c3 by (auto simp: keeping_moves_def any_moves_def)
  then have run: "(keeping_moves board i ?S)\<^sup>*\<^sup>* c c3"
    by (meson converse_rtranclp_into_rtranclp r_into_rtranclp)
  moreover have "procs c3 = (procs c)(q := \<lparr>pc = Checking (int ?f) (sint (owner it)), arg_id = of_nat i,
      arg_len = n, pbuf = x, files = Suc ?f\<rparr>)" "shared c3 = shared c"
    using c2 by (auto simp: c3_def fun_eq_iff)
  ultimately show ?thesis using run_ok [OF keeping_any [OF run] ok] by blast
qed

lemma lock_moves:
  assumes ok: "config_ok board good c" and idle: "pc (procs c q) = Returned v" and q: "0 \<le> sint q"
    and files: "files (procs c q) < limit"
    and it: "board (shared c) i = Some it" "0 \<le> sint (owner it)" "holder it = None" "anc (owner it) q \<noteq> 0"
      "\<not> n < plain_len it"
  shows "\<exists>c' fd. (keeping_moves board i (process anc limit))\<^sup>*\<^sup>* c c' \<and> config_ok board good c'
    \<and> board (shared c') = (board (shared c))(i \<mapsto> it\<lparr>holder := Some q\<rparr>)
    \<and> procs c' = (procs c)(q := \<lparr>pc = Taking fd, arg_id = of_nat i, arg_len = n,
        pbuf = x, files = Suc (files (procs c q))\<rparr>)"
proof -
  let ?S = "process anc limit"
  have i: "i < BUF_MAX_COUNT" using ok it(1) dom_board by (auto simp: config_ok_def)
  obtain c1 fd where c1: "(keeping_moves board i ?S)\<^sup>*\<^sup>* c c1" "config_ok board good c1" "shared c1 = shared c"
    "procs c1 = (procs c)(q := \<lparr>pc = Checking fd (sint (owner it)), arg_id = of_nat i, arg_len = n,
        pbuf = x, files = Suc (files (procs c q))\<rparr>)"
    using ask_moves [where anc = anc and limit = limit and n = n and x = x, OF ok idle q files it(1,2)] by blast
  obtain c2 where c2: "moves ?S q c1 c2" "config_ok board good c2" "shared c2 = shared c"
    "procs c2 = (procs c)(q := \<lparr>pc = Locking fd, arg_id = of_nat i, arg_len = n,
        pbuf = x, files = Suc (files (procs c q))\<rparr>)"
    using check_move [where anc = anc and limit = limit and c = c1 and q = q, OF c1(2) _ q, of fd "sint (owner it)"]
      c1(3,4) it(4) by auto
  have can: "lockable (arg_len (procs c2 q)) (board (shared c2) (unat (arg_id (procs c2 q))))"
    using c2(3,4) i it(1,3,5) by (simp add: lockable_def)
  have pc2: "pc (procs c2 q) = Locking fd" using c2(4) by simp
  obtain c3 where c3: "moves ?S q c2 c3" "config_ok board good c3"
    "board (shared c3) = (board (shared c))(i \<mapsto> it\<lparr>holder := Some q\<rparr>)"
    "procs c3 = (procs c)(q := \<lparr>pc = Taking fd, arg_id = of_nat i, arg_len = n,
        pbuf = x, files = Suc (files (procs c q))\<rparr>)"
    using lock_move [where anc = anc and limit = limit, OF c2(2) pc2 q can] c2(3,4) i it(1)
    by (auto simp: set_holder_def)
  have "keeping_moves board i ?S c1 c2" "keeping_moves board i ?S c2 c3"
    using c2(1,3) c3(1,3) it(1) by (auto simp: keeping_moves_def any_moves_def)
  with c1(1) have "(keeping_moves board i ?S)\<^sup>*\<^sup>* c c3"
    by (meson rtranclp.rtrancl_into_rtrancl)
  with c3(2-4) show ?thesis by blast
qed

end

section \<open>Emptying and filling a place\<close>

context recycling_device begin

lemma refill_moves:
  assumes ok: "config_ok board good c" and r: "pc (procs c r) = Taking fd" "0 \<le> sint r"
    and it: "board (shared c) i = Some it" "i = unat (arg_id (procs c r))"
    and room: "length (contents it) \<le> length (pbuf (procs c r))"
    and s: "pc (procs c s) = Returned v" "files (procs c s) < limit"
    and n: "unat n \<le> ENTRY_LEN_LIMIT" "unat n \<le> length bytes"
    and size: "expected_decompressed_size bytes n = Inr k"
  shows "\<exists>d c'. moves (process anc limit) r c d \<and> board (shared d) i = None
    \<and> moves (process anc limit) s d c' \<and> config_ok board good c'
    \<and> board (shared c') = (board (shared c))(i \<mapsto>
        \<lparr>contents = take (unat n) bytes, plain_len = k, owner = s, holder = None\<rparr>)
    \<and> (\<forall>q. q \<noteq> r \<longrightarrow> q \<noteq> s \<longrightarrow> procs d q = procs c q \<and> procs c' q = procs c q)"
proof -
  have rs: "r \<noteq> s" using r(1) s(1) by auto
  let ?junk = "replicate ENTRY_LEN_LIMIT 0"
  let ?m = "\<lparr>s_pid = s, s_buffer_len = n, s_decompressed_len = k,
      s_buffer = overwrite 0 (take (unat n) bytes) ?junk\<rparr>"
  have sane: "sane_set ?m" using n by (simp add: sane_set_def)
  have item: "new_item ?m = \<lparr>contents = take (unat n) bytes, plain_len = k, owner = s, holder = None\<rparr>"
    using n(2) take_overwrite_0 [of "take (unat n) bytes" ?junk] by (simp add: new_item_def min_absorb2)
  have good: "good (shared c)" and held: "held_by r (board (shared c)) i"
    using ok r(1) it(2) by (auto simp: config_ok_def proc_ok_def)
  obtain d out where d: "moves (process anc limit) r c d" "config_ok board good d"
      "dev_read (ENCODE_PID r) (shared c) = Inr (OK, out, shared d)" "\<forall>q. q \<noteq> r \<longrightarrow> procs d q = procs c q"
      "board (shared d) i = None"
    using take_move [where anc = anc and limit = limit, OF ok r it(1) [unfolded it(2)] room] it(2) by force
  from set_after_take [OF good r(2) held sane] d(3) obtain u where
    u: "dev_write (set_bytes ?m) (shared d) = Inr (int i, u)"
      "board u = (board (shared c))(i \<mapsto> new_item ?m)"
    by auto
  have "copy_to_clipboard (process anc limit s) ?junk bytes n (view d s) =
      Inr (of_nat i, (view d s)\<lparr>dev := u\<rparr>)"
    using n s(2) size u(1) d(4) rs by (simp add: copy_to_clipboard_def local_sys_def)
  then have m: "moves (process anc limit) s d
      (moved s ((procs d s)\<lparr>pc := Returned (of_nat i)\<rparr>) ((view d s)\<lparr>dev := u\<rparr>) d)"
    using s(1) d(4) rs by (intro call_copy [where junk = ?junk]) simp_all
  let ?c = "moved s ((procs d s)\<lparr>pc := Returned (of_nat i)\<rparr>) ((view d s)\<lparr>dev := u\<rparr>) d"
  have "config_ok board good ?c"
    using moves_refine [OF d(2) m] by simp
  with d(1,5) m show ?thesis
    using u(2) d(4) unfolding item by (intro exI [of _ d] exI [of _ ?c]) simp
qed

lemma race:
  assumes ok: "config_ok board good c" and q: "pc (procs c q) = Checking fq (sint (owner it))" "0 \<le> sint q"
    and r: "pc (procs c r) = Taking fr" "0 \<le> sint r" "arg_id (procs c r) = arg_id (procs c q)"
    and it: "board (shared c) (unat (arg_id (procs c q))) = Some it" "anc (owner it) q \<noteq> 0"
    and room: "length (contents it) \<le> length (pbuf (procs c r))"
    and s: "pc (procs c s) = Returned v" "files (procs c s) < limit"
    and n: "unat n \<le> ENTRY_LEN_LIMIT" "unat n \<le> length bytes" "unat n \<le> length (pbuf (procs c q))"
    and size: "expected_decompressed_size bytes n = Inr k" "\<not> arg_len (procs c q) < k"
    and i: "i = unat (arg_id (procs c q))"
    and new: "new = \<lparr>contents = take (unat n) bytes, plain_len = k, owner = s, holder = None\<rparr>"
  shows "\<exists>c1 d c2 c3 c'.
      moves (process anc limit) q c c1 \<and> shared c1 = shared c \<and> pc (procs c1 q) = Locking fq
    \<and> moves (process anc limit) r c1 d \<and> board (shared d) i = None \<and> pc (procs d q) = Locking fq
    \<and> moves (process anc limit) s d c2 \<and> board (shared c2) i = Some new \<and> pc (procs c2 q) = Locking fq
    \<and> moves (process anc limit) q c2 c3 \<and> board (shared c3) i = Some (new\<lparr>holder := Some q\<rparr>)
    \<and> moves (process anc limit) q c3 c' \<and> board (shared c') i = None \<and> pc (procs c' q) = Returned 0
    \<and> pbuf (procs c' q) = overwrite 0 (take (unat n) bytes) (pbuf (procs c q))"
proof -
  have dist: "q \<noteq> r" "q \<noteq> s" "s \<noteq> r" using q(1) r(1) s(1) by auto
  obtain c1 where c1: "moves (process anc limit) q c c1" "config_ok board good c1" "shared c1 = shared c"
      "procs c1 = (procs c)(q := (procs c q)\<lparr>pc := Locking fq\<rparr>)"
    using check_move [where anc = anc and limit = limit, OF ok q(1,2)] it(2) by auto
  have c1': "pc (procs c1 r) = Taking fr" "board (shared c1) i = Some it" "i = unat (arg_id (procs c1 r))"
      "length (contents it) \<le> length (pbuf (procs c1 r))" "pc (procs c1 s) = Returned v"
      "files (procs c1 s) < limit"
    using c1(3,4) dist r it room s i by simp_all
  obtain d c2 where c2: "moves (process anc limit) r c1 d" "board (shared d) i = None"
      "moves (process anc limit) s d c2" "config_ok board good c2" "board (shared c2) = (board (shared c))(i \<mapsto> new)"
      "procs d q = (procs c q)\<lparr>pc := Locking fq\<rparr>" "procs c2 q = (procs c q)\<lparr>pc := Locking fq\<rparr>"
    using refill_moves [where anc = anc and limit = limit, OF c1(2) c1'(1) r(2) c1'(2-6) n(1,2) size(1)]
      c1(3,4) dist unfolding new by auto
  obtain c3 where c3: "moves (process anc limit) q c2 c3" "config_ok board good c3"
      "board (shared c3) = set_holder q i (board (shared c2))"
      "procs c3 q = (procs c q)\<lparr>pc := Taking fq\<rparr>"
    using lock_move [where anc = anc and limit = limit and c = c2 and q = q and fd = fq, OF c2(4) _ q(2)]
      c2(5,7) size(2) i new by (auto simp: lockable_def)
  then have locked: "board (shared c3) i = Some (new\<lparr>holder := Some q\<rparr>)" using c2(5) by (simp add: set_holder_def)
  obtain c4 where c4: "moves (process anc limit) q c3 c4" "board (shared c4) i = None" "pc (procs c4 q) = Returned 0"
      "pbuf (procs c4 q) = overwrite 0 (take (unat n) bytes) (pbuf (procs c q))"
    using take_move [where anc = anc and limit = limit and c = c3 and q = q and fd = fq
        and it = "new\<lparr>holder := Some q\<rparr>", OF c3(2) _ q(2)] locked c3(4) n i new
    by (auto simp: min_absorb2)
  have "pc (procs c1 q) = Locking fq" "pc (procs d q) = Locking fq" "pc (procs c2 q) = Locking fq"
    "board (shared c2) i = Some new"
    using c1(4) c2(5-7) by simp_all
  with c1(1,3) c2(1-3) c3(1) locked c4 show ?thesis by blast
qed

end

end
