(* ===== verification/System_Theorems.thy ===== *)
theory System_Theorems
  imports Client_Theorems Update_Theorems
begin

text \<open>
  The parts together: the library functions with the driver and the ancestor check of PM, and the
  test programs \<open>test/tclip.c\<close>, \<open>test/tdown.c\<close> and \<open>test/tpm.c\<close>, whose calls of \<open>sleep\<close> and \<open>printf\<close> are
  left out.
\<close>

section \<open>The ancestor check as the library sees it\<close>

text \<open>\<open>answers mp anc\<close>: the stub delivers the low byte of what PM answers, whenever PM answers.\<close>

definition answers :: "mproc list \<Rightarrow> (u32 \<Rightarrow> u32 \<Rightarrow> byte) \<Rightarrow> bool" where
  "answers mp anc \<longleftrightarrow>
     (\<forall>p q r. do_checkifancestor mp p q = Some (Inr r) \<longrightarrow> anc p q = check_if_ancestor (\<lambda>p q. r) p q)"

lemma answers_descends:
  assumes "rooted mp rank" and "answers mp anc"
  shows "anc p q \<noteq> 0 \<longleftrightarrow> descends mp p q"
proof -
  obtain r where r: "do_checkifancestor mp p q = Some (Inr r)" "r = 0 \<or> r = 1" "r = 1 \<longleftrightarrow> descends mp p q"
    using check_rooted [OF assms(1), of p q] by blast
  then have "anc p q = word_of_int r" using assms(2) by (simp add: answers_def check_if_ancestor_def)
  with r(2,3) show ?thesis by auto
qed

section \<open>The test programs\<close>

text \<open>The text \<open>ABZX\<close> as a string literal, and the array \<open>buff\<close> of 1025 characters that starts with \<open>abzx\<close>.\<close>

definition ABZX :: "byte list" where
  "ABZX = [65, 66, 90, 88, 0]"

definition abzx_buff :: "byte list" where
  "abzx_buff = [97, 98, 122, 120] @ replicate 1021 0"

text \<open>What the commands \<open>service up\<close>, \<open>service down\<close> and \<open>service update\<close> do to the system is a parameter.\<close>

datatype service = Service_Up | Service_Down | Service_Update

definition tclip_main ::
  "(service \<Rightarrow> 'w \<Rightarrow> 'w cres) \<Rightarrow> 'w sys \<Rightarrow> byte list \<Rightarrow> 'w \<Rightarrow> (byte list \<times> 'w) cres" where
  "tclip_main service sys junk w =
     rbind (service Service_Up w) (\<lambda>w.
       rbind (copy_to_clipboard sys junk ABZX 4 w) (\<lambda>(i, w).
         rbind (paste_from_clipboard sys i abzx_buff 3 w) (\<lambda>(ret, buff, w).
           if \<not> sint ret < 0 then Inl Assert_Failed
           else rbind (paste_from_clipboard sys i buff 4 w) (\<lambda>(ret, buff, w).
             if ret \<noteq> 0 then Inl Assert_Failed
             else rbind (copy_to_clipboard sys junk buff 1025 w) (\<lambda>(ret, w).
               if \<not> sint ret < 0 then Inl Assert_Failed
               else rbind (service Service_Down w) (\<lambda>w. Inr (buff, w)))))))"

definition tdown_main ::
  "(service \<Rightarrow> 'w \<Rightarrow> 'w cres) \<Rightarrow> 'w sys \<Rightarrow> byte list \<Rightarrow> 'w \<Rightarrow> (byte list \<times> 'w) cres" where
  "tdown_main service sys junk w =
     rbind (service Service_Down w) (\<lambda>w.
       rbind (service Service_Up w) (\<lambda>w.
         rbind (copy_to_clipboard sys junk ABZX 4 w) (\<lambda>(i, w).
           rbind (service Service_Update w) (\<lambda>w.
             rbind (paste_from_clipboard sys i abzx_buff 1025 w) (\<lambda>(ret, buff, w). Inr (buff, w))))))"

definition tpm_main :: "(u32 \<Rightarrow> u32 \<Rightarrow> byte) \<Rightarrow> byte" where
  "tpm_main anc = anc 4 79"

text \<open>A live update: the old process saves, the new one, at the same place, is initialised.\<close>

definition live_update :: "'s ds \<Rightarrow> heap \<Rightarrow> 's \<Rightarrow> driver \<Rightarrow> driver cres" where
  "live_update S h s d =
     rbind (cb_lu_state_save (sef_local_startup S) d s) (\<lambda>(r, t, u).
       rbind (cb_init_lu (sef_local_startup S) (new_process (base (stack_of d)) h) u) (\<lambda>(r, t, u). Inr t))"

lemma live_update_keeps:
  assumes "ds_laws S" and "wf_driver d" and "fresh_heap h"
  shows "\<exists>t. live_update S h s d = Inr t \<and> wf_driver t \<and> board_of t = board_of d"
proof -
  have n: "BUF_MAX_COUNT * ENTRY_LEN_LIMIT \<le> avail h" using assms(3) by (simp add: fresh_heap_def)
  obtain t u t' u' where "cb_lu_state_save (sef_local_startup S) d s = Inr (OK, t, u)"
      "cb_init_lu (sef_local_startup S) (new_process (base (stack_of d)) h) u = Inr (OK, t', u')"
      "restored S d (base (stack_of d)) (avail h) BUF_MAX_COUNT (t', u')"
    using update_callbacks [OF assms, of s "base (stack_of d)"] by blast
  with restored_same_place [OF assms(2) this(3) n] show ?thesis by (simp add: live_update_def)
qed

section \<open>The text of the test programs in the device\<close>

lemma drop_locks_idem: "drop_locks p (drop_locks p b) = drop_locks p b"
proof
  show "drop_locks p (drop_locks p b) x = drop_locks p b x" for x
    by (cases "b x") (simp_all add: drop_locks_def)
qed

lemma ABZX_size: "expected_decompressed_size ABZX 4 = Inr 4"
  by (simp add: ABZX_def expected_decompressed_size_def size_loop.simps isdigit_def digit_char_def
      include_char_def aget_def in_range_def)

lemma copy_ABZX:
  assumes "wf_driver (dev w)" and "open_files w < limit" and "\<not> full_board (board_of (dev w))"
    and "length junk = ENTRY_LEN_LIMIT"
  obtains i s where "i < BUF_MAX_COUNT" "board_of (dev w) i = None"
    "copy_to_clipboard (driver_sys rj wj p anc limit) junk ABZX 4 w = Inr (of_nat i, w\<lparr>dev := s\<rparr>)"
    "wf_driver s" "board_of s = (board_of (dev w))(i \<mapsto>
        \<lparr>contents = [65, 66, 90, 88], plain_len = 4, owner = p, holder = None\<rparr>)"
  using driver_copy [OF assms(1,2) _ _ assms(4) ABZX_size, where pid = p and anc = anc] assms(3) that
  by (auto simp: ABZX_def ENTRY_LEN_LIMIT_def)

section \<open>Properties\<close>

text \<open>C4: With the process table of PM, exactly the copying process and its descendants can paste: they get the text and
  0, every other process gets -1, and then buffer and device do not change.\<close>

theorem paste_only_descendants:
  assumes "rooted mp rank" and "answers mp anc"
    and "wf_driver (dev w)" and "open_files w < limit" and "0 \<le> sint q"
    and "board_of (dev w) i = Some it" and "holder it = None" and "0 \<le> sint (owner it)"
    and "\<not> len < plain_len it" and "length (contents it) \<le> length buf"
  shows "if descends mp (owner it) q
    then \<exists>s. paste_from_clipboard (driver_sys rj wj q anc limit) (of_nat i) buf len w
        = Inr (0, overwrite 0 (contents it) buf, w\<lparr>dev := s\<rparr>)
      \<and> wf_driver s \<and> board_of s = (drop_locks q (board_of (dev w)))(i := None)
    else paste_from_clipboard (driver_sys rj wj q anc limit) (of_nat i) buf len w
        = Inr (- 1, buf, w\<lparr>open_files := Suc (open_files w)\<rparr>)"
proof (cases "descends mp (owner it) q")
  case True
  then have "anc (owner it) q \<noteq> 0" using answers_descends [OF assms(1,2), of "owner it" q] by simp
  from driver_paste [where anc = anc and rjunk = rj and wjunk = wj and buf = buf, OF assms(3-8) this assms(9)] assms(10) True
  show ?thesis by auto
next
  case False
  then have "anc (owner it) q = 0" using answers_descends [OF assms(1,2), of "owner it" q] by simp
  from driver_paste_denied [where anc = anc, OF assms(3,4,6,8) this] False show ?thesis by simp
qed

text \<open>The sample text was copied by process 7; in a table where 7 is the parent of 9, process 9 may paste it.\<close>

definition family :: "mproc list" where
  "family = [\<lparr>mp_pid = 1, mp_parent = 0, mp_in_use = True\<rparr>, \<lparr>mp_pid = 7, mp_parent = 0, mp_in_use = True\<rparr>,
    \<lparr>mp_pid = 9, mp_parent = 1, mp_in_use = True\<rparr>]"

definition family_anc :: "u32 \<Rightarrow> u32 \<Rightarrow> byte" where
  "family_anc p q = check_if_ancestor (\<lambda>p q. case do_checkifancestor family p q of Some (Inr r) \<Rightarrow> r | _ \<Rightarrow> - 1) p q"

lemma family: "rooted family id" "answers family family_anc" "descends family 7 9" "\<not> descends family 9 7"
proof -
  show "rooted family id" by (auto simp: rooted_def family_def less_Suc_eq nth_Cons')
  show "answers family family_anc" by (simp add: answers_def family_anc_def check_if_ancestor_def)
  have slot: "slot_of family 9 2" "slot_of family 7 1"
    by (auto simp: slot_of_def family_def less_2_cases_iff)
  have up: "chain family 2 [1, 0]" "chain family 1 [0]" by (simp_all add: family_def)
  have anc: "7 \<in> ancestors family [1, 0]" "9 \<notin> ancestors family [0]" by (simp_all add: ancestors_def family_def)
  show "descends family 7 9" unfolding descends_def using slot(1) up(1) anc(1) by blast
  have "ks = [0]" if "chain family 1 ks" for ks using chain_unique [OF that up(2)] .
  then show "\<not> descends family 9 7" unfolding descends_def using slot_of_unique [OF slot(2)] anc(2) by auto
qed

theorem paste_only_descendants_witness:
  "\<exists>i d s. board_of d = [i \<mapsto> new_item sample_set]
    \<and> paste_from_clipboard (driver_sys [] [] 9 family_anc 20) (of_nat i) [0, 0, 0, 0] 4 \<lparr>dev = d, open_files = 3\<rparr>
        = Inr (0, overwrite 0 (contents (new_item sample_set)) [0, 0, 0, 0], \<lparr>dev = s, open_files = 3\<rparr>)"
proof -
  obtain i d where d: "wf_driver d" "board_of d = [i \<mapsto> new_item sample_set]"
    using sample_stored by blast
  from paste_only_descendants [OF family(1,2), of "\<lparr>dev = d, open_files = 3\<rparr>" 20 9 i "new_item sample_set" 4
      "[0, 0, 0, 0]" "[]" "[]"] d family(3)
  show ?thesis by (auto simp: sample_item)
qed

text \<open>C28: The test program \<open>tclip\<close> passes its three assertions whenever \<open>service up\<close> leaves a device that is not full
  and its process may paste its own texts: the short paste is refused, the second one succeeds and leaves \<open>ABZX\<close> in the buffer, the
  copy of 1025 characters is refused, the texts of the device are as before, and one file stays open.\<close>

theorem tclip_passes:
  assumes "service Service_Up v = Inr w"
    and "wf_driver (dev w)" and "Suc (open_files w) < limit" and "\<not> full_board (board_of (dev w))"
    and "length junk = ENTRY_LEN_LIMIT" and "0 \<le> sint p" and "anc p p \<noteq> 0"
  shows "\<exists>s. tclip_main service (driver_sys rj wj p anc limit) junk v =
      rbind (service Service_Down (w\<lparr>open_files := Suc (open_files w), dev := s\<rparr>))
        (\<lambda>w. Inr ([65, 66, 90, 88] @ replicate 1021 0, w))
    \<and> wf_driver s \<and> board_of s = drop_locks p (board_of (dev w))"
proof -
  let ?sys = "driver_sys rj wj p anc limit"
  let ?it = "\<lparr>contents = [65, 66, 90, 88], plain_len = 4, owner = p, holder = None\<rparr>"
  have files: "open_files w < limit" using assms(3) by simp
  obtain i s where s: "board_of (dev w) i = None" "i < BUF_MAX_COUNT"
    "copy_to_clipboard ?sys junk ABZX 4 w = Inr (of_nat i, w\<lparr>dev := s\<rparr>)"
    "wf_driver s" "board_of s = (board_of (dev w))(i \<mapsto> ?it)"
    using copy_ABZX [where rj = rj and wj = wj and p = p and anc = anc, OF assms(2) files assms(4,5)] by metis
  have it: "board_of (dev (w\<lparr>dev := s\<rparr>)) i = Some ?it" using s(5) by simp
  have no: "\<not> lockable 3 (drop_locks p (board_of (dev (w\<lparr>dev := s\<rparr>))) i)"
    using it by (simp add: lockable_def drop_locks_def)
  from driver_paste_refused [where anc = anc and rjunk = rj and wjunk = wj and buf = abzx_buff, OF _ _ it _ _ no]
    s(4) files assms(6,7)
  obtain t where t: "paste_from_clipboard ?sys (of_nat i) abzx_buff 3 (w\<lparr>dev := s\<rparr>)
      = Inr (- 1, abzx_buff, w\<lparr>dev := t, open_files := Suc (open_files w)\<rparr>)"
    "wf_driver t" "board_of t = drop_locks p (board_of s)" by auto
  let ?w = "w\<lparr>dev := t, open_files := Suc (open_files w)\<rparr>"
  have it2: "board_of (dev ?w) i = Some ?it" using t(3) s(5) by (simp add: drop_locks_def)
  from driver_paste [where anc = anc and pid = p and rjunk = rj and wjunk = wj and buf = abzx_buff and n = 4 and limit = limit,
      OF _ _ assms(6) it2] t(2) assms(3,6,7)
  obtain u where u: "paste_from_clipboard ?sys (of_nat i) abzx_buff 4 ?w
      = Inr (0, [65, 66, 90, 88] @ replicate 1021 0, ?w\<lparr>dev := u\<rparr>)"
    "wf_driver u" "board_of u = (drop_locks p (board_of t))(i := None)"
    by (auto simp: abzx_buff_def overwrite_0)
  have "board_of u = drop_locks p (board_of (dev w))"
    using s(1) unfolding u(3) t(3) drop_locks_idem by (auto simp: s(5) drop_locks_def fun_eq_iff)
  moreover have "copy_to_clipboard ?sys junk buf 1025 w' = Inr (- 1, w')" for buf w'
    by (simp add: copy_to_clipboard_def ENTRY_LEN_LIMIT_def)
  ultimately show ?thesis
    using assms(1) s(3) t(1) u(1,2) by (intro exI [of _ u]) (simp add: tclip_main_def)
qed

theorem tclip_passes_witness:
  "\<exists>s. tclip_main (\<lambda>_. Inr) (driver_sys [] [] 7 family_anc 20) (replicate 1024 0) sample_world =
      Inr ([65, 66, 90, 88] @ replicate 1021 0, sample_world\<lparr>open_files := 4, dev := s\<rparr>)"
proof -
  have "family_anc 7 7 \<noteq> 0" by (simp add: family_anc_def do_checkifancestor_def check_if_ancestor_def)
  moreover have "open_files sample_world = 3" by (simp add: sample_world_def)
  ultimately show ?thesis
    using tclip_passes [of "\<lambda>_. Inr" sample_world sample_world 20 "replicate 1024 0" 7 family_anc "[]" "[]"]
    by (auto simp: ENTRY_LEN_LIMIT_def)
qed

text \<open>The test program \<open>tdown\<close>: a text copied before a live update of the driver is pasted after it, when the new
  process has its static variables where the old one had them.\<close>

theorem tdown_pastes:
  assumes "wf_driver (dev w)" and "open_files w < limit" and "\<not> full_board (board_of (dev w))"
    and "length junk = ENTRY_LEN_LIMIT" and "0 \<le> sint p" and "anc p p \<noteq> 0"
    and "ds_laws S" and "fresh_heap h"
    and "service Service_Down v = Inr v'" and "service Service_Up v' = Inr w"
    and "service Service_Update = (\<lambda>w. rbind (live_update S h st (dev w)) (\<lambda>d. Inr (w\<lparr>dev := d\<rparr>)))"
  shows "\<exists>s. tdown_main service (driver_sys rj wj p anc limit) junk v = Inr ([65, 66, 90, 88] @ replicate 1021 0, w\<lparr>dev := s\<rparr>)
    \<and> wf_driver s \<and> board_of s = drop_locks p (board_of (dev w))"
proof -
  let ?sys = "driver_sys rj wj p anc limit"
  let ?it = "\<lparr>contents = [65, 66, 90, 88], plain_len = 4, owner = p, holder = None\<rparr>"
  obtain i s where s: "board_of (dev w) i = None" "i < BUF_MAX_COUNT"
    "copy_to_clipboard ?sys junk ABZX 4 w = Inr (of_nat i, w\<lparr>dev := s\<rparr>)"
    "wf_driver s" "board_of s = (board_of (dev w))(i \<mapsto> ?it)"
    using copy_ABZX [where rj = rj and wj = wj and p = p and anc = anc, OF assms(1-4)] by metis
  obtain t where t: "live_update S h st s = Inr t" "wf_driver t" "board_of t = board_of s"
    using live_update_keeps [OF assms(7) s(4) assms(8)] by blast
  have it: "board_of (dev (w\<lparr>dev := t\<rparr>)) i = Some ?it" using t(3) s(5) by simp
  from driver_paste [where anc = anc and pid = p and rjunk = rj and wjunk = wj and buf = abzx_buff and n = 1025 and limit = limit,
      OF _ _ assms(5) it] t(2) assms(2,5,6)
  obtain u where u: "paste_from_clipboard ?sys (of_nat i) abzx_buff 1025 (w\<lparr>dev := t\<rparr>)
      = Inr (0, [65, 66, 90, 88] @ replicate 1021 0, w\<lparr>dev := u\<rparr>)"
    "wf_driver u" "board_of u = (drop_locks p (board_of t))(i := None)"
    by (auto simp: abzx_buff_def overwrite_0)
  have "board_of u = drop_locks p (board_of (dev w))"
    using s(1) by (auto simp: u(3) t(3) s(5) drop_locks_def fun_eq_iff)
  then show ?thesis using assms(9-11) s(3) t(1) u(1,2) by (intro exI [of _ u]) (simp add: tdown_main_def)
qed

definition sample_service :: "service \<Rightarrow> driver world \<Rightarrow> driver world cres" where
  "sample_service k = (case k of
     Service_Up \<Rightarrow> (\<lambda>w. Inr (w\<lparr>dev := sample_driver\<rparr>))
   | Service_Down \<Rightarrow> Inr
   | Service_Update \<Rightarrow> (\<lambda>w. rbind (live_update map_store sample_heap Map.empty (dev w)) (\<lambda>d. Inr (w\<lparr>dev := d\<rparr>))))"

theorem tdown_pastes_witness:
  "\<exists>s. tdown_main sample_service
      (driver_sys [] [] 7 family_anc 20) (replicate 1024 0) sample_world =
      Inr ([65, 66, 90, 88] @ replicate 1021 0, sample_world\<lparr>dev := s\<rparr>)"
proof -
  have "family_anc 7 7 \<noteq> 0" by (simp add: family_anc_def do_checkifancestor_def check_if_ancestor_def)
  moreover have "sample_service Service_Down sample_world = Inr sample_world"
      "sample_service Service_Up sample_world = Inr sample_world"
    by (simp_all add: sample_service_def sample_world_def)
  moreover have "sample_service Service_Update =
      (\<lambda>w. rbind (live_update map_store sample_heap Map.empty (dev w)) (\<lambda>d. Inr (w\<lparr>dev := d\<rparr>)))"
    by (simp add: sample_service_def)
  ultimately show ?thesis
    using tdown_pastes [of sample_world 20 "replicate 1024 0" 7 family_anc map_store sample_heap sample_service
        sample_world sample_world Map.empty "[]" "[]"] map_store sample_heap
    by (auto simp: ENTRY_LEN_LIMIT_def)
qed

end
