(* ===== verification/Interleaving_Theorems.thy ===== *)
theory Interleaving_Theorems
  imports Interleaving_Moves System_Theorems
begin

text \<open>
  Processes that paste and copy concurrently, on the driver, which may be updated while they run: the invariant of
  the locks, what a paste delivers, what the ancestor check is worth, and requests sent without the library.
\<close>

section \<open>The driver and its processes\<close>

definition driver_procs ::
  "byte list \<Rightarrow> byte list \<Rightarrow> (u32 \<Rightarrow> u32 \<Rightarrow> byte) \<Rightarrow> nat \<Rightarrow> u32 \<Rightarrow> driver world sys" where
  "driver_procs rj wj anc limit = (\<lambda>q. driver_sys rj wj q anc limit)"

text \<open>
  One step of process \<open>q\<close>.  What the handlers' variables hold before a request may differ from step to step.
\<close>

definition driver_moves ::
  "(u32 \<Rightarrow> u32 \<Rightarrow> byte) \<Rightarrow> nat \<Rightarrow> u32 \<Rightarrow> driver config \<Rightarrow> driver config \<Rightarrow> bool" where
  "driver_moves anc limit q c c' \<longleftrightarrow> (\<exists>rj wj. moves (driver_procs rj wj anc limit) q c c')"

text \<open>
  A live update of the driver, which passes its state through the data store \<open>S\<close>; the new process has its static
  variables where the old one had them.
\<close>

definition updates :: "'s ds \<Rightarrow> driver config \<Rightarrow> driver config \<Rightarrow> bool" where
  "updates S c c' \<longleftrightarrow>
     (\<exists>h s t. ds_laws S \<and> fresh_heap h \<and> live_update S h s (shared c) = Inr t \<and> c' = c\<lparr>shared := t\<rparr>)"

text \<open>Steps of the system, steps that are not of \<open>q\<close>, and steps that leave an item at \<open>i\<close>.\<close>

definition runs_on ::
  "'s ds \<Rightarrow> (u32 \<Rightarrow> u32 \<Rightarrow> byte) \<Rightarrow> nat \<Rightarrow> driver config \<Rightarrow> driver config \<Rightarrow> bool" where
  "runs_on S anc limit c c' \<longleftrightarrow> (\<exists>q. driver_moves anc limit q c c') \<or> updates S c c'"

definition others_run ::
  "'s ds \<Rightarrow> (u32 \<Rightarrow> u32 \<Rightarrow> byte) \<Rightarrow> nat \<Rightarrow> u32 \<Rightarrow> driver config \<Rightarrow> driver config \<Rightarrow> bool" where
  "others_run S anc limit q c c' \<longleftrightarrow> (\<exists>r. r \<noteq> q \<and> driver_moves anc limit r c c') \<or> updates S c c'"

definition keeps_item ::
  "'s ds \<Rightarrow> (u32 \<Rightarrow> u32 \<Rightarrow> byte) \<Rightarrow> nat \<Rightarrow> nat \<Rightarrow> driver config \<Rightarrow> driver config \<Rightarrow> bool" where
  "keeps_item S anc limit i c c' \<longleftrightarrow> runs_on S anc limit c c' \<and> board_of (shared c') i \<noteq> None"

text \<open>At the start no call is running and no text is locked.\<close>

definition start_config :: "driver config \<Rightarrow> bool" where
  "start_config c \<longleftrightarrow> wf_driver (shared c) \<and> all_idle c \<and> (\<forall>q i. \<not> held_by q (board_of (shared c)) i)"

definition reaches :: "'s ds \<Rightarrow> (u32 \<Rightarrow> u32 \<Rightarrow> byte) \<Rightarrow> nat \<Rightarrow> driver config \<Rightarrow> bool" where
  "reaches S anc limit c \<longleftrightarrow> (\<exists>c0. start_config c0 \<and> (runs_on S anc limit)\<^sup>*\<^sup>* c0 c)"

lemmas procs_fold = driver_sys_def [symmetric] driver_procs_def [symmetric]
lemmas driver_refine = device.moves_refine [unfolded procs_fold]
lemmas driver_other = device.other_step [unfolded procs_fold]
lemmas driver_keeping = device.keeping_step [unfolded procs_fold]
lemmas driver_taken = device.taken_text [unfolded procs_fold]
lemmas driver_lock_moves = device.lock_moves [unfolded procs_fold]
lemmas driver_ask_moves = device.ask_moves [unfolded procs_fold]
lemmas driver_race = recycling.race [unfolded procs_fold]

lemma keeping_driver:
  "(keeping_moves board_of i (driver_procs rj wj anc limit))\<^sup>*\<^sup>* c c' \<Longrightarrow> (keeps_item S anc limit i)\<^sup>*\<^sup>* c c'"
proof (erule rtranclp_mono [THEN predicate2D, rotated], rule predicate2I)
  fix c d
  assume "keeping_moves board_of i (driver_procs rj wj anc limit) c d"
  then obtain q where "moves (driver_procs rj wj anc limit) q c d" "board_of (shared d) i \<noteq> None"
    by (auto simp: keeping_moves_def any_moves_def)
  then show "keeps_item S anc limit i c d"
    unfolding keeps_item_def runs_on_def driver_moves_def by blast
qed

lemma keeps_runs: "(keeps_item S anc limit i)\<^sup>*\<^sup>* c c' \<Longrightarrow> (runs_on S anc limit)\<^sup>*\<^sup>* c c'"
  by (erule rtranclp_mono [THEN predicate2D, rotated]) (auto simp: keeps_item_def)

lemma update_step:
  assumes "config_ok board_of wf_driver c" and "updates S c c'"
  shows "config_ok board_of wf_driver c' \<and> board_of (shared c') = board_of (shared c) \<and> procs c' = procs c"
proof -
  from assms(2) obtain h s t where t: "ds_laws S" "fresh_heap h" "live_update S h s (shared c) = Inr t"
      "c' = c\<lparr>shared := t\<rparr>"
    by (auto simp: updates_def)
  have "wf_driver (shared c)" using assms(1) by (simp add: config_ok_def)
  from live_update_keeps [OF t(1) this t(2), of s] t(3) have "wf_driver t" "board_of t = board_of (shared c)"
    by auto
  with assms(1) t(4) show ?thesis by (simp add: config_ok_def)
qed

lemma run_config_ok:
  "(runs_on S anc limit)\<^sup>*\<^sup>* c c' \<Longrightarrow> config_ok board_of wf_driver c \<Longrightarrow> config_ok board_of wf_driver c'"
  by (induction rule: rtranclp_induct) (auto simp: runs_on_def driver_moves_def dest: driver_refine update_step)

lemma others_frame:
  assumes "(others_run S anc limit q)\<^sup>*\<^sup>* c c'" and "config_ok board_of wf_driver c"
    and "board_of (shared c) i = Some it" and "holder it = Some q"
  shows "config_ok board_of wf_driver c' \<and> procs c' q = procs c q \<and> board_of (shared c') i = Some it"
  using assms(1)
proof (induction rule: rtranclp_induct)
  case base
  from assms show ?case by simp
next
  case (step d d')
  then consider r rj wj where "r \<noteq> q" "moves (driver_procs rj wj anc limit) r d d'" | "updates S d d'"
    by (auto simp: others_run_def driver_moves_def)
  then show ?case
  proof cases
    case 1
    with step.IH driver_other [OF _ 1(2,1) _ assms(4)] show ?thesis by metis
  next
    case 2
    with step.IH update_step [OF _ 2] show ?thesis by metis
  qed
qed

lemma keeping_run:
  assumes "(keeps_item S anc limit i)\<^sup>*\<^sup>* c c'" and "config_ok board_of wf_driver c"
    and "board_of (shared c) i = Some it" and "checked anc q (owner it) (of_nat i) (procs c q)"
  shows "config_ok board_of wf_driver c' \<and> (\<exists>h. board_of (shared c') i = Some (it\<lparr>holder := h\<rparr>))
    \<and> checked anc q (owner it) (of_nat i) (procs c' q)"
  using assms(1)
proof (induction rule: rtranclp_induct)
  case base
  have "board_of (shared c) i = Some (it\<lparr>holder := holder it\<rparr>)" using assms(3) by simp
  with assms(2,4) show ?case by blast
next
  case (step d d')
  then obtain h where d: "config_ok board_of wf_driver d" "board_of (shared d) i = Some (it\<lparr>holder := h\<rparr>)"
      "board_of (shared d') i \<noteq> None" "checked anc q (owner it) (of_nat i) (procs d q)"
    and "(\<exists>r rj wj. moves (driver_procs rj wj anc limit) r d d') \<or> updates S d d'"
    by (auto simp: keeps_item_def runs_on_def driver_moves_def)
  then consider r rj wj where "moves (driver_procs rj wj anc limit) r d d'" | "updates S d d'" by blast
  then show ?case
  proof cases
    case 1
    show ?thesis by (rule driver_keeping [OF d(1) 1 d(2-4)])
  next
    case 2
    from update_step [OF d(1) 2] d(2,4) show ?thesis by metis
  qed
qed

lemma start_ok: "start_config c \<Longrightarrow> config_ok board_of wf_driver c"
proof -
  have "\<not> is_Taking (pc (procs c q))" if "all_idle c" for q
    using that by (cases "pc (procs c q)") (auto simp: all_idle_def dest: spec [of _ q])
  then show "start_config c \<Longrightarrow> config_ok board_of wf_driver c"
    by (auto simp: start_config_def config_ok_def proc_ok_def all_idle_def)
qed

lemma reaches_ok: "reaches S anc limit c \<Longrightarrow> config_ok board_of wf_driver c"
  by (auto simp: reaches_def intro: run_config_ok start_ok)

text \<open>A start with one stored text and processes that have done nothing.\<close>

definition idle_config :: "driver \<Rightarrow> driver config" where
  "idle_config d = \<lparr>shared = d,
     procs = (\<lambda>q. \<lparr>pc = Returned 0, arg_id = 0, arg_len = 0, pbuf = [], files = 3\<rparr>)\<rparr>"

lemma idle_config [simp]:
  "shared (idle_config d) = d" "pc (procs (idle_config d) q) = Returned 0" "files (procs (idle_config d) q) = 3"
  by (simp_all add: idle_config_def)

lemma idle_start:
  "wf_driver d \<Longrightarrow> board_of d = [i \<mapsto> new_item sample_set] \<Longrightarrow> start_config (idle_config d)"
  by (simp add: start_config_def all_idle_def held_by_def sample_item)

lemma idle_reaches: "start_config c \<Longrightarrow> reaches S anc limit c"
  by (auto simp: reaches_def)

text \<open>Process 9 runs up to its take, while the others do nothing.\<close>

lemma sample_run:
  obtains i c fd where "start_config c" "i < BUF_MAX_COUNT" "board_of (shared c) = [i \<mapsto> new_item sample_set]"
    "pc (procs c q) = Returned 0"
    "\<exists>c'. (keeps_item map_store (\<lambda>p q. 1) 20 i)\<^sup>*\<^sup>* c c'
      \<and> board_of (shared c') = [i \<mapsto> (new_item sample_set)\<lparr>holder := Some 9\<rparr>]
      \<and> procs c' 9 = \<lparr>pc = Taking fd, arg_id = of_nat i, arg_len = 4, pbuf = [0, 0, 0], files = 4\<rparr>
      \<and> procs c' 7 = procs c 7"
proof -
  obtain i d where d: "wf_driver d" "board_of d = [i \<mapsto> new_item sample_set]" "i < BUF_MAX_COUNT"
    using sample_stored by blast
  note start = idle_start [OF d(1,2)]
  obtain c fd where c: "(keeping_moves board_of i (driver_procs [] [] (\<lambda>p q. 1) 20))\<^sup>*\<^sup>* (idle_config d) c"
      "procs c = (procs (idle_config d))(9 := \<lparr>pc = Taking fd, arg_id = of_nat i, arg_len = 4,
        pbuf = [0, 0, 0], files = 4\<rparr>)" "board_of (shared c) = [i \<mapsto> (new_item sample_set)\<lparr>holder := Some 9\<rparr>]"
    using driver_lock_moves [where rjunk = "[]" and wjunk = "[]" and anc = "\<lambda>p q. 1" and limit = 20 and q = 9
        and n = 4 and x = "[0, 0, 0]" and it = "new_item sample_set" and i = i, OF start_ok [OF start]] d(2)
    by (auto simp: sample_item)
  from c keeping_driver [OF c(1), of map_store] have "\<exists>c'. (keeps_item map_store (\<lambda>p q. 1) 20 i)\<^sup>*\<^sup>* (idle_config d) c'
      \<and> board_of (shared c') = [i \<mapsto> (new_item sample_set)\<lparr>holder := Some 9\<rparr>]
      \<and> procs c' 9 = \<lparr>pc = Taking fd, arg_id = of_nat i, arg_len = 4, pbuf = [0, 0, 0], files = 4\<rparr>
      \<and> procs c' 7 = procs (idle_config d) 7"
    by auto
  with d start show thesis by (intro that [of "idle_config d" i fd]) simp_all
qed

section \<open>Properties\<close>

text \<open>\<open>paste_from_clipboard\<close> is the sequence of its five steps, whatever the system calls do: cut at its
  system calls and run without interruption the steps do what the function does, faults and early returns included,
  and after five of them the call has returned.\<close>

theorem paste_in_steps:
  "paste_steps 5 sys i blen (Opening, buf, w) =
     rbind (paste_from_clipboard sys i buf blen w) (\<lambda>(r, b, w'). Inr (Returned r, b, w'))"
  by (rule paste_steps_function)

text \<open>C21: In every run of processes that paste and copy concurrently, with live updates in between, every step of a process is a step of the
  system whose device is the abstract clipboard: it asks, locks, takes or stores one item atomically, on the driver's
  well-formed state, and leaves the calls of the other processes alone.\<close>

theorem interleaving_refines:
  assumes "reaches S anc limit c" and "driver_moves anc limit q c c'"
  shows "wf_driver (shared c')
    \<and> board_moves anc q (board_of (shared c), procs c q) (board_of (shared c'), procs c' q)
    \<and> (\<forall>r. r \<noteq> q \<longrightarrow> procs c' r = procs c r)"
  using assms(2) driver_refine [OF reaches_ok [OF assms(1)]] by (auto simp: driver_moves_def config_ok_def)

theorem interleaving_refines_witness:
  "\<exists>c'. driver_moves (\<lambda>p q. 1) 20 9 (idle_config sample_driver) c'
    \<and> board_moves (\<lambda>p q. 1) 9 (board_of sample_driver, procs (idle_config sample_driver) 9)
        (board_of (shared c'), procs c' 9)"
proof -
  let ?c = "idle_config sample_driver"
  have "start_config ?c"
    using sample_driver(1,2) by (simp add: start_config_def all_idle_def held_by_def)
  then have "reaches map_store (\<lambda>p q. 1) 20 ?c" by (rule idle_reaches)
  moreover have "moves (driver_procs [] [] (\<lambda>p q. 1) 20) 9 ?c
      (moved 9 ((procs ?c 9)\<lparr>pc := Opening, arg_id := 5, arg_len := 4, pbuf := [0]\<rparr>) (view ?c 9) ?c)"
    by (rule call_paste [OF refl]) simp
  then have "\<exists>c'. driver_moves (\<lambda>p q. 1) 20 9 ?c c'"
    unfolding driver_moves_def by blast
  ultimately show ?thesis
    using interleaving_refines [of map_store "\<lambda>p q. 1" 20 ?c 9] by fastforce
qed

text \<open>C8: In every reachable configuration of concurrent pastes, copies and live updates a text is locked by a process exactly when
  this process is between the lock and the take of a paste of this text: no returned call leaves a lock behind, no two
  pastes hold the same text, and no take finds that it has no lock.\<close>

theorem locks_are_running_pastes:
  assumes "reaches S anc limit c"
  shows "held_by q (board_of (shared c)) i \<longleftrightarrow>
    (\<exists>fd. pc (procs c q) = Taking fd) \<and> i = unat (arg_id (procs c q))"
  using reaches_ok [OF assms] by (simp add: config_ok_def proc_ok_def is_Taking_def)

theorem locks_are_running_pastes_witness:
  "\<exists>i c. reaches map_store (\<lambda>p q. 1) 20 c \<and> pc (procs c 7) = Returned 0
    \<and> held_by 9 (board_of (shared c)) i \<and> (\<forall>j. \<not> held_by 7 (board_of (shared c)) j)"
proof -
  obtain i c0 c fd where c: "start_config c0" "i < BUF_MAX_COUNT" "pc (procs c0 7) = Returned 0"
      "(keeps_item map_store (\<lambda>p q. 1) 20 i)\<^sup>*\<^sup>* c0 c" "procs c 7 = procs c0 7"
      "procs c 9 = \<lparr>pc = Taking fd, arg_id = of_nat i, arg_len = 4, pbuf = [0, 0, 0], files = 4\<rparr>"
    using sample_run by metis
  have "reaches map_store (\<lambda>p q. 1) 20 c"
    using c(1) keeps_runs [OF c(4)] by (auto simp: reaches_def)
  with locks_are_running_pastes [OF this] c(2,3,5,6) show ?thesis
    by (intro exI [of _ i] exI [of _ c]) simp
qed

text \<open>C9: Once a paste has its lock, no sequence of pastes and copies of other processes and live updates touches the locked text, and
  the take that follows, whenever it comes, empties the entry and delivers exactly the text that was locked with
  status 0, provided that the caller's buffer holds it.  So a process that never takes keeps the entry for ever.\<close>

theorem locked_text_delivered:
  assumes "reaches S anc limit c" and "pc (procs c q) = Taking fd" and "0 \<le> sint q"
    and "(others_run S anc limit q)\<^sup>*\<^sup>* c c'"
  shows "\<exists>it t. board_of (shared c) (unat (arg_id (procs c q))) = Some it \<and> holder it = Some q
    \<and> board_of (shared c') (unat (arg_id (procs c q))) = Some it \<and> procs c' q = procs c q
    \<and> wf_driver t \<and> board_of t = (board_of (shared c'))(unat (arg_id (procs c q)) := None)
    \<and> paste_step (driver_sys rj wj q anc limit) (arg_id (procs c q)) (arg_len (procs c q))
        (Taking fd, pbuf (procs c q), view c' q) =
      (if length (pbuf (procs c q)) < length (contents it) then Inl Out_Of_Bounds
       else Inr (Returned 0, overwrite 0 (contents it) (pbuf (procs c q)),
              \<lparr>dev = t, open_files = files (procs c q) - 1\<rparr>))"
proof -
  let ?i = "unat (arg_id (procs c q))"
  note ok = reaches_ok [OF assms(1)]
  have "held_by q (board_of (shared c)) ?i"
    using ok assms(2) by (simp add: config_ok_def proc_ok_def)
  then obtain it where it: "board_of (shared c) ?i = Some it" "holder it = Some q"
    by (auto simp: held_by_def split: option.splits)
  note c' = others_frame [OF assms(4) ok it]
  have "pc (procs c' q) = Taking fd" "board_of (shared c') (unat (arg_id (procs c' q))) = Some it"
    using c' assms(2) by simp_all
  from driver_taken [where anc = anc and limit = limit and rjunk = rj and wjunk = wj,
      OF conjunct1 [OF c'] this(1) assms(3) this(2)] c' it
  show ?thesis by auto
qed

theorem locked_text_delivered_witness:
  "\<exists>i c fd t. pc (procs c 9) = Taking fd \<and> arg_id (procs c 9) = of_nat i
    \<and> paste_step (driver_sys [] [] 9 (\<lambda>p q. 1) 20) (of_nat i) 4 (Taking fd, [0, 0, 0], view c 9) =
        Inr (Returned 0, [97, 51, 98], \<lparr>dev = t, open_files = 3\<rparr>)"
proof -
  obtain i c0 c fd where c: "start_config c0" "i < BUF_MAX_COUNT"
      "(keeps_item map_store (\<lambda>p q. 1) 20 i)\<^sup>*\<^sup>* c0 c"
      "board_of (shared c) = [i \<mapsto> (new_item sample_set)\<lparr>holder := Some 9\<rparr>]"
      "procs c 9 = \<lparr>pc = Taking fd, arg_id = of_nat i, arg_len = 4, pbuf = [0, 0, 0], files = 4\<rparr>"
    using sample_run by metis
  have "reaches map_store (\<lambda>p q. 1) 20 c"
    using c(1) keeps_runs [OF c(3)] by (auto simp: reaches_def)
  from locked_text_delivered [OF this, of 9 fd c] c(2,4,5) show ?thesis
    by (auto simp: sample_item overwrite_def intro!: exI [of _ i] exI [of _ c] exI [of _ fd])
qed

text \<open>C12: The ancestor check protects a text as long as its entry is not emptied: if a paste begins when the text
  is stored and gets a lock on its entry while the entry has been occupied all the time, then the caller is
  allowed to read this text, and this text is what it takes.\<close>

theorem check_holds_while_kept:
  assumes "reaches S anc limit c" and "is_Returned (pc (procs c q))" and "0 \<le> sint q"
    and "board_of (shared c) i = Some it"
    and "(keeps_item S anc limit i)\<^sup>*\<^sup>* c c'"
    and "pc (procs c' q) = Taking fd" and "arg_id (procs c' q) = of_nat i"
  shows "anc (owner it) q \<noteq> 0
    \<and> (\<exists>t. paste_step (driver_sys rj wj q anc limit) (of_nat i) (arg_len (procs c' q))
        (Taking fd, pbuf (procs c' q), view c' q) =
      (if length (pbuf (procs c' q)) < length (contents it) then Inl Out_Of_Bounds
       else Inr (Returned 0, overwrite 0 (contents it) (pbuf (procs c' q)),
              \<lparr>dev = t, open_files = files (procs c' q) - 1\<rparr>)))"
proof -
  note ok = reaches_ok [OF assms(1)]
  have i: "i < BUF_MAX_COUNT"
    using device.dom_board [OF _ assms(4)] ok by (simp add: config_ok_def)
  have "checked anc q (owner it) (of_nat i) (procs c q)"
    using assms(2) by (auto simp: checked_def is_Returned_def)
  from keeping_run [OF assms(5) ok assms(4) this] obtain h where h: "config_ok board_of wf_driver c'"
      "board_of (shared c') i = Some (it\<lparr>holder := h\<rparr>)" "checked anc q (owner it) (of_nat i) (procs c' q)"
    by blast
  from h(3) assms(6,7) have "anc (owner it) q \<noteq> 0" by (simp add: checked_def)
  moreover have "board_of (shared c') (unat (arg_id (procs c' q))) = Some (it\<lparr>holder := h\<rparr>)"
    using h(2) assms(7) i by simp
  from driver_taken [where anc = anc and limit = limit and rjunk = rj and wjunk = wj, OF h(1) assms(6,3) this] assms(7)
  have "\<exists>t. paste_step (driver_sys rj wj q anc limit) (of_nat i) (arg_len (procs c' q))
        (Taking fd, pbuf (procs c' q), view c' q) =
      (if length (pbuf (procs c' q)) < length (contents it) then Inl Out_Of_Bounds
       else Inr (Returned 0, overwrite 0 (contents it) (pbuf (procs c' q)),
              \<lparr>dev = t, open_files = files (procs c' q) - 1\<rparr>))"
    by auto
  ultimately show ?thesis by blast
qed

theorem check_holds_while_kept_witness:
  "\<exists>i c fd t. pc (procs c 9) = Taking fd
    \<and> paste_step (driver_sys [] [] 9 (\<lambda>p q. 1) 20) (of_nat i) 4 (Taking fd, [0, 0, 0], view c 9) =
        Inr (Returned 0, [97, 51, 98], \<lparr>dev = t, open_files = 3\<rparr>)"
proof -
  obtain i c0 c fd where c: "start_config c0" "board_of (shared c0) = [i \<mapsto> new_item sample_set]"
      "pc (procs c0 9) = Returned 0"
      "(keeps_item map_store (\<lambda>p q. 1) 20 i)\<^sup>*\<^sup>* c0 c"
      "procs c 9 = \<lparr>pc = Taking fd, arg_id = of_nat i, arg_len = 4, pbuf = [0, 0, 0], files = 4\<rparr>"
    using sample_run by metis
  from check_holds_while_kept [OF idle_reaches [OF c(1)] _ _ _ c(4), of 9 "new_item sample_set" fd] c(2,3,5)
  show ?thesis
    by (auto simp: sample_item overwrite_def intro!: exI [of _ i] exI [of _ c] exI [of _ fd])
qed

text \<open>C18: The check and the lock are two requests, and identifiers are reused.  Let processes \<open>q\<close> and \<open>r\<close> be allowed
  to paste the stored text \<open>it\<close>.  Then there is a run to a configuration in which \<open>r\<close> has locked \<open>it\<close> and \<open>q\<close> has been told
  the owner of \<open>it\<close>, followed by these five steps: \<open>q\<close> passes its check for the owner of \<open>it\<close>; \<open>r\<close> takes \<open>it\<close>, so the entry
  is empty; a third process \<open>s\<close> copies another text into the same entry; \<open>q\<close> locks the text of \<open>s\<close>; \<open>q\<close> takes it.  Whether
  \<open>q\<close> may read the texts of \<open>s\<close> does not matter.\<close>

theorem check_races_refill:
  assumes "start_config c" and "board_of (shared c) i = Some it" and "0 \<le> sint (owner it)"
    and "0 \<le> sint q" and "0 \<le> sint r" and "q \<noteq> r" and "s \<noteq> q" and "s \<noteq> r"
    and "anc (owner it) q \<noteq> 0" and "anc (owner it) r \<noteq> 0"
    and "files (procs c q) < limit" and "files (procs c r) < limit" and "files (procs c s) < limit"
    and "unat n \<le> ENTRY_LEN_LIMIT" and "unat n \<le> length bytes" and "expected_decompressed_size bytes n = Inr k"
    and "\<not> len < k" and "unat n \<le> length buf"
    and "new = \<lparr>contents = take (unat n) bytes, plain_len = k, owner = s, holder = None\<rparr>"
    and "P = driver_procs rj wj anc limit"
  shows "\<exists>b c1 d c2 c3 c' fd. (any_moves P)\<^sup>*\<^sup>* c b
    \<and> board_of (shared b) i = Some (it\<lparr>holder := Some r\<rparr>)
    \<and> pc (procs b q) = Checking fd (sint (owner it)) \<and> arg_id (procs b q) = of_nat i
    \<and> moves P q b c1 \<and> shared c1 = shared b \<and> pc (procs c1 q) = Locking fd
    \<and> moves P r c1 d \<and> board_of (shared d) i = None \<and> pc (procs d q) = Locking fd
    \<and> moves P s d c2 \<and> board_of (shared c2) i = Some new \<and> pc (procs c2 q) = Locking fd
    \<and> moves P q c2 c3 \<and> board_of (shared c3) i = Some (new\<lparr>holder := Some q\<rparr>)
    \<and> moves P q c3 c' \<and> board_of (shared c') i = None \<and> pc (procs c' q) = Returned 0
    \<and> pbuf (procs c' q) = overwrite 0 (contents new) buf"
proof -
  note ok = start_ok [OF assms(1)]
  have idle: "\<exists>v. pc (procs c p) = Returned v" for p
    using assms(1) by (simp add: start_config_def all_idle_def is_Returned_def)
  then obtain vq vr vs where v: "pc (procs c q) = Returned vq" "pc (procs c r) = Returned vr"
      "pc (procs c s) = Returned vs" by metis
  obtain c1 fq where c1: "(keeping_moves board_of i (driver_procs rj wj anc limit))\<^sup>*\<^sup>* c c1"
      "config_ok board_of wf_driver c1" "shared c1 = shared c"
      "procs c1 = (procs c)(q := \<lparr>pc = Checking fq (sint (owner it)), arg_id = of_nat i, arg_len = len,
        pbuf = buf, files = Suc (files (procs c q))\<rparr>)"
    using driver_ask_moves [where anc = anc and limit = limit and rjunk = rj and wjunk = wj and n = len and x = buf,
        OF ok v(1) assms(4,11,2,3)] by blast
  have free: "holder it = None"
    using assms(1,2) by (cases "holder it") (auto simp: start_config_def held_by_def split: option.splits)
  have c1r: "pc (procs c1 r) = Returned vr" "files (procs c1 r) < limit" "board_of (shared c1) i = Some it"
    using c1(3,4) v(2) assms(2,6,12) by simp_all
  obtain c2 fr where c2: "(keeping_moves board_of i (driver_procs rj wj anc limit))\<^sup>*\<^sup>* c1 c2"
      "config_ok board_of wf_driver c2" "board_of (shared c2) = (board_of (shared c1))(i \<mapsto> it\<lparr>holder := Some r\<rparr>)"
      "procs c2 = (procs c1)(r := \<lparr>pc = Taking fr, arg_id = of_nat i, arg_len = plain_len it,
        pbuf = replicate (length (contents it)) 0, files = Suc (files (procs c1 r))\<rparr>)"
    using driver_lock_moves [where anc = anc and limit = limit and rjunk = rj and wjunk = wj and n = "plain_len it"
        and x = "replicate (length (contents it)) 0", OF c1(2) c1r(1) assms(5) c1r(2,3) assms(3) free assms(10)]
    by auto
  have i: "i < BUF_MAX_COUNT"
    using device.dom_board [OF _ assms(2)] ok by (simp add: config_ok_def)
  have b: "board_of (shared c2) i = Some (it\<lparr>holder := Some r\<rparr>)" "pc (procs c2 q) = Checking fq (sint (owner it))"
      "arg_id (procs c2 q) = of_nat i" "pbuf (procs c2 q) = buf"
    using c1(4) c2(3,4) assms(6) by simp_all
  have "\<exists>c1 d c3 c4 c'.
      moves P q c2 c1 \<and> shared c1 = shared c2 \<and> pc (procs c1 q) = Locking fq
    \<and> moves P r c1 d \<and> board_of (shared d) i = None \<and> pc (procs d q) = Locking fq
    \<and> moves P s d c3 \<and> board_of (shared c3) i = Some new \<and> pc (procs c3 q) = Locking fq
    \<and> moves P q c3 c4 \<and> board_of (shared c4) i = Some (new\<lparr>holder := Some q\<rparr>)
    \<and> moves P q c4 c' \<and> board_of (shared c') i = None \<and> pc (procs c' q) = Returned 0
    \<and> pbuf (procs c' q) = overwrite 0 (take (unat n) bytes) (pbuf (procs c2 q))"
    unfolding assms(20)
    by (rule driver_race [where it = "it\<lparr>holder := Some r\<rparr>" and r = r and s = s and v = vs and fq = fq
          and fr = fr and k = k, OF c2(2)])
      (use c1(4) c2(3,4) assms v i in simp_all)
  moreover have "(any_moves P)\<^sup>*\<^sup>* c c2"
    using keeping_any [OF c1(1)] keeping_any [OF c2(1)] unfolding assms(20) by simp
  moreover have "contents new = take (unat n) bytes" by (simp add: assms(19))
  ultimately show ?thesis using b by metis
qed

text \<open>Processes 9 and 11 descend from 7 but not from 13; 9 checks a text of process 7 and ends up with one of 13.\<close>

definition race_anc :: "u32 \<Rightarrow> u32 \<Rightarrow> byte" where
  "race_anc p q = (if p = 7 \<or> p = q then 1 else 0)"

theorem check_races_refill_witness:
  "\<exists>i c b c2 c3 c' fd. start_config c \<and> (any_moves (driver_procs [] [] race_anc 20))\<^sup>*\<^sup>* c b
    \<and> pc (procs b 9) = Checking fd 7
    \<and> board_of (shared c2) i = Some \<lparr>contents = [120, 121, 122], plain_len = 3, owner = 13, holder = None\<rparr>
    \<and> race_anc 13 9 = 0 \<and> pc (procs c2 9) = Locking fd
    \<and> moves (driver_procs [] [] race_anc 20) 9 c2 c3 \<and> moves (driver_procs [] [] race_anc 20) 9 c3 c'
    \<and> pc (procs c' 9) = Returned 0 \<and> pbuf (procs c' 9) = [120, 121, 122, 0]"
proof -
  obtain i d where d: "wf_driver d" "board_of d = [i \<mapsto> new_item sample_set]"
    using sample_stored by blast
  have anc: "race_anc 7 9 \<noteq> 0" "race_anc 7 11 \<noteq> 0" "race_anc 13 9 = 0" by (simp_all add: race_anc_def)
  have size: "expected_decompressed_size [120, 121, 122] 3 = Inr 3"
    by (simp add: expected_decompressed_size_def size_loop.simps isdigit_def digit_char_def
        include_char_def aget_def in_range_def)
  let ?P = "driver_procs [] [] race_anc 20"
  let ?new = "\<lparr>contents = [120, 121, 122], plain_len = 3, owner = 13, holder = None\<rparr>"
  obtain b c2 c3 c' fd where "(any_moves ?P)\<^sup>*\<^sup>* (idle_config d) b" "pc (procs b 9) = Checking fd 7"
      "board_of (shared c2) i = Some ?new" "pc (procs c2 9) = Locking fd" "moves ?P 9 c2 c3" "moves ?P 9 c3 c'" "pc (procs c' 9) = Returned 0"
      "pbuf (procs c' 9) = [120, 121, 122, 0]"
    using check_races_refill [OF idle_start [OF d] _ _ _ _ _ _ _ _ _ _ _ _ _ _ _ _ _ refl refl, where anc = race_anc and q = 9
      and r = 11 and s = 13 and i = i and it = "new_item sample_set" and bytes = "[120, 121, 122]" and n = 3 and k = 3
      and len = 4 and buf = "[0, 0, 0, 0]" and limit = 20 and rj = "[]" and wj = "[]"] d(2) anc
    by (simp add: sample_item size ENTRY_LEN_LIMIT_def overwrite_def) (elim exE conjE, rule that, assumption+)
  with idle_start [OF d] anc(3) show ?thesis by blast
qed

text \<open>C20: The driver does not know who sends a request: without the library, two requests under an own process
  number read any text that is not locked, whoever copied it, and one read under the number of the holder takes a
  locked text.\<close>

theorem check_only_in_library:
  assumes "wf_driver d" and "board_of d i = Some it"
    and "case holder it of None \<Rightarrow> 0 \<le> sint q \<and> \<not> n < plain_len it | Some h \<Rightarrow> q = h \<and> 0 \<le> sint h"
  shows "\<exists>e msg e'. (case holder it of
        None \<Rightarrow> port_write wj (lock_bytes (lock_msg q i n)) d = Inr (OK, e)
      | Some h \<Rightarrow> e = d)
    \<and> port_read rj (ENCODE_PID q) e = Inr (OK, Some msg, e')
    \<and> take (unat (g_buffer_len (get_of msg))) (g_buffer (get_of msg)) = contents it
    \<and> board_of e' i = None"
proof (cases "holder it")
  case None
  with assms obtain t u junk where "port_write wj (lock_bytes (lock_msg q i n)) d = Inr (OK, t)"
      "port_read rj (ENCODE_PID q) t = Inr (OK, Some (get_bytes (get_reply it junk)), u)"
      "length junk = ENTRY_LEN_LIMIT" "board_of u = (drop_locks q (board_of d))(i := None)"
    using device.lock_then_take [where rjunk = rj and wjunk = wj, OF assms(1) _ assms(2) None, of q n] by auto
  with None device.reply_decodes [OF assms(1,2)] show ?thesis by auto
next
  case (Some h)
  then have "held_by q (board_of d) i" "0 \<le> sint q"
    using assms by (simp_all add: held_by_def)
  with device.take_law [where rjunk = rj, OF assms(1)] assms(2) obtain junk t where
    "length junk = ENTRY_LEN_LIMIT" "board_of t = (board_of d)(i := None)"
    "port_read rj (ENCODE_PID q) d = Inr (OK, Some (get_bytes (get_reply it junk)), t)"
    by (metis option.inject)
  with Some device.reply_decodes [OF assms(1,2)] show ?thesis by auto
qed

theorem check_only_in_library_witness:
  "\<exists>i d msg e'. board_of d i = Some ((new_item sample_set)\<lparr>holder := Some 9\<rparr>)
    \<and> port_read [] (ENCODE_PID 9) d = Inr (OK, Some msg, e')
    \<and> take (unat (g_buffer_len (get_of msg))) (g_buffer (get_of msg)) = [97, 51, 98]"
proof -
  let ?it = "(new_item sample_set)\<lparr>holder := Some 9\<rparr>"
  obtain i d where d: "wf_driver d" "board_of d = [i \<mapsto> ?it]"
    using sample_locked by blast
  from check_only_in_library [OF d(1), of i ?it 9 0 "[]" "[]"] d(2) show ?thesis
    by (auto simp: sample_item intro!: exI [of _ i] exI [of _ d])
qed

end
