(* ===== verification/Served_Theorems.thy ===== *)
theory Served_Theorems
  imports Served_Calls Task_Theorems Interleaving_Theorems
begin

text \<open>
  The whole path of a request: library functions in interleaved processes, messages, the framework with its table
  of opened devices and its replies, the hooks, the driver.
\<close>

section \<open>Processes served by the task\<close>

definition served_procs ::
  "codes \<Rightarrow> circumstances \<Rightarrow> (u32 \<Rightarrow> u32 \<Rightarrow> byte) \<Rightarrow> nat \<Rightarrow> u32 \<Rightarrow> task cdstate world sys" where
  "served_procs C X anc limit = (\<lambda>q. served_sys C X anc limit q)"

text \<open>One step of process \<open>q\<close>; sender, grant and identifier of its messages may differ from step to step.\<close>

definition served_moves ::
  "codes \<Rightarrow> (u32 \<Rightarrow> u32 \<Rightarrow> byte) \<Rightarrow> nat \<Rightarrow> u32 \<Rightarrow> task cdstate config \<Rightarrow> task cdstate config \<Rightarrow> bool" where
  "served_moves C anc limit q c c' \<longleftrightarrow>
     0 \<le> sint q \<and> (\<exists>X. \<not> is_ipc_notify (ipc X) \<and> moves (served_procs C X anc limit) q c c')"

text \<open>The next step of a paste of \<open>q\<close> in the circumstances \<open>X\<close>.\<close>

definition next_step ::
  "codes \<Rightarrow> circumstances \<Rightarrow> (u32 \<Rightarrow> u32 \<Rightarrow> byte) \<Rightarrow> nat \<Rightarrow> task cdstate config \<Rightarrow> u32
    \<Rightarrow> (point \<times> byte list \<times> task cdstate world) cres" where
  "next_step C X anc limit c q =
     paste_step (served_procs C X anc limit q) (arg_id (procs c q)) (arg_len (procs c q))
       (pc (procs c q), pbuf (procs c q), view c q)"

text \<open>
  A live update of the driver: the old process saves its state and the new one restores it in its \<open>main\<close>, where it
  waits for its first message, with an empty table of opened devices.
\<close>

definition served_updates ::
  "'s ds \<Rightarrow> codes \<Rightarrow> task cdstate config \<Rightarrow> task cdstate config \<Rightarrow> bool" where
  "served_updates S C c c' \<longleftrightarrow> (\<exists>h s r t u cf ct rj wj devs st.
     ds_laws S \<and> fresh_heap h \<and> devs \<noteq> []
     \<and> sef_cb_lu_state_save S (the_driver (shared c)) s = Inr (r, t, u)
     \<and> clipboard_main S SEF_INIT_LU C (clipboard_tab cf ct rj wj) [] devs
          (new_process (base (stack_of (the_driver (shared c)))) h) u = Inr st
     \<and> c' = c\<lparr>shared := st\<rparr>)"

text \<open>
  Runs of the system.  Beside the configuration a state has the set of processes that have sent a request and will
  never get an answer: a process enters it when the framework drops its request, and makes no step from then on.
  An update may also come between the messages of one step: after the open of a copy and before its set request, or
  after a take and before its close.  Then the open has been all there is of the copy (\<open>opened\<close>, which also stands for
  opens by other programs), or the take is done, and the last request is dropped (\<open>lost\<close>, which asks no more than that
  the device is not opened).
\<close>

inductive served_run ::
  "'s ds \<Rightarrow> codes \<Rightarrow> (u32 \<Rightarrow> u32 \<Rightarrow> byte) \<Rightarrow> nat
    \<Rightarrow> u32 set \<times> task cdstate config \<Rightarrow> u32 set \<times> task cdstate config \<Rightarrow> bool"
  for S C anc limit where
  answered: "q \<notin> H \<Longrightarrow> served_moves C anc limit q c c' \<Longrightarrow> served_run S C anc limit (H, c) (H, c')"
| dropped: "q \<notin> H \<Longrightarrow> 0 \<le> sint q \<Longrightarrow> \<not> is_ipc_notify (ipc X) \<Longrightarrow> next_step C X anc limit c q = Inl Blocked \<Longrightarrow>
    served_run S C anc limit (H, c) (insert q H, c)"
| opened: "\<not> is_ipc_notify (ipc X) \<Longrightarrow> served_control C X CDEV_OPEN (shared c) = Inr (r, st) \<Longrightarrow>
    served_run S C anc limit (H, c) (H, c\<lparr>shared := st\<rparr>)"
| lost: "q \<notin> H \<Longrightarrow> is_Returned (pc (procs c q)) \<Longrightarrow> \<not> is_open_dev 0 (shared c) \<Longrightarrow>
    served_run S C anc limit (H, c) (insert q H, c)"
| updated: "served_updates S C c c' \<Longrightarrow> served_run S C anc limit (H, c) (H, c')"

text \<open>
  At the start the task has opened its device, or nobody has opened it yet; it holds texts of processes, none of them
  locked, and no call is running.
\<close>

definition served_start :: "task cdstate config \<Rightarrow> bool" where
  "served_start c \<longleftrightarrow>
     (is_open_dev 0 (shared c) \<or> next_open_devs_slot (shared c) = 0 \<and> open_devs (shared c) \<noteq> [])
     \<and> owners_ok (the_driver (shared c)) \<and> start_config (lowered the_driver c)"

lemmas task_lowered = served_lowered [folded driver_sys_def, folded driver_procs_def]
lemmas task_raised = served_raised [folded driver_sys_def, folded driver_procs_def]

lemma serving_X:
  "serving C X st \<Longrightarrow> \<not> is_ipc_notify (ipc Y) \<Longrightarrow> serving C Y st"
  by (simp add: serving_def)

lemma ready_X: "config_ready C X c \<Longrightarrow> \<not> is_ipc_notify (ipc Y) \<Longrightarrow> config_ready C Y c"
  by (simp add: config_ready_def ready_def)

lemma start_ready:
  assumes "served_start c" and "codes_apart C" and "\<not> is_ipc_notify (ipc X)"
  shows "config_ready C X c"
proof -
  have "named (arg_id (procs c q)) (pc (procs c q))" for q
    using assms(1) by (simp add: served_start_def start_config_def all_idle_def named_def)
  with assms show ?thesis
    by (simp add: served_start_def start_config_def config_ready_def ready_def task_inv_def)
qed

definition sample_X :: circumstances where
  "sample_X = \<lparr>msg_base = request CDEV_READ 0, ipc = plain_ipc, read_var = [], write_var = []\<rparr>"

lemma sample_notify: "\<not> is_ipc_notify (ipc sample_X)"
  by (simp add: sample_X_def plain_ipc_def)

lemma restored_owners:
  assumes "restored S d a n k (t, u)" and "length (entries (CLIPBOARD d)) = BUF_MAX_COUNT"
  shows "owners t = owners d"
proof (rule nth_equalityI)
  have len: "length (entries (CLIPBOARD t)) = BUF_MAX_COUNT"
    and ent: "\<forall>i<BUF_MAX_COUNT. ent t i = (ent d i)\<lparr>buffer := buffer (ent t i)\<rparr>"
    using assms(1) by (simp_all add: restored_def)
  show "length (owners t) = length (owners d)" using len assms(2) by (simp add: owners_def)
  fix i
  assume "i < length (owners t)"
  then have i: "i < BUF_MAX_COUNT" using len by (simp add: owners_def)
  with ent have "ent t i = (ent d i)\<lparr>buffer := buffer (ent t i)\<rparr>" by blast
  from arg_cong [OF this, of source_pid] have "source_pid (ent t i) = source_pid (ent d i)" by simp
  with i len assms(2) show "owners t ! i = owners d ! i" by (simp add: owners_def ent_def)
qed

lemma update_lowered:
  assumes ok: "config_ready C X c" and u: "served_updates S C c c'"
  shows "updates S (lowered the_driver c) (lowered the_driver c') \<and> config_ready C X c'
    \<and> \<not> is_open_dev 0 (shared c') \<and> procs c' = procs c"
proof -
  let ?d = "the_driver (shared c)"
  obtain h s r t u cf ct rj wj devs st where v: "ds_laws S" "fresh_heap h" "devs \<noteq> []"
      "sef_cb_lu_state_save S ?d s = Inr (r, t, u)"
      "clipboard_main S SEF_INIT_LU C (clipboard_tab cf ct rj wj) [] devs
          (new_process (base (stack_of ?d)) h) u = Inr st" "c' = c\<lparr>shared := st\<rparr>"
    using u unfolding served_updates_def by blast
  have d: "wf_driver ?d" "owners_ok ?d" "codes_apart C" "\<not> is_ipc_notify (ipc X)"
    using ok by (simp_all add: config_ready_def ready_def task_inv_def)
  have n: "BUF_MAX_COUNT * ENTRY_LEN_LIMIT \<le> avail h" using v(2) by (simp add: fresh_heap_def)
  obtain e u' where e: "sef_cb_init S SEF_INIT_LU (new_process (base (stack_of ?d)) h) u = Inr (OK, e, u')"
      "restored S ?d (base (stack_of ?d)) (avail h) BUF_MAX_COUNT (e, u')" "live_update S h s ?d = Inr e"
    using update_callbacks [OF v(1) d(1) v(2), of s "base (stack_of ?d)"] v(4)
    by (auto simp: live_update_def sef_local_startup_def)
  have st: "next_open_devs_slot st = 0" "open_devs st = devs" "the_driver st = e"
    using v(5) e(1) by (auto simp: clipboard_main_def chardriver_task_def the_driver_def)
  have "updates S (lowered the_driver c) (lowered the_driver c')"
    unfolding updates_def using v(1,2,6) e(3) st(3)
    by (intro exI [of _ h] exI [of _ s] exI [of _ e]) (simp add: lowered_def)
  moreover have "task_inv e"
    using restored_same_place(1) [OF d(1) e(2) n] restored_owners [OF e(2)] d(1,2)
    by (simp add: task_inv_def owners_ok_def wf_driver_def)
  moreover have "\<not> is_open_dev 0 st" by (simp add: is_open_dev_def opened_def st(1))
  ultimately show ?thesis
    using ok st v(3,6) d(3,4) by (simp add: config_ready_def ready_def)
qed

text \<open>One step of a process, and one step of the system, on the task and on the driver.\<close>

lemma move_lowered:
  assumes "config_ready C X c" and "served_moves C anc limit q c c'"
  shows "driver_moves anc limit q (lowered the_driver c) (lowered the_driver c')
    \<and> (is_open_dev 0 (shared c) \<or> \<not> waits (pc (procs c q))) \<and> config_ready C X c'"
proof -
  obtain Y where Y: "0 \<le> sint q" "\<not> is_ipc_notify (ipc Y)" "moves (served_sys C Y anc limit) q c c'"
    using assms(2) by (auto simp: served_moves_def served_procs_def)
  have "\<not> is_ipc_notify (ipc X)" using assms(1) by (simp add: config_ready_def ready_def)
  with task_lowered [OF ready_X [OF assms(1) Y(2)] Y(1,3)] ready_X show ?thesis
    unfolding driver_moves_def by blast
qed

lemma move_raised:
  assumes "config_ready C X c" and "0 \<le> sint q" and "is_open_dev 0 (shared c) \<or> \<not> waits (pc (procs c q))"
    and "driver_moves anc limit q (lowered the_driver c) d"
  shows "\<exists>c'. served_moves C anc limit q c c' \<and> lowered the_driver c' = d"
proof -
  obtain rj wj where m: "moves (driver_procs rj wj anc limit) q (lowered the_driver c) d"
    using assms(4) by (auto simp: driver_moves_def)
  define Y where "Y = sample_X\<lparr>read_var := rj, write_var := wj\<rparr>"
  have Y: "read_var Y = rj" "write_var Y = wj" "\<not> is_ipc_notify (ipc Y)"
    by (simp_all add: Y_def sample_X_def plain_ipc_def)
  from task_raised [OF ready_X [OF assms(1) Y(3)] assms(2) _ assms(3), where anc = anc and limit = limit and d = d] m Y assms(2)
  show ?thesis by (auto simp: served_moves_def served_procs_def)
qed

lemma waiting_blocked:
  assumes "config_ready C X c" and "\<not> is_open_dev 0 (shared c)" and "waits (pc (procs c q))"
  shows "next_step C X anc limit c q = Inl Blocked"
  using blocked_step [of C X "view c q"] assms by (simp add: config_ready_def next_step_def served_procs_def)

lemma other_procs: "moves P q c c' \<Longrightarrow> p \<noteq> q \<Longrightarrow> procs c' p = procs c p"
  by (erule movesE) simp_all

lemma run_step:
  assumes "served_run S C anc limit (H, c) (H', c')" and "config_ready C X c"
  shows "(runs_on S anc limit)\<^sup>*\<^sup>* (lowered the_driver c) (lowered the_driver c') \<and> config_ready C X c'
    \<and> H \<subseteq> H' \<and> (\<forall>p\<in>H. procs c' p = procs c p)"
  using assms(1)
proof cases
  case (answered q)
  note low = move_lowered [OF assms(2) answered(3)]
  have "procs c' p = procs c p" if "p \<in> H" for p
    using that answered(2,3) other_procs [of _ q c c' p] by (auto simp: served_moves_def)
  moreover have "runs_on S anc limit (lowered the_driver c) (lowered the_driver c')"
    using low by (auto simp: runs_on_def)
  ultimately show ?thesis using low answered(1) by simp
next
  case (dropped q Y)
  with assms(2) show ?thesis by auto
next
  case (lost q)
  with assms(2) show ?thesis by auto
next
  case (opened Y r st)
  have "ready C Y (shared c)" using ready_X [OF assms(2) opened(3)] by (simp add: config_ready_def)
  from control_open [OF this] opened(4) have "st = opened_dev (shared c)" by simp
  with opened(1,2) assms(2) serving_ready [OF opened_serving [of C X "shared c"]] show ?thesis
    by (simp add: config_ready_def lowered_def)
next
  case updated
  with update_lowered [OF assms(2), of S c'] show ?thesis
    by (simp add: r_into_rtranclp runs_on_def)
qed

lemma run_lowered:
  assumes "(served_run S C anc limit)\<^sup>*\<^sup>* x y" and "config_ready C X (snd x)"
  shows "(runs_on S anc limit)\<^sup>*\<^sup>* (lowered the_driver (snd x)) (lowered the_driver (snd y)) \<and> config_ready C X (snd y)
    \<and> fst x \<subseteq> fst y \<and> (\<forall>p\<in>fst x. procs (snd y) p = procs (snd x) p)"
  using assms(1)
proof (induction rule: rtranclp_induct)
  case base
  from assms(2) show ?case by simp
next
  case (step y z)
  from run_step [of S C anc limit "fst y" "snd y" "fst z" "snd z" X] step
  show ?case by (auto dest: rtranclp_trans)
qed

section \<open>From the start to the first open\<close>

lemma opened_after_start:
  assumes "fresh_heap h" and "devs \<noteq> []" and "codes_apart C"
    and "m_type m = CDEV_OPEN" and "oc_minor m = 0" and "\<not> is_ipc_notify ips"
  shows "\<exists>st. clipboard_main S SEF_INIT_FRESH C (clipboard_tab cf ct rj wj) [Received m ips] devs
      (new_process a h) s = Inr st
    \<and> is_open_dev 0 st \<and> the_driver st = fresh_driver a h
    \<and> sent st = [(m_source m, CDEV_REPLY OK (oc_id m), if call_sendrec ips then ipc_sendnb else asynsend3)]"
  by (rule main_opened [OF _ assms(2-6), where r = OK and s' = s])
    (simp add: sef_cb_init_def fresh_driver_def new_process_def)

lemma fresh_serving:
  assumes "is_open_dev 0 st" and "the_driver st = fresh_driver a h" and "fresh_heap h" and "codes_apart C"
    and "\<not> is_ipc_notify (ipc X)"
  shows "serving C X st"
  using assms by (simp add: serving_def task_inv_def fresh_wf fresh_owners)

section \<open>Opening the device by a paste\<close>

text \<open>An idle process with a free descriptor calls the paste and opens the device.\<close>

lemma paste_opens:
  assumes ok: "config_ready C X c" and r: "pc (procs c r) = Returned v" "0 \<le> sint r" "files (procs c r) < limit"
    and H: "r \<notin> H" and n: "unat i < BUF_MAX_COUNT"
  shows "\<exists>c'. (served_run S C anc limit)\<^sup>*\<^sup>* (H, c) (H, c') \<and> is_open_dev 0 (shared c')
    \<and> the_driver (shared c') = the_driver (shared c) \<and> (\<forall>p. p \<noteq> r \<longrightarrow> procs c' p = procs c p)
    \<and> procs c' r = \<lparr>pc = Asking (int (files (procs c r))), arg_id = i, arg_len = len, pbuf = b,
          files = Suc (files (procs c r))\<rparr>"
proof -
  let ?S = "served_procs C X anc limit" and ?f = "files (procs c r)"
  let ?c1 = "moved r ((procs c r)\<lparr>pc := Opening, arg_id := i, arg_len := len, pbuf := b\<rparr>) (view c r) c"
  have X: "\<not> is_ipc_notify (ipc X)" and ready: "ready C X (shared c)" using ok by (simp_all add: config_ready_def ready_def)
  have m1: "moves ?S r c ?c1" by (rule moves.call_paste [OF refl r(1)])
  let ?w = "\<lparr>dev = opened_dev (shared c), open_files = Suc ?f\<rparr>"
  let ?c2 = "moved r ((procs ?c1 r)\<lparr>pc := Asking (int ?f), pbuf := b\<rparr>) ?w ?c1"
  have "paste_step (?S r) i len (Opening, b, view ?c1 r) = Inr (Asking (int ?f), b, ?w)"
    using ready r(3) n served_open [where C = C and X = X and w = "view ?c1 r" and anc = anc and limit = limit and q = r
        and mode = O_RDWR] by (simp add: served_procs_def)
  then have m2: "moves ?S r ?c1 ?c2"
    by (intro moves.step_paste [OF r(2) refl]) simp_all
  have "served_run S C anc limit (H, c) (H, ?c1)" "served_run S C anc limit (H, ?c1) (H, ?c2)"
    using m1 m2 X r(2) by (auto intro!: served_run.answered [OF H] simp: served_moves_def)
  then have "(served_run S C anc limit)\<^sup>*\<^sup>* (H, c) (H, ?c2)"
    by (meson converse_rtranclp_into_rtranclp r_into_rtranclp)
  moreover have "is_open_dev 0 (shared ?c2)"
    using serving_ready [OF opened_serving [OF ready]] by simp
  ultimately show ?thesis by (intro exI [of _ ?c2]) simp
qed

text \<open>An update can be made in every configuration.\<close>

lemma update_raised:
  assumes ok: "config_ready C X c" and u: "updates S (lowered the_driver c) d"
  shows "\<exists>c'. served_updates S C c c' \<and> lowered the_driver c' = d"
proof -
  let ?d = "the_driver (shared c)"
  obtain h s t where v: "ds_laws S" "fresh_heap h" "live_update S h s ?d = Inr t" "d = (lowered the_driver c)\<lparr>shared := t\<rparr>"
    using u by (auto simp: updates_def)
  have "wf_driver ?d" using ok by (simp add: config_ready_def ready_def task_inv_def)
  from update_callbacks [OF v(1) this v(2), of s "base (stack_of ?d)"] v(3)
  obtain t0 u0 u' where e: "sef_cb_lu_state_save S ?d s = Inr (OK, t0, u0)"
      "sef_cb_init S SEF_INIT_LU (new_process (base (stack_of ?d)) h) u0 = Inr (OK, t, u')"
    by (auto simp: live_update_def sef_local_startup_def)
  let ?st = "\<lparr>running = True, open_devs = [0], next_open_devs_slot = 0, sent = [],
    priv = \<lparr>drv = t, copied = []\<rparr>\<rparr> :: task cdstate"
  have main: "clipboard_main S SEF_INIT_LU C (clipboard_tab (\<lambda>e g n. Inl 0) (\<lambda>e g bs. 0) [] []) [] [0]
      (new_process (base (stack_of ?d)) h) u0 = Inr ?st"
    using e(2) by (simp add: clipboard_main_def chardriver_task_def)
  have "served_updates S C c (c\<lparr>shared := ?st\<rparr>)"
    unfolding served_updates_def using v(1,2) e(1) main by (metis list.discI)
  moreover have "lowered the_driver (c\<lparr>shared := ?st\<rparr>) = d" by (simp add: lowered_def v(4) the_driver_def)
  ultimately show ?thesis by blast
qed

lemma run_waits:
  assumes "(served_run S C anc limit)\<^sup>*\<^sup>* x y" and "config_ready C X (snd x)" and "fst x = {}"
  shows "\<forall>q\<in>fst y. waits (pc (procs (snd y) q)) \<or> is_Returned (pc (procs (snd y) q))"
  using assms(1)
proof (induction rule: rtranclp_induct)
  case base
  from assms(3) show ?case by simp
next
  case (step y z)
  obtain H c H' c' where yz: "y = (H, c)" "z = (H', c')" by (cases y; cases z)
  have ok: "config_ready C X c" using run_lowered [OF step.hyps(1) assms(2)] yz by simp
  have m: "served_run S C anc limit (H, c) (H', c')" using step.hyps(2) yz by simp
  have "waits (pc (procs c q))" if "next_step C Y anc limit c q = Inl Blocked" for q Y
    using faults_wait that by (simp add: next_step_def)
  with m step.IH run_step [OF m ok] yz show ?case by cases auto
qed

section \<open>Samples\<close>

definition sample_task :: "driver \<Rightarrow> task cdstate" where
  "sample_task d = sample_state \<lparr>drv = d, copied = []\<rparr>"

lemma sample_task [simp]:
  "is_open_dev 0 (sample_task d)" "the_driver (sample_task d) = d" "\<not> is_ipc_notify (ipc sample_X)"
  "codes_apart sample_codes" "read_var sample_X = []" "write_var sample_X = []"
  using sample_open by (simp_all add: sample_task_def the_driver_def sample_state_def sample_X_def plain_ipc_def
      codes_apart_def sample_codes_def)

definition served_idle :: "driver \<Rightarrow> task cdstate config" where
  "served_idle d = \<lparr>shared = sample_task d, procs = procs (idle_config d)\<rparr>"

lemma served_idle [simp]:
  "shared (served_idle d) = sample_task d" "procs (served_idle d) = procs (idle_config d)"
  "lowered the_driver (served_idle d) = idle_config d"
  by (simp_all add: served_idle_def lowered_def idle_config_def)

lemma idle_serving:
  assumes "wf_driver d" and "board_of d = [i \<mapsto> new_item sample_set]" and "owners_ok d"
  shows "served_start (served_idle d)"
  using assms idle_start [OF assms(1,2)] by (simp add: served_start_def)

lemma served_sample:
  obtains i d where "served_start (served_idle d)" "board_of d = [i \<mapsto> new_item sample_set]" "wf_driver d"
proof -
  obtain i d where d: "wf_driver d" "board_of d = [i \<mapsto> new_item sample_set]"
      "do_clipboard_set sample_set sample_driver = Inr (int i, d)"
    using sample_stored by blast
  have "owners_ok sample_driver" by (simp add: sample_driver_def fresh_owners)
  moreover have "0 \<le> sint (s_pid sample_set)" by (simp add: sample_set_def)
  ultimately have "owners_ok d"
    using owners_set [OF d(3)] by (auto simp: owners_ok_def)
  with idle_serving [OF d(1,2)] d(1,2) that show thesis by blast
qed

section \<open>Properties\<close>

text \<open>C14: The framework passes requests and answers through: whatever the driver's state, a \<open>read\<close> or \<open>write\<close> sent to the
  task for its opened device has the outcome the handler has - the status in the one reply to the sender under
  the identifier of the request, and in the sender's buffer the bytes the handler copied there - and changes nothing but
  the driver's state; except that a status equal to a pseudo-reply leaves the caller waiting or stops the driver.\<close>

theorem framework_serves_port:
  assumes "\<not> is_ipc_notify (ipc X)" and "is_open_dev 0 st"
  shows "served_read C X sz st =
      rbind (port_read (read_var X) sz (the_driver st)) (\<lambda>(r, out, d). delivered C r (r, out, put_driver d st))
    \<and> served_write C X bs st =
      rbind (port_write (write_var X) bs (the_driver st)) (\<lambda>(r, d). delivered C r (r, put_driver d st))"
  using served_read_port [OF assms] served_write_port [OF assms] by blast

text \<open>Process 9 takes the text it has locked, with a message to the task.\<close>

theorem framework_serves_port_witness:
  "\<exists>i d junk e. board_of d = [i \<mapsto> (new_item sample_set)\<lparr>holder := Some 9\<rparr>]
    \<and> served_read sample_codes sample_X (ENCODE_PID 9) (sample_task d) =
        Inr (OK, Some (get_bytes (get_reply ((new_item sample_set)\<lparr>holder := Some 9\<rparr>) junk)), sample_task e)
    \<and> board_of e = Map.empty"
proof -
  let ?it = "(new_item sample_set)\<lparr>holder := Some 9\<rparr>"
  obtain i d where d: "wf_driver d" "board_of d = [i \<mapsto> ?it]"
    using sample_locked by blast
  have "held_by 9 (board_of d) i" by (simp add: held_by_def d(2))
  from device.take_law [where rjunk = "[]", OF d(1) _ this] d(2) obtain junk e where
    e: "port_read [] (ENCODE_PID 9) d = Inr (OK, Some (get_bytes (get_reply ?it junk)), e)"
      "board_of e = (board_of d)(i := None)"
    by auto
  have put: "put_driver e (sample_task d) = sample_task e"
    by (simp add: put_driver_def sample_task_def sample_state_def)
  have "served_read sample_codes sample_X (ENCODE_PID 9) (sample_task d) =
      Inr (OK, Some (get_bytes (get_reply ?it junk)), sample_task e)"
    using framework_serves_port [of sample_X "sample_task d" sample_codes "ENCODE_PID 9"] e(1)
    by (simp add: put delivered_status OK_def)
  with d(2) e(2) show ?thesis by auto
qed

text \<open>Process 9 calls the paste and has opened the device; then the driver is updated.\<close>

lemma sample_paste:
  assumes "served_start (served_idle d)"
  obtains c where "(served_run map_store sample_codes (\<lambda>p q. 1) 20)\<^sup>*\<^sup>* ({}, served_idle d) ({}, c)"
    "is_open_dev 0 (shared c)" "procs c 9 = \<lparr>pc = Asking 3, arg_id = 0, arg_len = 4, pbuf = [0, 0, 0], files = 4\<rparr>"
  using paste_opens [OF start_ready [OF assms sample_task(4,3)], of 9 0 20 "{}" 0 map_store "\<lambda>p q. 1" 4 "[0, 0, 0]"] that
  by (auto simp: BUF_MAX_COUNT_def)

lemma sample_update:
  assumes "config_ready sample_codes sample_X c"
  obtains c' where "served_updates map_store sample_codes c c'" "procs c' = procs c" "\<not> is_open_dev 0 (shared c')"
proof -
  have "wf_driver (the_driver (shared c))" using assms by (simp add: config_ready_def ready_def task_inv_def)
  from live_update_keeps [OF map_store this sample_heap, of Map.empty]
  have "\<exists>d. updates map_store (lowered the_driver c) d"
    unfolding updates_def using map_store sample_heap by (auto intro: exI [of _ sample_heap])
  with update_raised [OF assms] update_lowered [OF assms] that show thesis by blast
qed

text \<open>C10: Processes that send their requests to the task, opens and closes among them, while the driver is updated.  Every
  run is a run of the same processes on the driver, so that what is proved of runs on the driver holds of the whole;
  an open alone is no step there.  A process whose request is dropped makes no step from then on; its paste is to ask, to
  lock or to take, or it was in the set request of a copy or in the close behind a take.  Conversely, in every reached
  configuration the updates are those of the driver, each leaves the device unopened, and the steps a process can make
  by messages are exactly those it can make on the driver, except that while the device is not opened a paste that
  is to ask, to lock or to take can make none.  A copy is one such step, and so is a take with its close.\<close>

theorem served_runs_refine:
  assumes "served_start c0" and "codes_apart C" and "(served_run S C anc limit)\<^sup>*\<^sup>* ({}, c0) (H, c)"
  shows "reaches S anc limit (lowered the_driver c) \<and> task_inv (the_driver (shared c))
    \<and> (\<forall>q\<in>H. waits (pc (procs c q)) \<or> is_Returned (pc (procs c q)))
    \<and> (\<forall>H' c'. (served_run S C anc limit)\<^sup>*\<^sup>* (H, c) (H', c') \<longrightarrow>
        (runs_on S anc limit)\<^sup>*\<^sup>* (lowered the_driver c) (lowered the_driver c')
        \<and> H \<subseteq> H' \<and> (\<forall>q\<in>H. procs c' q = procs c q))
    \<and> (\<forall>d. (\<exists>c'. served_updates S C c c' \<and> lowered the_driver c' = d) \<longleftrightarrow> updates S (lowered the_driver c) d)
    \<and> (\<forall>c'. served_updates S C c c' \<longrightarrow> \<not> is_open_dev 0 (shared c'))
    \<and> (\<forall>q d. 0 \<le> sint q \<longrightarrow>
        (\<exists>c'. served_moves C anc limit q c c' \<and> lowered the_driver c' = d) \<longleftrightarrow>
        driver_moves anc limit q (lowered the_driver c) d \<and> (is_open_dev 0 (shared c) \<or> \<not> waits (pc (procs c q))))"
proof -
  have ready0: "config_ready C sample_X c0" by (rule start_ready [OF assms(1,2) sample_notify])
  note run = run_lowered [OF assms(3), of sample_X, unfolded fst_conv snd_conv, OF ready0]
  then have ready: "config_ready C sample_X c" by blast
  have "reaches S anc limit (lowered the_driver c)"
    using run assms(1) by (auto simp: reaches_def served_start_def)
  moreover have "task_inv (the_driver (shared c))" using ready by (simp add: config_ready_def ready_def)
  moreover have "\<forall>q\<in>H. waits (pc (procs c q)) \<or> is_Returned (pc (procs c q))"
    using run_waits [OF assms(3), of sample_X] ready0 by simp
  moreover have "(runs_on S anc limit)\<^sup>*\<^sup>* (lowered the_driver c) (lowered the_driver c') \<and> H \<subseteq> H'
      \<and> (\<forall>q\<in>H. procs c' q = procs c q)" if "(served_run S C anc limit)\<^sup>*\<^sup>* (H, c) (H', c')" for H' c'
    using run_lowered [OF that, of sample_X] ready by simp
  moreover have "(\<exists>c'. served_updates S C c c' \<and> lowered the_driver c' = d) \<longleftrightarrow> updates S (lowered the_driver c) d" for d
    using update_raised [OF ready] update_lowered [OF ready] by blast
  moreover have "\<not> is_open_dev 0 (shared c')" if "served_updates S C c c'" for c'
    using update_lowered [OF ready that] by blast
  moreover have "(\<exists>c'. served_moves C anc limit q c c' \<and> lowered the_driver c' = d) \<longleftrightarrow>
      driver_moves anc limit q (lowered the_driver c) d \<and> (is_open_dev 0 (shared c) \<or> \<not> waits (pc (procs c q)))"
    if "0 \<le> sint q" for q d
    using move_lowered [OF ready] move_raised [OF ready that] by blast
  ultimately show ?thesis by blast
qed

text \<open>Process 9 has opened the device, and the driver is updated.\<close>

theorem served_runs_refine_witness:
  "\<exists>d c. (served_run map_store sample_codes (\<lambda>p q. 1) 20)\<^sup>*\<^sup>* ({}, served_idle d) ({}, c) \<and> pc (procs c 9) = Asking 3
    \<and> \<not> is_open_dev 0 (shared c) \<and> reaches map_store (\<lambda>p q. 1) 20 (lowered the_driver c)
    \<and> task_inv (the_driver (shared c)) \<and> \<not> (\<exists>c'. served_moves sample_codes (\<lambda>p q. 1) 20 9 c c')"
proof -
  obtain i d where d: "served_start (served_idle d)" by (rule served_sample)
  obtain c1 where c1: "(served_run map_store sample_codes (\<lambda>p q. 1) 20)\<^sup>*\<^sup>* ({}, served_idle d) ({}, c1)"
      "procs c1 9 = \<lparr>pc = Asking 3, arg_id = 0, arg_len = 4, pbuf = [0, 0, 0], files = 4\<rparr>"
    using sample_paste [OF d] by blast
  have "config_ready sample_codes sample_X c1"
    using run_lowered [OF c1(1), of sample_X] start_ready [OF d sample_task(4,3)] by simp
  then obtain c where c: "served_updates map_store sample_codes c1 c" "procs c = procs c1" "\<not> is_open_dev 0 (shared c)"
    by (rule sample_update)
  have run: "(served_run map_store sample_codes (\<lambda>p q. 1) 20)\<^sup>*\<^sup>* ({}, served_idle d) ({}, c)"
    using c1(1) served_run.updated [OF c(1)] by (rule rtranclp.rtrancl_into_rtrancl)
  have asking: "pc (procs c 9) = Asking 3" "waits (pc (procs c 9))" using c(2) c1(2) by simp_all
  note all = served_runs_refine [OF d sample_task(4) run]
  have "0 \<le> sint (9 :: u32)" by simp
  with all c(3) asking(2) have "\<not> (\<exists>c'. served_moves sample_codes (\<lambda>p q. 1) 20 9 c c')" by blast
  with all run c(3) asking(1) show ?thesis by blast
qed

text \<open>C11: In every configuration that runs of interleaved processes and live updates reach, whatever the processes have
  copied, locked, taken or left undone, let process \<open>q\<close> be in the middle of a paste and not yet waiting in vain, with a
  buffer that has room for the text it has locked, if it is to take one.  If the device is opened, or the next step of
  \<open>q\<close> is its open or its question to PM, then the step is made, and \<open>q\<close> is nearer to its return, of at most five steps.
  If the device is not opened, as after an update, the next request of \<open>q\<close> gets no answer, and once \<open>q\<close> has sent it, \<open>q\<close>
  hangs for ever.  Until then an open by any idle process with a free descriptor, in two steps of its own paste,
  makes the device serve again, without a change to the texts and to the other processes.\<close>

theorem served_progress:
  assumes "served_start c0" and "codes_apart C" and "(served_run S C anc limit)\<^sup>*\<^sup>* ({}, c0) (H, c)"
    and "0 \<le> sint q" and "q \<notin> H" and "\<not> is_Returned (pc (procs c q))" and "\<not> is_ipc_notify (ipc X)"
    and "\<forall>fd it. pc (procs c q) = Taking fd \<longrightarrow> board_of (the_driver (shared c)) (unat (arg_id (procs c q))) = Some it \<longrightarrow>
      length (contents it) \<le> length (pbuf (procs c q))"
  shows "(if is_open_dev 0 (shared c) \<or> \<not> waits (pc (procs c q))
      then \<exists>l b w. next_step C X anc limit c q = Inr (l, b, w)
        \<and> steps_left l < steps_left (pc (procs c q)) \<and> steps_left l < 5
      else next_step C X anc limit c q = Inl Blocked
        \<and> served_run S C anc limit (H, c) (insert q H, c)
        \<and> (\<forall>H' c'. (served_run S C anc limit)\<^sup>*\<^sup>* (insert q H, c) (H', c') \<longrightarrow> q \<in> H' \<and> procs c' q = procs c q))
    \<and> (\<forall>r. r \<notin> H \<longrightarrow> is_Returned (pc (procs c r)) \<longrightarrow> 0 \<le> sint r \<longrightarrow> files (procs c r) < limit \<longrightarrow>
        (\<exists>c'. (served_run S C anc limit)\<^sup>*\<^sup>* (H, c) (H, c') \<and> is_open_dev 0 (shared c')
          \<and> the_driver (shared c') = the_driver (shared c) \<and> (\<forall>p. p \<noteq> r \<longrightarrow> procs c' p = procs c p)))"
    (is "(if ?answered then ?made else ?hangs) \<and> ?reopen")
proof -
  have ready0: "config_ready C X c0" by (rule start_ready [OF assms(1,2,7)])
  note run = run_lowered [OF assms(3), of X, unfolded fst_conv snd_conv, OF ready0]
  then have ready: "config_ready C X c" by blast
  have ?made if ?answered
  proof -
    have "config_ok board_of wf_driver (lowered the_driver c)"
      by (rule run_config_ok [OF conjunct1 [OF run] start_ok]) (use assms(1) in \<open>simp add: served_start_def\<close>)
    from device.step_progress [where rjunk = "read_var X" and wjunk = "write_var X" and anc = anc and limit = limit,
        OF this assms(4)] assms(8)
    have "\<exists>x. paste_step (local_sys (port_read (read_var X)) (port_write (write_var X)) q anc limit) (arg_id (procs c q))
        (arg_len (procs c q)) (pc (procs c q), pbuf (procs c q), lower_world the_driver (view c q)) = Inr x"
      by (auto simp: task.lower_view)
    with served_step [where C = C and X = X and w = "view c q" and i = "arg_id (procs c q)" and l = "pc (procs c q)"
        and b = "pbuf (procs c q)" and n = "arg_len (procs c q)" and anc = anc and limit = limit and q = q] ready that
    obtain l b w where step: "next_step C X anc limit c q = Inr (l, b, w)"
      by (auto simp: config_ready_def next_step_def served_procs_def)
    have "steps_left (pc (procs c q)) \<le> 5" by (cases "pc (procs c q)") simp_all
    with step step_counts [OF step [unfolded next_step_def] assms(6)] show ?thesis by auto
  qed
  moreover have ?hangs if "\<not> ?answered"
  proof -
    from that have blocked: "next_step C X anc limit c q = Inl Blocked" by (intro waiting_blocked [OF ready]) simp_all
    moreover have "q \<in> H' \<and> procs c' q = procs c q"
      if "(served_run S C anc limit)\<^sup>*\<^sup>* (insert q H, c) (H', c')" for H' c'
      using run_lowered [OF that, of X] ready by auto
    ultimately show ?thesis using served_run.dropped [OF assms(5,4,7) blocked] by blast
  qed
  moreover have ?reopen
  proof (intro allI impI)
    fix r
    assume r: "r \<notin> H" "is_Returned (pc (procs c r))" "0 \<le> sint r" "files (procs c r) < limit"
    then obtain v where v: "pc (procs c r) = Returned v" by (auto simp: is_Returned_def)
    from paste_opens [OF ready v r(3,4,1), of 0 S anc 0 "[]"] show "\<exists>c'. (served_run S C anc limit)\<^sup>*\<^sup>* (H, c) (H, c')
        \<and> is_open_dev 0 (shared c') \<and> the_driver (shared c') = the_driver (shared c)
        \<and> (\<forall>p. p \<noteq> r \<longrightarrow> procs c' p = procs c p)"
      by (auto simp: BUF_MAX_COUNT_def)
  qed
  ultimately show ?thesis by simp
qed

text \<open>Process 9 has opened the device: its question is answered; after an update it is not.\<close>

theorem served_progress_witness:
  "\<exists>c c' l b w. next_step sample_codes sample_X (\<lambda>p q. 1) 20 c 9 = Inr (l, b, w) \<and> steps_left l < 4
    \<and> served_updates map_store sample_codes c c'
    \<and> next_step sample_codes sample_X (\<lambda>p q. 1) 20 c' 9 = Inl Blocked
    \<and> served_run map_store sample_codes (\<lambda>p q. 1) 20 ({}, c') ({9}, c')"
proof -
  let ?run = "served_run map_store sample_codes (\<lambda>p q. 1) 20"
  obtain i d where d: "served_start (served_idle d)" by (rule served_sample)
  obtain c where c: "?run\<^sup>*\<^sup>* ({}, served_idle d) ({}, c)" "is_open_dev 0 (shared c)"
      "procs c 9 = \<lparr>pc = Asking 3, arg_id = 0, arg_len = 4, pbuf = [0, 0, 0], files = 4\<rparr>"
    using sample_paste [OF d] by blast
  have "config_ready sample_codes sample_X c"
    using run_lowered [OF c(1), of sample_X] start_ready [OF d sample_task(4,3)] by simp
  then obtain c' where c': "served_updates map_store sample_codes c c'" "procs c' = procs c" "\<not> is_open_dev 0 (shared c')"
    by (rule sample_update)
  have run: "?run\<^sup>*\<^sup>* ({}, served_idle d) ({}, c')"
    using c(1) served_run.updated [OF c'(1)] by (rule rtranclp.rtrancl_into_rtrancl)
  have "\<exists>l b w. next_step sample_codes sample_X (\<lambda>p q. 1) 20 c 9 = Inr (l, b, w) \<and> steps_left l < 4"
    using served_progress [OF d sample_task(4) c(1), of 9 sample_X] c(2,3) sample_notify by auto
  moreover have "next_step sample_codes sample_X (\<lambda>p q. 1) 20 c' 9 = Inl Blocked \<and> ?run ({}, c') ({9}, c')"
    using served_progress [OF d sample_task(4) run, of 9 sample_X] c(3) c'(2,3) sample_notify by simp
  ultimately show ?thesis using c'(1) by blast
qed

text \<open>C6: From the start of the driver to a delivered text: the fresh driver answers the message that opens its device; then a text that
  one process copies by messages to the task, and a process that may read it pastes by the identifier it got, with a
  large enough buffer, arrives byte for byte, and the device is empty again.\<close>

theorem fresh_copy_paste:
  assumes "fresh_heap h" and "devs \<noteq> []" and "codes_apart C"
    and "m_type m = CDEV_OPEN" and "oc_minor m = 0" and "\<not> is_ipc_notify ips"
    and "\<not> is_ipc_notify (ipc X)" and "\<not> is_ipc_notify (ipc Y)" and "f < limit" and "g < limit"
    and "0 \<le> sint p" and "0 \<le> sint q" and "anc p q \<noteq> 0"
    and "unat n \<le> ENTRY_LEN_LIMIT" and "unat n \<le> length bytes" and "length junk = ENTRY_LEN_LIMIT"
    and "expected_decompressed_size bytes n = Inr k" and "\<not> len < k" and "unat n \<le> length buf"
  shows "\<exists>st i w1 w2.
    clipboard_main S SEF_INIT_FRESH C (clipboard_tab cf ct rj wj) [Received m ips] devs (new_process a h) s = Inr st
    \<and> copy_to_clipboard (served_procs C X anc limit p) junk bytes n \<lparr>dev = st, open_files = f\<rparr> = Inr (of_nat i, w1)
    \<and> paste_from_clipboard (served_procs C Y anc limit q) (of_nat i) buf len \<lparr>dev = dev w1, open_files = g\<rparr>
        = Inr (0, overwrite 0 (take (unat n) bytes) buf, w2)
    \<and> board_of (the_driver (dev w2)) = Map.empty \<and> is_open_dev 0 (dev w2)"
proof -
  obtain st where st: "clipboard_main S SEF_INIT_FRESH C (clipboard_tab cf ct rj wj) [Received m ips] devs
      (new_process a h) s = Inr st" "is_open_dev 0 st" "the_driver st = fresh_driver a h"
    using opened_after_start [where S = S and a = a and s = s and cf = cf and ct = ct and rj = rj and wj = wj,
        OF assms(1-6)] by blast
  let ?w = "\<lparr>dev = st, open_files = f\<rparr>" and ?it = "\<lparr>contents = take (unat n) bytes, plain_len = k, owner = p, holder = None\<rparr>"
  have s0: "serving C X (dev ?w)" using fresh_serving [OF st(2,3) assms(1,3,7)] by simp
  have board0: "wf_driver (the_driver st)" "board_of (the_driver st) = Map.empty" "\<not> full_board (board_of (the_driver st))"
    using fresh_wf [OF assms(1)] by (auto simp: st(3) full_board_def BUF_MAX_COUNT_def intro: exI [of _ 0])
  obtain i e where e: "copy_to_clipboard (driver_sys (read_var X) (write_var X) p anc limit) junk bytes n
        (lower_world the_driver ?w) = Inr (of_nat i, (lower_world the_driver ?w)\<lparr>dev := e\<rparr>)"
      "wf_driver e" "board_of e = [i \<mapsto> ?it]"
    using driver_copy [of "lower_world the_driver ?w" limit n bytes junk k "read_var X" "write_var X" p anc]
      board0 assms(9,14-17) by auto
  let ?w1 = "raise_world put_driver ?w ((lower_world the_driver ?w)\<lparr>dev := e\<rparr>)"
  have copy: "copy_to_clipboard (served_procs C X anc limit p) junk bytes n ?w = Inr (of_nat i, ?w1)"
    using served_copy [OF conjunct1 [OF serving_ready [OF s0]] assms(11,16), where anc = anc and limit = limit
        and b = bytes and n = n] e(1) st(2) assms(9)
    by (simp add: served_procs_def driver_sys_def entered_def)
  let ?v = "\<lparr>dev = dev ?w1, open_files = g\<rparr>"
  have s1: "serving C Y (dev ?v)"
    using serving_X [OF _ assms(8)] task.copy_sound [OF s0 assms(11,16), where anc = anc and limit = limit
        and b = bytes and n = n] e(1) by (simp add: driver_sys_def)
  obtain t where t: "paste_from_clipboard (driver_sys (read_var Y) (write_var Y) q anc limit) (of_nat i) buf len
        (lower_world the_driver ?v) = Inr (0, overwrite 0 (take (unat n) bytes) buf, (lower_world the_driver ?v)\<lparr>dev := t\<rparr>)"
      "board_of t = (drop_locks q (board_of e))(i := None)"
    using driver_paste [where w = "lower_world the_driver ?v" and i = i and it = ?it and limit = limit and anc = anc
        and pid = q and n = len and buf = buf and rjunk = "read_var Y" and wjunk = "write_var Y"] e(2,3) assms(10-13,18,19)
    by auto
  have "paste_from_clipboard (served_procs C Y anc limit q) (of_nat i) buf len ?v =
      Inr (0, overwrite 0 (take (unat n) bytes) buf, raise_world put_driver ?v ((lower_world the_driver ?v)\<lparr>dev := t\<rparr>))"
    using served_paste [OF s1, where anc = anc and limit = limit and q = q and i = "of_nat i" and b = buf and n = len] t(1)
    by (simp add: served_procs_def driver_sys_def)
  moreover have "board_of t = Map.empty" by (auto simp: t(2) e(3) drop_locks_def fun_eq_iff)
  ultimately show ?thesis using st copy
    by (intro exI [of _ st] exI [of _ i] exI [of _ ?w1]
        exI [of _ "raise_world put_driver ?v ((lower_world the_driver ?v)\<lparr>dev := t\<rparr>)"]) simp
qed

theorem fresh_copy_paste_witness:
  "\<exists>st i w1 w2.
    clipboard_main map_store SEF_INIT_FRESH sample_codes (clipboard_tab (\<lambda>e g n. Inl 0) (\<lambda>e g bs. 0) [] [])
      [Received (request CDEV_OPEN 0) plain_ipc] [0, 0] (new_process 4000 sample_heap) Map.empty = Inr st
    \<and> copy_to_clipboard (served_procs sample_codes sample_X (\<lambda>p q. 1) 20 7) (replicate 1024 0) [97, 51, 98] 3
        \<lparr>dev = st, open_files = 3\<rparr> = Inr (of_nat i, w1)
    \<and> paste_from_clipboard (served_procs sample_codes sample_X (\<lambda>p q. 1) 20 9) (of_nat i) [0, 0, 0, 0] 4
        \<lparr>dev = dev w1, open_files = 3\<rparr> = Inr (0, [97, 51, 98, 0], w2)"
  using fresh_copy_paste [of sample_heap "[0, 0]" sample_codes "request CDEV_OPEN 0" plain_ipc sample_X sample_X 3 20 3
      7 9 "\<lambda>p q. 1" 3 "[97, 51, 98]" "replicate 1024 0" 4 4 "[0, 0, 0, 0]" map_store "\<lambda>e g n. Inl 0" "\<lambda>e g bs. 0"
      "[]" "[]" 4000 Map.empty]
  by (simp add: sample_heap sample_size ENTRY_LEN_LIMIT_def overwrite_def plain_ipc_def request_def) blast

text \<open>C34: The framework's table of opened devices is no part of the state that an update carries over, and the clipboard does not
  announce itself: after a live update every text is there, but every request of a call that is running gets no answer, as after a
  restart, until some process opens the device; then the texts are served again.\<close>

theorem update_forgets_open_device:
  assumes "ds_laws S" and "wf_driver d" and "fresh_heap h" and "devs \<noteq> []" and "codes_apart C"
    and "m_type m = CDEV_OPEN" and "oc_minor m = 0" and "\<not> is_ipc_notify ips"
  shows "\<exists>t u st st'. sef_cb_lu_state_save S d s = Inr (OK, t, u)
    \<and> clipboard_main S SEF_INIT_LU C (clipboard_tab cf ct rj wj) [] devs (new_process (base (stack_of d)) h) u = Inr st
    \<and> board_of (the_driver st) = board_of d
    \<and> clipboard_main S SEF_INIT_RESTART C (clipboard_tab cf ct rj wj) [] devs (new_process a h) s = Inr st'
    \<and> (\<forall>X sz bs. \<not> is_ipc_notify (ipc X) \<longrightarrow>
        served_read C X sz st = Inl Blocked \<and> served_write C X bs st = Inl Blocked
        \<and> served_read C X sz st' = Inl Blocked \<and> served_write C X bs st' = Inl Blocked)
    \<and> (\<exists>st2. chardriver_process C (clipboard_tab cf ct rj wj) m ips st = Inr st2
        \<and> is_open_dev 0 st2 \<and> wf_driver (the_driver st2) \<and> board_of (the_driver st2) = board_of d)"
proof -
  have n: "BUF_MAX_COUNT * ENTRY_LEN_LIMIT \<le> avail h" using assms(3) by (simp add: fresh_heap_def)
  obtain t u t' u' where lu: "sef_cb_lu_state_save S d s = Inr (OK, t, u)"
      "sef_cb_init S SEF_INIT_LU (new_process (base (stack_of d)) h) u = Inr (OK, t', u')"
      "restored S d (base (stack_of d)) (avail h) BUF_MAX_COUNT (t', u')"
    using update_callbacks [OF assms(1-3), of s "base (stack_of d)"]
    unfolding sef_local_startup_def callbacks.simps by blast
  have t': "wf_driver t'" "board_of t' = board_of d"
    using restored_same_place [OF assms(2) lu(3) n] by simp_all
  define task_with :: "driver \<Rightarrow> task cdstate" where "task_with e = \<lparr>running = True, open_devs = devs,
    next_open_devs_slot = 0, sent = [], priv = \<lparr>drv = e, copied = []\<rparr>\<rparr>" for e
  have main: "clipboard_main S SEF_INIT_LU C (clipboard_tab cf ct rj wj) [] devs (new_process (base (stack_of d)) h) u
      = Inr (task_with t')"
    "clipboard_main S SEF_INIT_RESTART C (clipboard_tab cf ct rj wj) [] devs (new_process a h) s
      = Inr (task_with (new_process a h))"
    using lu(2) sef_cb_init_def [of S SEF_INIT_RESTART "new_process a h" s]
    by (simp_all add: clipboard_main_def chardriver_task_def task_with_def)
  have closed: "next_open_devs_slot (task_with e) = 0" "open_devs (task_with e) \<noteq> []" "the_driver (task_with e) = e" for e
    using assms(4) by (simp_all add: task_with_def the_driver_def)
  from open_again [where cf = cf and ct = ct and rj = rj and wj = wj, OF closed(1,2) [of t'] assms(5-8)] closed(3) t'
  have "\<exists>st2. chardriver_process C (clipboard_tab cf ct rj wj) m ips (task_with t') = Inr st2
      \<and> is_open_dev 0 st2 \<and> wf_driver (the_driver st2) \<and> board_of (the_driver st2) = board_of d"
    by auto
  with lu(1) main t'(2) show ?thesis
    by (intro exI [of _ t] exI [of _ u] exI [of _ "task_with t'"] exI [of _ "task_with (new_process a h)"])
      (simp add: closed(3) unopened_blocks [OF closed(1)])
qed

theorem update_forgets_open_device_witness:
  "\<exists>i d t u st. board_of d = [i \<mapsto> (new_item sample_set)\<lparr>holder := Some 9\<rparr>]
    \<and> sef_cb_lu_state_save map_store d Map.empty = Inr (OK, t, u)
    \<and> clipboard_main map_store SEF_INIT_LU sample_codes (clipboard_tab (\<lambda>e g n. Inl 0) (\<lambda>e g bs. 0) [] []) [] [0, 0]
        (new_process (base (stack_of d)) sample_heap) u = Inr st
    \<and> board_of (the_driver st) = board_of d \<and> served_read sample_codes sample_X (ENCODE_PID 9) st = Inl Blocked"
proof -
  obtain i d where d: "wf_driver d" "board_of d = [i \<mapsto> (new_item sample_set)\<lparr>holder := Some 9\<rparr>]"
    using sample_locked by blast
  have "m_type (request CDEV_OPEN 0) = CDEV_OPEN" "oc_minor (request CDEV_OPEN 0) = 0" "\<not> is_ipc_notify plain_ipc"
    "[0, 0 :: u32] \<noteq> []"
    by (simp_all add: request_def plain_ipc_def)
  from update_forgets_open_device [where cf = "\<lambda>e g n. Inl 0" and ct = "\<lambda>e g bs. 0" and rj = "[]" and wj = "[]"
      and s = Map.empty, OF map_store d(1) sample_heap this(4) sample_task(4) this(1-3)] d(2) sample_task(3)
  show ?thesis by metis
qed

end
