(* ===== verification/Abandoned_Locks.thy ===== *)
theory Abandoned_Locks
  imports Interleaving_Theorems
begin

text \<open>
  Processes that lock a text and never take it: what the others can still do.
\<close>

section \<open>Runs in which some processes are silent\<close>

text \<open>The processes of \<open>Q\<close> have ended, or hang; the others run, and the driver is updated.\<close>

definition silent_run ::
  "'s ds \<Rightarrow> (u32 \<Rightarrow> u32 \<Rightarrow> byte) \<Rightarrow> nat \<Rightarrow> u32 set \<Rightarrow> driver config \<Rightarrow> driver config \<Rightarrow> bool" where
  "silent_run S anc limit Q c c' \<longleftrightarrow> (\<exists>r. r \<notin> Q \<and> driver_moves anc limit r c c') \<or> updates S c c'"

text \<open>Each of the 100 entries holds a text, and a process of \<open>Q\<close> has locked it.\<close>

definition all_held :: "u32 set \<Rightarrow> board \<Rightarrow> bool" where
  "all_held Q b \<longleftrightarrow> (\<forall>i<BUF_MAX_COUNT. \<exists>h\<in>Q. held_by h b i)"

lemma held_frame:
  assumes m: "board_moves anc r (b, p) (b', p')" and held: "all_held Q b" and r: "r \<notin> Q"
    and dom: "\<And>i. BUF_MAX_COUNT \<le> i \<Longrightarrow> b i = None" "\<And>i. BUF_MAX_COUNT \<le> i \<Longrightarrow> b' i = None"
  shows "b' = b"
proof (rule ext)
  fix i
  show "b' i = b i"
  proof (cases "i < BUF_MAX_COUNT")
    case True
    then obtain h where h: "h \<in> Q" "held_by h b i" using held by (auto simp: all_held_def)
    then obtain it where "b i = Some it" "holder it = Some h"
      by (auto simp: held_by_def split: option.splits)
    with board_moves_frame [OF m] h(1) r show ?thesis by metis
  next
    case False
    with dom show ?thesis by simp
  qed
qed

lemma board_none: "wf_driver d \<Longrightarrow> BUF_MAX_COUNT \<le> i \<Longrightarrow> board_of d i = None"
  using device.dom_board [of d i] by (cases "board_of d i") auto

lemma silent_frame:
  assumes "(silent_run S anc limit Q)\<^sup>*\<^sup>* c c'" and "config_ok board_of wf_driver c"
    and "all_held Q (board_of (shared c))"
  shows "config_ok board_of wf_driver c' \<and> board_of (shared c') = board_of (shared c)"
  using assms(1)
proof (induction rule: rtranclp_induct)
  case base
  from assms(2) show ?case by simp
next
  case (step d d')
  then have ok: "config_ok board_of wf_driver d" and b: "board_of (shared d) = board_of (shared c)" by simp_all
  from step.hyps(2) consider r rj wj where "r \<notin> Q" "moves (driver_procs rj wj anc limit) r d d'" | "updates S d d'"
    by (auto simp: silent_run_def driver_moves_def)
  then show ?case
  proof cases
    case 1
    note m = driver_refine [OF ok 1(2)]
    have wf: "wf_driver (shared d)" "wf_driver (shared d')"
      using ok m by (simp_all add: config_ok_def)
    have "board_of (shared d') = board_of (shared d)"
      using held_frame [OF conjunct1 [OF conjunct2 [OF m]] _ 1(1) board_none [OF wf(1)] board_none [OF wf(2)]]
        assms(3) b by simp
    with m b show ?thesis by simp
  next
    case 2
    with update_step [OF ok 2] b show ?thesis by simp
  qed
qed

lemma copy_full:
  assumes "wf_driver (dev w)" and "full_board (board_of (dev w))" and "length junk = ENTRY_LEN_LIMIT"
    and "copy_to_clipboard (driver_sys rj wj q anc limit) junk b n w = Inr (r, w')"
  shows "r = - 1 \<and> w' = w"
proof (cases "unat n \<le> ENTRY_LEN_LIMIT \<and> open_files w < limit")
  case False
  with assms(4) show ?thesis
    by (auto simp: copy_to_clipboard_def driver_sys_def local_sys_def split: if_splits)
next
  case True
  with assms(4) obtain k where "expected_decompressed_size b n = Inr k" "unat n \<le> length b"
    by (auto simp: copy_to_clipboard_def driver_sys_def local_sys_def rbind_eq_Inr split: if_splits)
  with driver_copy [OF assms(1) _ _ _ assms(3), of limit n b k rj wj q anc] True assms(2,4) show ?thesis by simp
qed

lemma held_full: "all_held Q b \<Longrightarrow> full_board b"
  by (auto simp: all_held_def full_board_def held_by_def split: option.splits)

section \<open>How it comes about\<close>

text \<open>An idle process copies a text.\<close>

lemma copy_move:
  assumes ok: "config_ok board_of wf_driver c" and idle: "pc (procs c q) = Returned v"
    and files: "files (procs c q) < limit" and free: "\<not> full_board (board_of (shared c))"
    and n: "unat n \<le> ENTRY_LEN_LIMIT" "unat n \<le> length b" and size: "expected_decompressed_size b n = Inr k"
  shows "\<exists>i c'. i < BUF_MAX_COUNT \<and> board_of (shared c) i = None \<and> driver_moves anc limit q c c'
    \<and> board_of (shared c') = (board_of (shared c))(i \<mapsto>
        \<lparr>contents = take (unat n) b, plain_len = k, owner = q, holder = None\<rparr>)
    \<and> procs c' = (procs c)(q := (procs c q)\<lparr>pc := Returned (of_nat i)\<rparr>)"
proof -
  let ?junk = "replicate ENTRY_LEN_LIMIT 0"
  have "wf_driver (dev (view c q))" using ok by (simp add: config_ok_def)
  with driver_copy [of "view c q" limit n b ?junk k "[]" "[]" q anc] files n size free
  obtain i s where i: "i < BUF_MAX_COUNT" "board_of (shared c) i = None"
      "copy_to_clipboard (driver_sys [] [] q anc limit) ?junk b n (view c q) = Inr (of_nat i, (view c q)\<lparr>dev := s\<rparr>)"
      "board_of s = (board_of (shared c))(i \<mapsto>
        \<lparr>contents = take (unat n) b, plain_len = k, owner = q, holder = None\<rparr>)"
    by auto
  let ?c = "moved q ((procs c q)\<lparr>pc := Returned (of_nat i)\<rparr>) ((view c q)\<lparr>dev := s\<rparr>) c"
  have "moves (driver_procs [] [] anc limit) q c ?c"
    by (rule moves.call_copy [OF refl idle, where junk = ?junk]) (use i(3) in \<open>simp_all add: driver_procs_def\<close>)
  moreover have "files ((procs c q)\<lparr>pc := Returned (of_nat i)\<rparr>) = files (procs c q)" by simp
  ultimately show ?thesis using i
    by (intro exI [of _ i] exI [of _ ?c]) (auto simp: driver_moves_def)
qed

text \<open>One process after the other copies a text and locks it.\<close>

definition jammed :: "'s ds \<Rightarrow> nat \<Rightarrow> driver config \<Rightarrow> bool" where
  "jammed S k c \<longleftrightarrow>
     (runs_on S (\<lambda>p q. 1) 20)\<^sup>*\<^sup>* (idle_config sample_driver) c \<and> config_ok board_of wf_driver c
     \<and> card (dom (board_of (shared c))) = k
     \<and> (\<forall>i it. board_of (shared c) i = Some it \<longrightarrow> (\<exists>h. holder it = Some h \<and> unat h < k))
     \<and> (\<forall>q. k \<le> unat q \<longrightarrow> procs c q = procs (idle_config sample_driver) q)"

lemma dom_less: "wf_driver d \<Longrightarrow> dom (board_of d) \<subseteq> {..<BUF_MAX_COUNT}"
  using device.dom_board by fastforce

lemma start_empty: "start_config (idle_config sample_driver)"
  by (simp add: start_config_def all_idle_def sample_driver held_by_def)

lemma jammed_Suc:
  assumes "jammed S k c" and "k < BUF_MAX_COUNT"
  shows "\<exists>c'. jammed S (Suc k) c'"
proof -
  define q :: u32 where "q = of_nat k"
  have q: "unat q = k" using assms(2) by (simp add: q_def)
  then have pos: "0 \<le> sint q" using assms(2) by (simp add: sint_nonneg_iff BUF_MAX_COUNT_def)
  note j = assms(1) [unfolded jammed_def]
  have ok: "config_ok board_of wf_driver c" using j by simp
  then have "dom (board_of (shared c)) \<subseteq> {..<BUF_MAX_COUNT}" by (simp add: config_ok_def dom_less)
  then have fin: "finite (dom (board_of (shared c)))" by (rule finite_subset) simp
  have idle: "pc (procs c q) = Returned 0" "files (procs c q) < 20" "files (procs c q) = 3"
    using j q by simp_all
  have "\<not> {..<BUF_MAX_COUNT} \<subseteq> dom (board_of (shared c))"
    using card_mono [OF fin, of "{..<BUF_MAX_COUNT}"] j assms(2) by auto
  then have "\<not> full_board (board_of (shared c))" by (auto simp: full_board_def)
  from copy_move [where anc = "\<lambda>p q. 1" and b = "[97, 51, 98]" and n = 3 and k = 4, OF ok idle(1,2) this]
  obtain i c1 where c1: "board_of (shared c) i = None" "driver_moves (\<lambda>p q. 1) 20 q c c1"
      "board_of (shared c1) = (board_of (shared c))(i \<mapsto> \<lparr>contents = [97, 51, 98], plain_len = 4, owner = q, holder = None\<rparr>)"
      "procs c1 = (procs c)(q := (procs c q)\<lparr>pc := Returned (of_nat i)\<rparr>)"
    by (auto simp: sample_size ENTRY_LEN_LIMIT_def)
  have ok1: "config_ok board_of wf_driver c1"
    using driver_refine [OF ok] c1(2) by (auto simp: driver_moves_def)
  let ?it = "\<lparr>contents = [97, 51, 98], plain_len = 4, owner = q, holder = None\<rparr>"
  have c1q: "pc (procs c1 q) = Returned (of_nat i)" "files (procs c1 q) < 20" "board_of (shared c1) i = Some ?it"
    using c1(3,4) idle by simp_all
  obtain c2 fd where c2: "(keeping_moves board_of i (driver_procs [] [] (\<lambda>p q. 1) 20))\<^sup>*\<^sup>* c1 c2"
      "config_ok board_of wf_driver c2" "board_of (shared c2) = (board_of (shared c1))(i \<mapsto> ?it\<lparr>holder := Some q\<rparr>)"
      "procs c2 = (procs c1)(q := \<lparr>pc = Taking fd, arg_id = of_nat i, arg_len = 4, pbuf = [0, 0, 0],
        files = Suc (files (procs c1 q))\<rparr>)"
    using driver_lock_moves [where anc = "\<lambda>p q. 1" and limit = 20 and rjunk = "[]" and wjunk = "[]" and n = 4
        and x = "[0, 0, 0]", OF ok1 c1q(1) pos c1q(2,3)] pos by auto
  have "runs_on S (\<lambda>p q. 1) 20 c c1" using c1(2) by (auto simp: runs_on_def)
  with j keeps_runs [OF keeping_driver [OF c2(1), of S]]
  have run: "(runs_on S (\<lambda>p q. 1) 20)\<^sup>*\<^sup>* (idle_config sample_driver) c2"
    by (meson rtranclp.rtrancl_into_rtrancl rtranclp_trans)
  have board: "board_of (shared c2) = (board_of (shared c))(i \<mapsto> ?it\<lparr>holder := Some q\<rparr>)"
    using c2(3) c1(3) by simp
  have "i \<notin> dom (board_of (shared c))" using c1(1) by auto
  then have "card (dom (board_of (shared c2))) = Suc k"
    using j fin by (simp add: board)
  moreover have "\<exists>h. holder it = Some h \<and> unat h < Suc k" if "board_of (shared c2) m = Some it" for m it
    using that j q unfolding board by (cases "m = i") (auto, metis less_Suc_eq)
  moreover have "procs c2 r = procs (idle_config sample_driver) r" if "Suc k \<le> unat r" for r
  proof -
    have "r \<noteq> q" using that q by auto
    with that j c2(4) c1(4) show ?thesis by simp
  qed
  ultimately show ?thesis using run c2(2) unfolding jammed_def by blast
qed

lemma jammed_exists: "k \<le> BUF_MAX_COUNT \<Longrightarrow> \<exists>c. jammed S k c"
proof (induction k)
  case 0
  have "jammed S 0 (idle_config sample_driver)"
    using start_ok [OF start_empty] by (simp add: jammed_def sample_driver)
  then show ?case by blast
next
  case (Suc k)
  then show ?case using jammed_Suc by (metis Suc_leD Suc_le_lessD)
qed

lemma jammed_held:
  assumes "jammed S BUF_MAX_COUNT c"
  shows "all_held {h. unat h < BUF_MAX_COUNT} (board_of (shared c))"
proof -
  note j = assms [unfolded jammed_def]
  have dom: "dom (board_of (shared c)) = {..<BUF_MAX_COUNT}"
    by (rule card_subset_eq) (use j in \<open>simp_all add: config_ok_def dom_less\<close>)
  show ?thesis
    unfolding all_held_def
  proof (intro allI impI)
    fix i
    assume "i < BUF_MAX_COUNT"
    with dom obtain it where it: "board_of (shared c) i = Some it" by auto
    with j obtain h where "holder it = Some h" "unat h < BUF_MAX_COUNT" by blast
    with it show "\<exists>h\<in>{h. unat h < BUF_MAX_COUNT}. held_by h (board_of (shared c)) i"
      by (auto simp: held_by_def)
  qed
qed

section \<open>Properties\<close>

text \<open>C19: A lock is given back by its process only.  When each of the 100 entries holds a text that is locked by one of
  the processes of \<open>Q\<close>, and these take no further step, the clipboard is of no use to the others for ever: in
  every run of theirs, live updates included, no text changes, none of them is between its lock and its take, and
  every copy that returns is refused with -1.\<close>

theorem abandoned_locks_block:
  assumes "reaches S anc limit c" and "all_held Q (board_of (shared c))"
    and "(silent_run S anc limit Q)\<^sup>*\<^sup>* c c'"
  shows "board_of (shared c') = board_of (shared c)
    \<and> (\<forall>q. q \<notin> Q \<longrightarrow> \<not> is_Taking (pc (procs c' q)))
    \<and> (\<forall>q rj wj junk b n r w. length junk = ENTRY_LEN_LIMIT \<longrightarrow>
        copy_to_clipboard (driver_sys rj wj q anc limit) junk b n (view c' q) = Inr (r, w) \<longrightarrow> r = - 1)"
proof -
  from silent_frame [OF assms(3) reaches_ok [OF assms(1)] assms(2)]
  have ok: "config_ok board_of wf_driver c'" and board: "board_of (shared c') = board_of (shared c)" by simp_all
  have "\<not> is_Taking (pc (procs c' q))" if "q \<notin> Q" for q
  proof
    assume t: "is_Taking (pc (procs c' q))"
    let ?i = "unat (arg_id (procs c' q))"
    have p: "proc_ok q (board_of (shared c')) (procs c' q)" using ok by (simp add: config_ok_def)
    with t have "?i < BUF_MAX_COUNT" "held_by q (board_of (shared c')) ?i"
      by (cases "pc (procs c' q)"; simp add: proc_ok_def)+
    moreover from this obtain h where "h \<in> Q" "held_by h (board_of (shared c')) ?i"
      using assms(2) board by (auto simp: all_held_def)
    ultimately show False using that by (auto simp: held_by_def split: option.splits)
  qed
  moreover have "r = - 1" if "length junk = ENTRY_LEN_LIMIT"
    "copy_to_clipboard (driver_sys rj wj q anc limit) junk b n (view c' q) = Inr (r, w)" for q rj wj junk b n r w
    using copy_full [OF _ _ that] ok held_full [OF assms(2)] board by (simp add: config_ok_def)
  ultimately show ?thesis using board by blast
qed

theorem abandoned_locks_block_witness:
  "\<exists>c Q. reaches map_store (\<lambda>p q. 1) 20 c \<and> all_held Q (board_of (shared c)) \<and> 200 \<notin> Q
    \<and> (\<forall>junk r w. length junk = ENTRY_LEN_LIMIT \<longrightarrow>
        copy_to_clipboard (driver_sys [] [] 200 (\<lambda>p q. 1) 20) junk [97, 51, 98] 3 (view c 200) = Inr (r, w) \<longrightarrow> r = - 1)"
proof -
  obtain c where c: "jammed map_store BUF_MAX_COUNT c"
    using jammed_exists [of BUF_MAX_COUNT map_store] by auto
  then have r: "reaches map_store (\<lambda>p q. 1) 20 c"
    using start_empty by (auto simp: jammed_def reaches_def)
  from abandoned_locks_block [OF r jammed_held [OF c] rtranclp.rtrancl_refl] r jammed_held [OF c]
  show ?thesis
    by (intro exI [of _ c] exI [of _ "{h. unat h < BUF_MAX_COUNT}"]) (auto simp: BUF_MAX_COUNT_def)
qed

end
