(* ===== verification/Fork_Test.thy ===== *)
theory Fork_Test
  imports System_Theorems
begin

text \<open>
  The test program \<open>test/tfork.c\<close>: the processes it makes and the table of ancestor checks it prints for a
  person to look at.  A process is named by the iterations in which it and its ancestors were forked, the
  first one is \<open>[]\<close>; \<open>ok path i\<close> tells whether its \<open>fork\<close> in iteration \<open>i\<close> succeeds.
\<close>

section \<open>The program\<close>

definition N_table :: nat where
  "N_table = 20"

text \<open>The rows of the table: \<open>check_if_ancestor(start + j, start + i)\<close>.\<close>

definition tfork_print :: "(u32 \<Rightarrow> u32 \<Rightarrow> byte) \<Rightarrow> u32 \<Rightarrow> byte list list" where
  "tfork_print anc start =
     map (\<lambda>i. map (\<lambda>j. anc (start + of_nat j) (start + of_nat i)) [0..<N_table]) [0..<N_table]"

text \<open>
  The loop of the process \<open>path\<close> with \<open>k\<close> of four iterations left: the processes that come of it and how
  often the table is printed.
\<close>

primrec tfork_loop :: "(nat list \<Rightarrow> nat \<Rightarrow> bool) \<Rightarrow> nat list \<Rightarrow> nat \<Rightarrow> nat list list \<times> nat" where
  "tfork_loop ok path 0 = ([path], 0)"
| "tfork_loop ok path (Suc k) =
     (let i = 4 - Suc k
      in if \<not> ok path i then tfork_loop ok path k
         else let (ps, a) = tfork_loop ok path k;
                  (qs, b) = tfork_loop ok (path @ [i]) k
              in (ps @ qs, a + b + (if 2 < i \<and> path = [] then 1 else 0)))"

section \<open>The processes\<close>

text \<open>Every process a loop makes descends from the process that runs it, by forks of that loop or later.\<close>

lemma tfork_loop_paths:
  "k \<le> 4 \<Longrightarrow> p \<in> set (fst (tfork_loop ok path k)) \<Longrightarrow> \<exists>q. p = path @ q \<and> (\<forall>i\<in>set q. 4 - k \<le> i \<and> i < 4)"
proof (induction k arbitrary: path)
  case 0
  then show ?case by simp
next
  case (Suc k)
  let ?i = "4 - Suc k"
  from Suc.prems consider "p \<in> set (fst (tfork_loop ok path k))" | "p \<in> set (fst (tfork_loop ok (path @ [?i]) k))"
    by (auto simp: Let_def case_prod_beta split: if_splits)
  then show ?case
  proof cases
    case 1
    with Suc.IH [OF _ 1] Suc.prems(1) show ?thesis by fastforce
  next
    case 2
    with Suc.IH [OF _ 2] Suc.prems(1) obtain q where "p = path @ ?i # q" "\<forall>i\<in>set q. 4 - k \<le> i \<and> i < 4"
      by auto
    with Suc.prems(1) show ?thesis by (intro exI [of _ "?i # q"]) auto
  qed
qed

lemma tfork_loop_distinct: "k \<le> 4 \<Longrightarrow> distinct (fst (tfork_loop ok path k))"
proof (induction k arbitrary: path)
  case 0
  then show ?case by simp
next
  case (Suc k)
  let ?i = "4 - Suc k"
  have "set (fst (tfork_loop ok path k)) \<inter> set (fst (tfork_loop ok (path @ [?i]) k)) = {}"
    using tfork_loop_paths [of k _ ok path] tfork_loop_paths [of k _ ok "path @ [?i]"] Suc.prems
    by fastforce
  with Suc show ?case by (simp add: Let_def case_prod_beta)
qed

lemma tfork_loop_count: "length (fst (tfork_loop (\<lambda>p i. True) path k)) = 2 ^ k"
  by (induction k arbitrary: path) (simp_all add: Let_def case_prod_beta)

lemma tfork_loop_prints:
  "k \<le> 4 \<Longrightarrow> snd (tfork_loop ok path k) = (if path = [] \<and> 0 < k \<and> ok [] 3 then 1 else 0)"
proof (induction k arbitrary: path)
  case 0
  then show ?case by simp
next
  case (Suc k)
  then show ?case by (cases k) (auto simp: Let_def case_prod_beta)
qed

section \<open>Properties\<close>

text \<open>The test program \<open>tfork\<close> makes 16 processes when every \<open>fork\<close> succeeds, different ones in any case, and the
  table is printed at most once, by the first process after its last fork; on a process table whose parents lead to
  process 1 the table shows 1 exactly where the process of the row descends from that of the column, and 0 elsewhere.\<close>

theorem tfork_table:
  assumes "rooted mp rank" and "answers mp anc" and "i < N_table" and "j < N_table"
  shows "tfork_print anc start ! i ! j =
      (if descends mp (start + of_nat j) (start + of_nat i) then 1 else 0)
    \<and> length (fst (tfork_loop (\<lambda>p i. True) [] 4)) = 16 \<and> distinct (fst (tfork_loop ok [] 4))
    \<and> snd (tfork_loop ok [] 4) = (if ok [] 3 then 1 else 0)"
proof -
  let ?p = "start + of_nat j" and ?q = "start + of_nat i"
  obtain r where r: "do_checkifancestor mp ?p ?q = Some (Inr r)" "r = 0 \<or> r = 1" "r = 1 \<longleftrightarrow> descends mp ?p ?q"
    using check_rooted [OF assms(1), of ?p ?q] by blast
  then have "anc ?p ?q = word_of_int r" using assms(2) by (simp add: answers_def check_if_ancestor_def)
  with r(2,3) have "anc ?p ?q = (if descends mp ?p ?q then 1 else 0)" by auto
  then show ?thesis
    using assms(3,4) tfork_loop_count [of "[]" 4] tfork_loop_distinct [of 4 ok "[]"] tfork_loop_prints [of 4 ok "[]"]
    by (simp add: tfork_print_def)
qed

text \<open>In a table of the processes 1, 7 and 9, a child of 7, the row of 9 shows 7 and not the other way round.\<close>

theorem tfork_table_witness:
  "tfork_print family_anc 7 ! 2 ! 0 = 1 \<and> tfork_print family_anc 7 ! 0 ! 2 = 0
    \<and> length (fst (tfork_loop (\<lambda>p i. True) [] 4)) = 16"
  using tfork_table [OF family(1,2), of 2 0 7] tfork_table [OF family(1,2), of 0 2 7] family(3,4)
  by (simp add: N_table_def)

end
