(* ===== verification/Compress.thy ===== *)
theory Compress
  imports Text_Size Decimal
begin

text \<open>
  Run-length coding of texts, the first half of \<open>test/compress.c\<close> (the C original of the assembly
  file; \<open>test/asm/compress.c\<close> and \<open>test/asm/compress_source.c\<close> hold the same functions).  A run of
  more than one character is written as the character and its decimal count.  The callers compress
  a buffer into itself, so the model tells whether source and destination are the same array.
  Positions and lengths of type \<open>uint32_t\<close> are naturals: they stay below the length of an array.
\<close>

section \<open>Characters\<close>

definition is_digit :: "byte \<Rightarrow> bool" where
  "is_digit x \<longleftrightarrow> 48 \<le> sint x \<and> sint x \<le> 57"

definition is_lower :: "byte \<Rightarrow> bool" where
  "is_lower x \<longleftrightarrow> 97 \<le> sint x \<and> sint x \<le> 122"

definition is_upper :: "byte \<Rightarrow> bool" where
  "is_upper x \<longleftrightarrow> 65 \<le> sint x \<and> sint x \<le> 90"

section \<open>Writing characters and numbers\<close>

text \<open>A destination: the array and the position of the next character.\<close>

type_synonym out = "byte list \<times> nat"

definition push_char :: "byte \<Rightarrow> out \<Rightarrow> out cres" where
  "push_char c dp = (case dp of (dst, pos) \<Rightarrow>
     rbind (aput dst (int pos) c) (\<lambda>dst. Inr (dst, Suc pos)))"

function itoa_loop :: "byte list \<Rightarrow> nat \<Rightarrow> nat \<Rightarrow> (byte list \<times> nat) cres" where
  "itoa_loop tmp i v =
     (if 0 < v then rbind (aput tmp (int i) (48 + of_nat (v mod 10))) (\<lambda>tmp. itoa_loop tmp (Suc i) (v div 10))
      else Inr (tmp, i))"
  by pat_completeness auto
termination
  by (relation "measure (\<lambda>(tmp, i, v). v)") auto

declare itoa_loop.simps [simp del]

definition itoa_inverse :: "byte list \<Rightarrow> nat \<Rightarrow> (byte list \<times> nat) cres" where
  "itoa_inverse tmp v = itoa_loop tmp 0 v"

text \<open>The local array \<open>tmp[16]\<close> is written before it is read, so its initial contents do not matter.\<close>

definition push_int :: "nat \<Rightarrow> out \<Rightarrow> out cres" where
  "push_int v dp =
     rbind (itoa_inverse (replicate 16 0) v) (\<lambda>(tmp, res).
       for_each (\<lambda>i dp. rbind (aget tmp (int i)) (\<lambda>c. push_char c dp)) (rev [0..<res]) dp)"

definition push_char_count :: "byte \<Rightarrow> nat \<Rightarrow> out \<Rightarrow> out cres" where
  "push_char_count c count dp =
     (if count = 0 then Inr dp
      else rbind (push_char c dp) (\<lambda>dp. if count = 1 then Inr dp else push_int count dp))"

section \<open>Compression\<close>

function compress_loop ::
  "bool \<Rightarrow> byte list \<Rightarrow> nat \<Rightarrow> nat \<Rightarrow> byte \<Rightarrow> nat \<Rightarrow> out \<Rightarrow> out cres" where
  "compress_loop aliased src n i last_char count dp =
     (if i < n then
        rbind (aget (if aliased then fst dp else src) (int i)) (\<lambda>c.
          if c = last_char then compress_loop aliased src n (Suc i) last_char (Suc count) dp
          else rbind (push_char_count last_char count dp) (compress_loop aliased src n (Suc i) c 1))
      else push_char_count last_char count dp)"
  by pat_completeness auto
termination
  by (relation "measure (\<lambda>(aliased, src, n, i, last_char, count, dp). n - i)") auto

declare compress_loop.simps [simp del]

text \<open>\<open>aliased\<close> says that \<open>src\<close> and \<open>dst\<close> are the same array, whose contents are then \<open>dst\<close>.\<close>

definition compress :: "bool \<Rightarrow> byte list \<Rightarrow> nat \<Rightarrow> byte list \<Rightarrow> out cres" where
  "compress aliased src src_len dst = compress_loop aliased src src_len 0 0 0 (dst, 0)"

section \<open>Decompression\<close>

record unpack =
  u_count :: u32
  u_parsing :: bool
  u_last :: byte

text \<open>The loop \<open>while(*count > 1)\<close>.\<close>

primrec push_more :: "nat \<Rightarrow> byte \<Rightarrow> out \<Rightarrow> out cres" where
  "push_more 0 c dp = Inr dp"
| "push_more (Suc k) c dp = rbind (push_char c dp) (push_more k c)"

definition push_decompressed :: "unpack \<Rightarrow> out \<Rightarrow> (unpack \<times> out) cres" where
  "push_decompressed st dp =
     rbind (push_more (unat (u_count st) - 1) (u_last st) dp) (\<lambda>dp.
       Inr (st\<lparr>u_count := 0, u_parsing := False\<rparr>, dp))"

definition unpack_char :: "byte \<Rightarrow> unpack \<times> out \<Rightarrow> (unpack \<times> out) cres" where
  "unpack_char c x = (case x of (st, dp) \<Rightarrow>
     if \<not> is_digit c then
       rbind (if 0 < snd dp then push_decompressed st dp else Inr (st, dp)) (\<lambda>(st, dp).
         rbind (push_char c dp) (\<lambda>dp. Inr (st\<lparr>u_last := c\<rparr>, dp)))
     else
       let count = (if \<not> u_parsing st then 0 else 10 * u_count st)
       in Inr (st\<lparr>u_parsing := True, u_count := (count + ucast c - 48) mod 26\<rparr>, dp))"

definition decompress :: "byte list \<Rightarrow> nat \<Rightarrow> byte list \<Rightarrow> byte list cres" where
  "decompress src src_len dst =
     rbind (for_each (\<lambda>i x. rbind (aget src (int i)) (\<lambda>c. unpack_char c x)) [0..<src_len]
         (\<lparr>u_count = 0, u_parsing = False, u_last = 0\<rparr>, (dst, 0)))
       (\<lambda>(st, dp). rbind (push_decompressed st dp) (\<lambda>(st, dp). Inr (fst dp)))"

section \<open>The run-length code of a text\<close>

definition digit_bytes :: "nat \<Rightarrow> byte list" where
  "digit_bytes n = map (\<lambda>d. 48 + of_nat d) (digits n)"

definition run_code :: "byte \<Rightarrow> nat \<Rightarrow> byte list" where
  "run_code c k = (if k = 0 then [] else if k = 1 then [c] else c # digit_bytes k)"

fun rle_from :: "byte \<Rightarrow> nat \<Rightarrow> byte list \<Rightarrow> byte list" where
  "rle_from c k [] = run_code c k"
| "rle_from c k (x # xs) =
     (if x = c then rle_from c (Suc k) xs else run_code c k @ rle_from x 1 xs)"

definition rle :: "byte list \<Rightarrow> byte list" where
  "rle xs = rle_from 0 0 xs"

lemma length_digits: "n < 10 ^ k \<Longrightarrow> 0 < k \<Longrightarrow> length (digits n) \<le> k"
proof (induction n arbitrary: k rule: digits.induct)
  case (1 n)
  show ?case
  proof (cases "n < 10")
    case True
    with "1.prems" show ?thesis by (simp add: digits.simps)
  next
    case False
    with "1.prems" obtain j where j: "k = Suc j" "0 < j"
      by (cases k; cases "k - 1") auto
    with "1.prems" have "n div 10 < 10 ^ j" by (simp add: div_less_iff_less_mult mult.commute)
    with "1.IH" [OF False this j(2)] False j show ?thesis by (subst digits.simps) simp
  qed
qed

lemma digits_short: "2 \<le> n \<Longrightarrow> Suc (length (digits n)) \<le> n"
proof (induction n rule: digits.induct)
  case (1 n)
  show ?case
  proof (cases "n < 10")
    case True
    with "1.prems" show ?thesis by (subst digits.simps) simp
  next
    case False
    show ?thesis
    proof (cases "n div 10 < 2")
      case True
      then have "length (digits (n div 10)) = 1" by (subst digits.simps) simp
      with False show ?thesis by (subst digits.simps) simp
    next
      case small: False
      with "1.IH" [OF False] have "Suc (length (digits (n div 10))) \<le> n div 10" by simp
      with False show ?thesis by (subst digits.simps) simp
    qed
  qed
qed

lemma length_run_code: "length (run_code c k) \<le> k"
  using digits_short [of k] by (auto simp: run_code_def digit_bytes_def)

section \<open>The functions compute the code\<close>

lemma push_char_overwrite:
  assumes "length out < length dst"
  shows "push_char c (overwrite 0 out dst, length out) = Inr (overwrite 0 (out @ [c]) dst, length (out @ [c]))"
proof -
  have "(overwrite 0 out dst)[length out := c] = overwrite 0 (out @ [c]) dst"
    using assms by (simp add: overwrite_0 list_update_append Cons_nth_drop_Suc [symmetric])
  with assms show ?thesis by (simp add: push_char_def)
qed

lemma push_list_overwrite:
  "length out + length cs \<le> length dst \<Longrightarrow>
   for_each push_char cs (overwrite 0 out dst, length out) =
     Inr (overwrite 0 (out @ cs) dst, length (out @ cs))"
proof (induction cs arbitrary: out)
  case Nil
  then show ?case by simp
next
  case (Cons c cs)
  then show ?case using Cons.IH [of "out @ [c]"] by (simp add: push_char_overwrite)
qed

lemma itoa_loop_digits:
  assumes "0 < v" and "i + length (digits v) \<le> length tmp"
  shows "\<exists>t. itoa_loop tmp i v = Inr (t, i + length (digits v)) \<and> length t = length tmp
    \<and> take i t = take i tmp \<and> take (length (digits v)) (drop i t) = rev (digit_bytes v)"
  using assms
proof (induction tmp i v rule: itoa_loop.induct)
  case (1 tmp i v)
  let ?d = "48 + of_nat (v mod 10) :: byte"
  have i: "i < length tmp" using "1.prems" by (cases "digits v") auto
  have step: "itoa_loop tmp i v = itoa_loop (tmp[i := ?d]) (Suc i) (v div 10)"
    using "1.prems"(1) i by (subst itoa_loop.simps) simp
  show ?case
  proof (cases "v < 10")
    case True
    then have "v div 10 = 0" and dig: "digits v = [v]" by (simp_all add: digits.simps)
    then have "itoa_loop tmp i v = Inr (tmp[i := ?d], Suc i)"
      using step by (simp add: itoa_loop.simps)
    with i True dig show ?thesis
      by (simp add: digit_bytes_def Cons_nth_drop_Suc [symmetric] del: of_nat_mod)
  next
    case False
    then have dig: "digits v = digits (v div 10) @ [v mod 10]" by (subst digits.simps) simp
    have "0 < v div 10" "Suc i + length (digits (v div 10)) \<le> length (tmp[i := ?d])"
      using False "1.prems" dig by auto
    from "1.IH" [OF "1.prems"(1) _ this] i obtain t where t:
      "itoa_loop (tmp[i := ?d]) (Suc i) (v div 10) = Inr (t, Suc i + length (digits (v div 10)))"
      "length t = length tmp" "take (Suc i) t = take (Suc i) (tmp[i := ?d])"
      "take (length (digits (v div 10))) (drop (Suc i) t) = rev (digit_bytes (v div 10))"
      by auto
    have "take i t = take i tmp" and ti: "t ! i = ?d"
      using t(2,3) i by (simp_all add: take_Suc_conv_app_nth)
    moreover have "take (length (digits v)) (drop i t) = rev (digit_bytes v)"
      using t(2,4) i ti by (simp add: dig digit_bytes_def Cons_nth_drop_Suc [symmetric])
    ultimately show ?thesis using step t(1,2) by (simp add: dig)
  qed
qed

lemma push_int_overwrite:
  assumes "0 < v" and "v < 10 ^ 16" and "length out + length (digits v) \<le> length dst"
  shows "push_int v (overwrite 0 out dst, length out) =
    Inr (overwrite 0 (out @ digit_bytes v) dst, length (out @ digit_bytes v))"
proof -
  have "length (digits v) \<le> 16" using length_digits [OF assms(2)] by simp
  with itoa_loop_digits [OF assms(1), of 0 "replicate 16 0"] obtain t where t:
    "itoa_inverse (replicate 16 0) v = Inr (t, length (digits v))" "length t = 16"
    "take (length (digits v)) t = rev (digit_bytes v)"
    by (auto simp: itoa_inverse_def)
  have len: "length (digits v) \<le> length t" using t(2) \<open>length (digits v) \<le> 16\<close> by simp
  then have "map ((!) t) [0..<length (digits v)] = take (length (digits v)) t"
    by (intro nth_equalityI) simp_all
  then have "map ((!) t) (rev [0..<length (digits v)]) = rev (take (length (digits v)) t)"
    by (simp only: rev_map [symmetric])
  also have "\<dots> = digit_bytes v" using t(3) by simp
  finally have "for_each (\<lambda>i dp. rbind (aget t (int i)) (\<lambda>c. push_char c dp)) (rev [0..<length (digits v)])
      (overwrite 0 out dst, length out) = for_each push_char (digit_bytes v) (overwrite 0 out dst, length out)"
    using len by (subst for_each_aget) auto
  with push_list_overwrite [of out "digit_bytes v" dst] assms(3) t(1) show ?thesis
    by (simp add: push_int_def digit_bytes_def)
qed

lemma push_char_count_overwrite:
  assumes "k < 10 ^ 16" and "length out + length (run_code c k) \<le> length dst"
  shows "push_char_count c k (overwrite 0 out dst, length out) =
    Inr (overwrite 0 (out @ run_code c k) dst, length (out @ run_code c k))"
proof -
  consider "k = 0" | "k = 1" | "2 \<le> k" by linarith
  then show ?thesis
  proof cases
    case 3
    then have len: "length out + Suc (length (digits k)) \<le> length dst"
      using assms(2) by (simp add: run_code_def digit_bytes_def)
    have "push_char c (overwrite 0 out dst, length out) =
        Inr (overwrite 0 (out @ [c]) dst, length (out @ [c]))"
      by (rule push_char_overwrite) (use len in simp)
    with 3 push_int_overwrite [of k "out @ [c]" dst] assms(1) len show ?thesis
      by (simp add: push_char_count_def run_code_def)
  qed (use assms push_char_overwrite [of out dst c] in \<open>simp_all add: push_char_count_def run_code_def\<close>)
qed

lemma compress_loop_rle:
  assumes "n \<le> length s" and "n \<le> length dst" and "n < 10 ^ 16"
    and s: "s = (if aliased then dst else src)"
  shows "i \<le> n \<Longrightarrow> length out + k \<le> i \<Longrightarrow>
    compress_loop aliased src n i c k (overwrite 0 out dst, length out) =
      Inr (overwrite 0 (out @ rle_from c k (drop i (take n s))) dst,
           length (out @ rle_from c k (drop i (take n s))))"
proof (induction "n - i" arbitrary: i c k out)
  case 0
  then have "i = n" by simp
  with 0 have len: "length out + length (run_code c k) \<le> length dst"
    using length_run_code [of c k] assms(2) by linarith
  with 0 \<open>i = n\<close> push_char_count_overwrite [OF _ len] assms(3) show ?case
    by (subst compress_loop.simps) simp
next
  case (Suc m)
  then have i: "i < n" by simp
  let ?o = "overwrite 0 out dst"
  have "length out \<le> i" using Suc.prems(2) by simp
  then have "?o ! i = dst ! i"
    using i assms(2) by (simp add: overwrite_0 nth_append)
  moreover have "length ?o = length dst"
    using \<open>length out \<le> i\<close> i assms(2) by simp
  ultimately have get: "aget (if aliased then ?o else src) (int i) = Inr (s ! i)"
    using i assms(1,2) s by (cases aliased) simp_all
  have drop: "drop i (take n s) = s ! i # drop (Suc i) (take n s)"
    using i assms(1) by (subst Cons_nth_drop_Suc [symmetric]) simp_all
  show ?case
  proof (cases "s ! i = c")
    case True
    have "compress_loop aliased src n i c k (?o, length out) = compress_loop aliased src n (Suc i) c (Suc k) (?o, length out)"
      by (subst compress_loop.simps) (simp only: fst_conv get rbind_Inr i True if_True refl)
    also have "\<dots> = Inr (overwrite 0 (out @ rle_from c (Suc k) (drop (Suc i) (take n s))) dst,
        length (out @ rle_from c (Suc k) (drop (Suc i) (take n s))))"
      using Suc.hyps(2) i Suc.prems(2) by (intro Suc.hyps(1)) auto
    finally show ?thesis unfolding drop using True by simp
  next
    case False
    have len: "length (out @ run_code c k) \<le> i"
      using length_run_code [of c k] Suc.prems(2) by simp
    have push: "push_char_count c k (?o, length out) =
        Inr (overwrite 0 (out @ run_code c k) dst, length (out @ run_code c k))"
      by (rule push_char_count_overwrite) (use Suc.prems(2) i assms(2,3) len in simp_all)
    have "compress_loop aliased src n i c k (?o, length out) =
        compress_loop aliased src n (Suc i) (s ! i) 1 (overwrite 0 (out @ run_code c k) dst, length (out @ run_code c k))"
      by (subst compress_loop.simps) (simp only: fst_conv get rbind_Inr i False if_True if_False push)
    also have "\<dots> = Inr (overwrite 0 ((out @ run_code c k) @ rle_from (s ! i) 1 (drop (Suc i) (take n s))) dst,
        length ((out @ run_code c k) @ rle_from (s ! i) 1 (drop (Suc i) (take n s))))"
      using Suc.hyps(2) i len by (intro Suc.hyps(1)) auto
    finally show ?thesis unfolding drop using False by simp
  qed
qed

lemma compress_rle:
  assumes "n \<le> length (if aliased then dst else src)" and "n \<le> length dst" and "n < 10 ^ 16"
  shows "compress aliased src n dst =
    Inr (overwrite 0 (rle (take n (if aliased then dst else src))) dst,
         length (rle (take n (if aliased then dst else src))))"
  using compress_loop_rle [OF assms refl, of 0 "[]" 0 0]
  by (simp add: compress_def rle_def overwrite_0 del: if_split)

lemma length_rle_from: "length (rle_from c k xs) \<le> k + length xs"
proof (induction xs arbitrary: c k)
  case Nil
  then show ?case by (simp add: length_run_code)
next
  case (Cons x xs)
  from Cons.IH [of c "Suc k"] Cons.IH [of x 1] length_run_code [of c k] show ?case by simp
qed

lemma length_rle: "length (rle xs) \<le> length xs"
  using length_rle_from [of 0 0 xs] by (simp add: rle_def)

section \<open>Expanding the code\<close>

lemma is_digit_char: "is_digit c = digit_char c"
proof -
  have "is_digit c \<longleftrightarrow> (48 \<le> sint c \<and> sint c \<le> 57)" by (simp add: is_digit_def)
  also have "\<dots> \<longleftrightarrow> 48 \<le> unat c \<and> unat c \<le> 57"
  proof (cases "unat c < 128")
    case True
    then have "uint c < 128" by (metis of_nat_less_iff of_nat_numeral uint_nat)
    then have "sint c = uint c"
      by (simp add: sint_uint signed_take_bit_int_eq_self order_trans [of _ 0])
    moreover have "uint c = int (unat c)" by simp
    ultimately show ?thesis by linarith
  next
    case False
    have "unat c < 256" using unsigned_less [of c, where 'a = nat] by simp
    then have "uint c < 256" by (metis of_nat_less_iff of_nat_numeral uint_nat)
    moreover have "128 \<le> uint c" using False by (metis not_less of_nat_less_iff of_nat_numeral uint_nat)
    ultimately have "uint c div 128 = 1" by (intro int_div_pos_eq [where r = "uint c - 128"]) simp_all
    then have "bit (uint c) 7" by (simp add: bit_iff_odd)
    then have "sint c < 0" by (simp add: sint_uint signed_take_bit_negative_iff)
    with False show ?thesis by simp
  qed
  finally show ?thesis by (simp add: digit_char_def)
qed

text \<open>The runs of a text: characters with their counts.\<close>

fun runs_from :: "byte \<Rightarrow> nat \<Rightarrow> byte list \<Rightarrow> (byte \<times> nat) list" where
  "runs_from c k [] = [(c, k)]"
| "runs_from c k (x # xs) = (if x = c then runs_from c (Suc k) xs else (c, k) # runs_from x 1 xs)"

definition runs :: "byte list \<Rightarrow> (byte \<times> nat) list" where
  "runs xs = (case xs of [] \<Rightarrow> [] | x # xs' \<Rightarrow> runs_from x 1 xs')"

lemma rle_from_runs: "rle_from c k xs = concat (map (\<lambda>(c, k). run_code c k) (runs_from c k xs))"
  by (induction c k xs rule: rle_from.induct) simp_all

lemma rle_runs: "rle xs = concat (map (\<lambda>(c, k). run_code c k) (runs xs))"
  by (cases xs) (simp_all add: rle_def runs_def rle_from_runs run_code_def)

lemma runs_from_text: "concat (map (\<lambda>(c, k). replicate k c) (runs_from c k xs)) = replicate k c @ xs"
  by (induction c k xs rule: runs_from.induct) (simp_all add: replicate_append_same [symmetric])

lemma runs_text: "concat (map (\<lambda>(c, k). replicate k c) (runs xs)) = xs"
  by (cases xs) (simp_all add: runs_def runs_from_text)

lemma runs_from_positive: "0 < k \<Longrightarrow> (d, j) \<in> set (runs_from c k xs) \<Longrightarrow> 0 < j"
  by (induction c k xs rule: runs_from.induct) (auto split: if_splits)

lemma runs_positive: "(c, k) \<in> set (runs xs) \<Longrightarrow> 0 < k"
  by (cases xs) (auto simp: runs_def dest: runs_from_positive [rotated])

lemma runs_chars: "(c, k) \<in> set (runs xs) \<Longrightarrow> c \<in> set xs"
proof -
  assume run: "(c, k) \<in> set (runs xs)"
  then have "c \<in> set (replicate k c)" using runs_positive [OF run] by simp
  with run have "c \<in> set (concat (map (\<lambda>(c, k). replicate k c) (runs xs)))" by fastforce
  then show "c \<in> set xs" by (simp only: runs_text)
qed

section \<open>Decompression of the code\<close>

text \<open>How often the decompressed text repeats a character whose count is \<open>k\<close>.\<close>

definition shrink :: "byte \<times> nat \<Rightarrow> byte list" where
  "shrink ck = replicate (max 1 (snd ck mod 26)) (fst ck)"

definition pending :: "unpack \<Rightarrow> byte list" where
  "pending st = replicate (unat (u_count st) - 1) (u_last st)"

lemma push_more_overwrite:
  "length out + k \<le> length dst \<Longrightarrow>
   push_more k c (overwrite 0 out dst, length out) =
     Inr (overwrite 0 (out @ replicate k c) dst, length (out @ replicate k c))"
proof (induction k arbitrary: out)
  case 0
  then show ?case by simp
next
  case (Suc k)
  then show ?case using Suc.IH [of "out @ [c]"] by (simp add: push_char_overwrite)
qed

lemma push_decompressed_overwrite:
  "length out + length (pending st) \<le> length dst \<Longrightarrow>
   push_decompressed st (overwrite 0 out dst, length out) =
     Inr (st\<lparr>u_count := 0, u_parsing := False\<rparr>,
          (overwrite 0 (out @ pending st) dst, length (out @ pending st)))"
  by (simp add: push_decompressed_def pending_def push_more_overwrite)

lemma digit_byte:
  assumes "d < 10"
  shows "is_digit (48 + of_nat d)" and "(ucast (48 + of_nat d :: byte) :: u32) = 48 + of_nat d"
proof -
  have "d \<in> {0, 1, 2, 3, 4, 5, 6, 7, 8, 9}" using assms by auto
  then show "is_digit (48 + of_nat d)" and "(ucast (48 + of_nat d :: byte) :: u32) = 48 + of_nat d"
    by (auto simp: is_digit_char digit_char_def)
qed

lemma count_step:
  assumes "v < 26" and "d < 10"
  shows "(10 * of_nat v + (48 + of_nat d) - 48) mod 26 = (of_nat ((10 * v + d) mod 26) :: u32)"
proof -
  have lt: "10 * v + d < 2 ^ 32" using assms by simp
  have "(10 * of_nat v + (48 + of_nat d) - 48 :: u32) = of_nat (10 * v + d)" by simp
  moreover have "unat (of_nat (10 * v + d) mod 26 :: u32) = (10 * v + d) mod 26"
    using lt by (simp add: unat_mod unat_of_nat take_bit_nat_eq_self del: of_nat_add of_nat_mult)
  then have "of_nat (10 * v + d) mod 26 = (of_nat ((10 * v + d) mod 26) :: u32)"
    by (metis of_nat_unat ucast_id)
  ultimately show ?thesis by simp
qed

lemma unpack_digits:
  assumes "\<forall>d\<in>set ds. d < 10" and "ds \<noteq> []" and "v < 26"
    and "u_parsing st \<longrightarrow> u_count st = of_nat v" and "\<not> u_parsing st \<longrightarrow> v = 0"
  shows "for_each unpack_char (map (\<lambda>d. 48 + of_nat d) ds) (st, dp) =
    Inr (st\<lparr>u_count := of_nat (foldl (\<lambda>v d. 10 * v + d) v ds mod 26), u_parsing := True\<rparr>, dp)"
  using assms
proof (induction ds arbitrary: v st)
  case Nil
  then show ?case by simp
next
  case (Cons d ds)
  have d: "d < 10" using Cons.prems(1) by simp
  let ?w = "(10 * v + d) mod 26"
  let ?st = "st\<lparr>u_count := of_nat ?w, u_parsing := True\<rparr>"
  have step: "unpack_char (48 + of_nat d) (st, dp) = Inr (?st, dp)"
    using digit_byte [OF d] count_step [OF Cons.prems(3) d] Cons.prems(4,5)
    by (cases "u_parsing st") (simp_all add: unpack_char_def)
  have fold_mod: "foldl (\<lambda>v d. 10 * v + d) (a mod 26) ds mod 26 = foldl (\<lambda>v d. 10 * v + d) a ds mod 26" for a :: nat
  proof (induction ds arbitrary: a)
    case Nil
    then show ?case by simp
  next
    case (Cons e ds)
    have "(10 * (a mod 26) + e) mod 26 = (10 * a + e) mod 26" by (metis mod_add_left_eq mod_mult_right_eq)
    with Cons.IH [of "10 * (a mod 26) + e"] Cons.IH [of "10 * a + e"] show ?case by simp
  qed
  show ?case
  proof (cases "ds = []")
    case True
    with step show ?thesis by simp
  next
    case False
    have "for_each unpack_char (map (\<lambda>d. 48 + of_nat d) ds) (?st, dp) =
        Inr (?st\<lparr>u_count := of_nat (foldl (\<lambda>v d. 10 * v + d) ?w ds mod 26), u_parsing := True\<rparr>, dp)"
      using Cons.prems(1) False by (intro Cons.IH) simp_all
    with step show ?thesis by (simp add: fold_mod)
  qed
qed

lemma unpack_run:
  assumes c: "\<not> is_digit c" "0 < k" and new: "out = [] \<longrightarrow> u_count st = 0 \<and> \<not> u_parsing st"
    and len: "length (out @ pending st @ [c]) \<le> length dst"
  shows "for_each unpack_char (run_code c k) (st, (overwrite 0 out dst, length out)) =
    Inr (\<lparr>u_count = of_nat (if k = 1 then 0 else k mod 26), u_parsing = (k \<noteq> 1), u_last = c\<rparr>,
         (overwrite 0 (out @ pending st @ [c]) dst, length (out @ pending st @ [c])))"
proof -
  let ?st = "\<lparr>u_count = 0, u_parsing = False, u_last = c\<rparr>"
  let ?dp = "(overwrite 0 (out @ pending st @ [c]) dst, length (out @ pending st @ [c]))"
  have push: "push_char c (overwrite 0 (out @ pending st) dst, length (out @ pending st)) = Inr ?dp"
    using push_char_overwrite [of "out @ pending st" dst c] len by simp
  have head: "unpack_char c (st, (overwrite 0 out dst, length out)) = Inr (?st, ?dp)"
  proof (cases "out = []")
    case True
    with new have "pending st = []" and "st\<lparr>u_last := c\<rparr> = ?st" by (simp_all add: pending_def)
    with True c(1) push show ?thesis by (simp add: unpack_char_def)
  next
    case False
    have "push_decompressed st (overwrite 0 out dst, length out) =
        Inr (st\<lparr>u_count := 0, u_parsing := False\<rparr>, (overwrite 0 (out @ pending st) dst, length (out @ pending st)))"
      by (rule push_decompressed_overwrite) (use len in simp)
    with False c(1) push show ?thesis by (simp add: unpack_char_def)
  qed
  show ?thesis
  proof (cases "k = 1")
    case True
    with head show ?thesis by (simp add: run_code_def)
  next
    case False
    then have code: "run_code c k = c # map (\<lambda>d. 48 + of_nat d) (digits k)"
      using c(2) by (simp add: run_code_def digit_bytes_def)
    have val: "foldl (\<lambda>v d. 10 * v + d) 0 (digits k) = k"
      using undigits_digits [of k] by (simp add: undigits_def)
    have "for_each unpack_char (map (\<lambda>d. 48 + of_nat d) (digits k)) (?st, ?dp) =
      Inr (?st\<lparr>u_count := of_nat (k mod 26), u_parsing := True\<rparr>, ?dp)"
      using unpack_digits [of "digits k" 0 ?st] digits_less [of _ k] by (simp add: val)
    with head False show ?thesis by (simp add: code)
  qed
qed

lemma pending_run:
  "0 < k \<Longrightarrow> [c] @ pending \<lparr>u_count = of_nat (if k = 1 then 0 else k mod 26), u_parsing = p, u_last = c\<rparr>
    = shrink (c, k)"
proof -
  assume k: "0 < k"
  have "k mod 26 < 2 ^ 32" using mod_less_divisor [of 26 k] by simp
  then have "unat (of_nat (k mod 26) :: u32) = k mod 26"
    by (simp add: unat_of_nat take_bit_nat_eq_self del: of_nat_mod)
  with k show ?thesis
    by (cases "k mod 26") (auto simp: pending_def shrink_def max_def simp del: of_nat_mod)
qed

lemma unpack_runs:
  assumes "\<forall>(c, k)\<in>set rs. \<not> is_digit c \<and> 0 < k"
    and "out = [] \<longrightarrow> u_count st = 0 \<and> \<not> u_parsing st"
    and "length (out @ pending st @ concat (map shrink rs)) \<le> length dst"
  shows "rbind (for_each unpack_char (concat (map (\<lambda>(c, k). run_code c k) rs)) (st, (overwrite 0 out dst, length out)))
      (\<lambda>(st, dp). rbind (push_decompressed st dp) (\<lambda>(st, dp). Inr (fst dp))) =
    Inr (overwrite 0 (out @ pending st @ concat (map shrink rs)) dst)"
  using assms
proof (induction rs arbitrary: st out)
  case Nil
  then show ?case by (simp add: push_decompressed_overwrite)
next
  case (Cons r rs)
  obtain c k where r: "r = (c, k)" by (cases r)
  let ?st = "\<lparr>u_count = of_nat (if k = 1 then 0 else k mod 26), u_parsing = (k \<noteq> 1), u_last = c\<rparr> :: unpack"
  let ?out = "out @ pending st @ [c]"
  have c: "\<not> is_digit c" "0 < k" using Cons.prems(1) by (simp_all add: r)
  have sh: "shrink r = [c] @ pending ?st" unfolding r by (rule pending_run [OF c(2), symmetric])
  have whole: "?out @ pending ?st @ concat (map shrink rs) = out @ pending st @ concat (map shrink (r # rs))"
    by (simp add: sh)
  have run: "for_each unpack_char (run_code c k) (st, (overwrite 0 out dst, length out)) =
      Inr (?st, (overwrite 0 ?out dst, length ?out))"
    by (rule unpack_run [OF c Cons.prems(2)]) (use Cons.prems(3) in \<open>simp add: sh\<close>)
  have "rbind (for_each unpack_char (concat (map (\<lambda>(c, k). run_code c k) rs)) (?st, (overwrite 0 ?out dst, length ?out)))
      (\<lambda>(st, dp). rbind (push_decompressed st dp) (\<lambda>(st, dp). Inr (fst dp))) =
    Inr (overwrite 0 (?out @ pending ?st @ concat (map shrink rs)) dst)"
    by (rule Cons.IH) (use Cons.prems(1,3) in \<open>simp_all add: sh\<close>)
  then show ?case
    unfolding whole by (simp add: r for_each_append run)
qed

lemma decompress_runs:
  assumes "\<forall>(c, k)\<in>set rs. \<not> is_digit c \<and> 0 < k"
    and "take n src = concat (map (\<lambda>(c, k). run_code c k) rs)" and "n \<le> length src"
    and "length (concat (map shrink rs)) \<le> length dst"
  shows "decompress src n dst = Inr (overwrite 0 (concat (map shrink rs)) dst)"
  using unpack_runs [OF assms(1), of "[]" "\<lparr>u_count = 0, u_parsing = False, u_last = 0\<rparr>" dst] assms(2,4)
  unfolding decompress_def for_each_array [OF assms(3)] by (simp add: pending_def overwrite_0)

lemma shrink_small:
  assumes "\<forall>(c, k)\<in>set (runs xs). k < 26"
  shows "concat (map shrink (runs xs)) = xs"
proof -
  have "shrink r = (case r of (c, k) \<Rightarrow> replicate k c)" if "r \<in> set (runs xs)" for r
    using that assms runs_positive [of "fst r" "snd r" xs] by (auto simp: shrink_def)
  then have "map shrink (runs xs) = map (\<lambda>(c, k). replicate k c) (runs xs)"
    by (intro map_cong) simp_all
  then show ?thesis by (simp only: runs_text)
qed

section \<open>The expected size of the code\<close>

text \<open>A run adds its count, or 1 for a single character, when the next character is met.\<close>

lemma scan_digits:
  assumes "\<forall>d\<in>set ds. d < 10"
  shows "scan False (map (\<lambda>d. 48 + of_nat d) ds) (len, of_nat v) = (len, of_nat (foldl (\<lambda>v d. 10 * v + d) v ds))"
  using assms
proof (induction ds arbitrary: v)
  case Nil
  then show ?case by simp
next
  case (Cons d ds)
  have "digit_char (48 + of_nat d)" using digit_byte(1) [of d] Cons.prems by (simp add: is_digit_char)
  with Cons.IH [of "10 * v + d"] Cons.prems digit_byte(2) [of d] show ?case
    by (simp add: scan_char_def algebra_simps)
qed

lemma scan_append: "scan first (xs @ ys) st = scan (first \<and> xs = []) ys (scan first xs st)"
  by (induction first xs st rule: scan.induct) simp_all

text \<open>After a run: the length counts the runs before it, the counter its own count if that is written.\<close>

lemma flush_counter: "flush first (len, cur) = (fst (flush first (len, cur)), 0)"
  by (simp add: flush_def)

lemma scan_run:
  assumes "\<not> is_digit c" and "0 < k"
  shows "scan first (run_code c k) (len, cur) =
    (fst (flush first (len, cur)), of_nat (if k = 1 then 0 else k))"
proof -
  have char: "scan_char first c (len, cur) = (fst (flush first (len, cur)), of_nat 0)"
    using assms(1) flush_counter [of first len cur] by (simp add: scan_char_def is_digit_char)
  have val: "foldl (\<lambda>v d. 10 * v + d) 0 (digits k) = k"
    using undigits_digits [of k] by (simp add: undigits_def)
  have ds: "\<forall>d\<in>set (digits k). d < 10" using digits_less by blast
  show ?thesis
    using assms(2) char scan_digits [OF ds, of "fst (flush first (len, cur))" 0]
    by (simp add: run_code_def digit_bytes_def val)
qed

lemma flush_count: "0 < k \<Longrightarrow> k < 2 ^ 32 \<Longrightarrow> fst (flush False (len, of_nat (if k = 1 then 0 else k))) = len + of_nat k"
  using of_nat_pos_iff [of k] by (auto simp: flush_def)

lemma scan_runs:
  assumes "\<forall>(c, k)\<in>set rs. \<not> is_digit c \<and> 0 < k \<and> k < 2 ^ 32"
  shows "fst (flush False (scan False (concat (map (\<lambda>(c, k). run_code c k) rs)) (len, cur))) =
    fst (flush False (len, cur)) + of_nat (sum_list (map snd rs))"
  using assms
proof (induction rs arbitrary: len cur)
  case Nil
  then show ?case by simp
next
  case (Cons r rs)
  obtain c k where r: "r = (c, k)" by (cases r)
  have c: "\<not> is_digit c" "0 < k" "k < 2 ^ 32" using Cons.prems by (simp_all add: r)
  show ?case
    using Cons.IH [of "fst (flush False (len, cur))" "of_nat (if k = 1 then 0 else k)"] Cons.prems
      flush_count [OF c(2,3), of "fst (flush False (len, cur))"]
    by (simp add: r scan_append scan_run [OF c(1,2)] add.assoc del: of_nat_add)
       (simp add: add.assoc)
qed

lemma runs_length: "sum_list (map snd (runs xs)) = length xs"
proof -
  have "sum_list (map snd rs) = length (concat (map (\<lambda>(c, k). replicate k c) rs))" for rs :: "(byte \<times> nat) list"
    by (induction rs) auto
  then show ?thesis by (simp add: runs_text)
qed

lemma runs_bound: "(c, k) \<in> set (runs xs) \<Longrightarrow> k \<le> length xs"
proof -
  assume run: "(c, k) \<in> set (runs xs)"
  then have "k \<in> set (map snd (runs xs))" by force
  then have "k \<le> sum_list (map snd (runs xs))" by (rule member_le_sum_list) simp
  then show "k \<le> length xs" by (simp add: runs_length)
qed

lemma rle_ctype:
  assumes "\<forall>c\<in>set xs. ctype_ok c"
  shows "\<forall>c\<in>set (rle xs). ctype_ok c"
proof
  fix b
  assume "b \<in> set (rle xs)"
  then obtain c k where run: "(c, k) \<in> set (runs xs)" "b \<in> set (run_code c k)"
    by (auto simp: rle_runs)
  then have "b = c \<or> b \<in> set (digit_bytes k)"
    by (auto simp: run_code_def split: if_splits)
  then show "ctype_ok b"
  proof
    assume "b = c"
    with run(1) assms runs_chars show ?thesis by blast
  next
    assume "b \<in> set (digit_bytes k)"
    then obtain d where "b = 48 + of_nat d" "d < 10"
      using digits_less by (auto simp: digit_bytes_def)
    then have "is_digit b" using digit_byte(1) by simp
    then show ?thesis by (simp add: is_digit_def ctype_ok_def)
  qed
qed

lemma expected_size_rle:
  assumes "\<forall>c\<in>set xs. \<not> is_digit c \<and> ctype_ok c" and "length xs < 2 ^ 32"
  shows "expected_decompressed_size (rle xs) (of_nat (length (rle xs))) = Inr (of_nat (length xs))"
proof -
  have "length (rle xs) < 2 ^ 32" using length_rle [of xs] assms(2) by linarith
  then have n: "unat (of_nat (length (rle xs)) :: u32) = length (rle xs)"
    by (simp add: unat_of_nat take_bit_nat_eq_self)
  have "fst (flush (length (rle xs) = 0) (scan True (rle xs) (0, 0))) = of_nat (length xs)"
  proof (cases "runs xs")
    case Nil
    then have "xs = []" using runs_text [of xs] by simp
    then show ?thesis by (simp add: rle_def run_code_def flush_def)
  next
    case (Cons r rs)
    obtain c k where r: "r = (c, k)" by (cases r)
    have all: "\<forall>(c, k)\<in>set (runs xs). \<not> is_digit c \<and> 0 < k \<and> k < 2 ^ 32"
      using runs_chars runs_positive runs_bound assms by (fastforce intro: le_less_trans)
    then have c: "\<not> is_digit c" "0 < k" "k < 2 ^ 32"
      and rs: "\<forall>(c, k)\<in>set rs. \<not> is_digit c \<and> 0 < k \<and> k < 2 ^ 32" by (simp_all add: Cons r)
    have code: "rle xs = run_code c k @ concat (map (\<lambda>(c, k). run_code c k) rs)"
      by (simp add: rle_runs Cons r)
    have ne: "run_code c k \<noteq> []" using c(2) by (simp add: run_code_def)
    have "fst (flush False (scan True (rle xs) (0, 0))) = of_nat (k + sum_list (map snd rs))"
      using scan_runs [OF rs, of 0 "of_nat (if k = 1 then 0 else k)"] flush_count [OF c(2,3), of 0] ne
      unfolding code scan_append scan_run [OF c(1,2)] by (simp add: flush_def [of True])
    also have "k + sum_list (map snd rs) = length xs"
      using runs_length [of xs] by (simp add: Cons r)
    finally show ?thesis using ne by (simp add: code)
  qed
  moreover have "\<forall>c\<in>set (rle xs). ctype_ok c" using rle_ctype assms(1) by blast
  ultimately show ?thesis
    using expected_size_scan [of "of_nat (length (rle xs))" "rle xs"] n by simp
qed

section \<open>Properties\<close>

text \<open>C26: Compression writes the run-length code of the first \<open>n\<close> characters to the start of the destination and returns its
  length, which is at most \<open>n\<close>; it does so also when source and destination are the same array, since it never
  writes past the characters it has read.\<close>

theorem compress_correct:
  assumes "n \<le> length (if aliased then dst else src)" and "n \<le> length dst" and "n < 2 ^ 32"
  shows "compress aliased src n dst =
      Inr (overwrite 0 (rle (take n (if aliased then dst else src))) dst,
           length (rle (take n (if aliased then dst else src))))
    \<and> length (rle (take n (if aliased then dst else src))) \<le> n"
proof
  show "compress aliased src n dst =
      Inr (overwrite 0 (rle (take n (if aliased then dst else src))) dst,
           length (rle (take n (if aliased then dst else src))))"
    by (rule compress_rle) (use assms in simp_all)
  show "length (rle (take n (if aliased then dst else src))) \<le> n"
    using length_rle [of "take n (if aliased then dst else src)"] by simp
qed

text \<open>The text \<open>aabbZZZc\<close>, compressed into itself.\<close>

theorem compress_correct_witness:
  "compress True [] 8 [97, 97, 98, 98, 90, 90, 90, 99] = Inr ([97, 50, 98, 50, 90, 51, 99, 99], 7)"
  using compress_correct [of 8 True "[97, 97, 98, 98, 90, 90, 90, 99]" "[]"]
  by (simp add: rle_def run_code_def digit_bytes_def digits.simps overwrite_def)

text \<open>C27: Decompression undoes compression for texts without digits in which no run has 26 or more characters, in any
  destination that holds the text.\<close>

theorem decompress_compress:
  assumes "\<forall>c\<in>set xs. \<not> is_digit c" and "\<forall>(c, k)\<in>set (runs xs). k < 26"
    and "take n src = rle xs" and "n \<le> length src" and "length xs \<le> length dst"
  shows "decompress src n dst = Inr (overwrite 0 xs dst)"
proof -
  have "\<forall>(c, k)\<in>set (runs xs). \<not> is_digit c \<and> 0 < k"
    using assms(1) runs_chars runs_positive by fast
  from decompress_runs [OF this, of n src dst] assms(3-5) show ?thesis
    by (simp add: shrink_small [OF assms(2)] rle_runs)
qed

theorem decompress_compress_witness:
  "decompress [97, 50, 98, 50, 90, 51, 99, 0] 7 (replicate 9 0) = Inr [97, 97, 98, 98, 90, 90, 90, 99, 0]"
  using decompress_compress [of "[97, 97, 98, 98, 90, 90, 90, 99]" 7 "[97, 50, 98, 50, 90, 51, 99, 0]" "replicate 9 0"]
  by (simp add: rle_def run_code_def digit_bytes_def digits.simps overwrite_def runs_def is_digit_char digit_char_def)

text \<open>Decompression reads counts modulo 26: the code of a text without digits decompresses to the text in which each run of
  \<open>k\<close> characters has become one of \<open>k mod 26\<close> characters, or of one if that is 0.\<close>

theorem decompress_counts_mod_26:
  assumes "\<forall>c\<in>set xs. \<not> is_digit c" and "take n src = rle xs" and "n \<le> length src"
    and "length xs \<le> length dst"
  shows "decompress src n dst =
    Inr (overwrite 0 (concat (map (\<lambda>(c, k). replicate (max 1 (k mod 26)) c) (runs xs))) dst)"
proof -
  have pos: "\<forall>(c, k)\<in>set (runs xs). \<not> is_digit c \<and> 0 < k"
    using assms(1) runs_chars runs_positive by fast
  have "length (concat (map shrink rs)) \<le> sum_list (map snd rs)" if "\<forall>(c, k)\<in>set rs. \<not> is_digit c \<and> 0 < k" for rs
    using that by (induction rs) (auto simp: shrink_def intro!: add_mono)
  from this [OF pos] have "length (concat (map shrink (runs xs))) \<le> length dst"
    using assms(4) runs_length [of xs] by simp
  from decompress_runs [OF pos _ assms(3) this] assms(2)
  have "decompress src n dst = Inr (overwrite 0 (concat (map shrink (runs xs))) dst)"
    by (simp add: rle_runs)
  moreover have "shrink = (\<lambda>(c, k). replicate (max 1 (k mod 26)) c)"
    by (simp add: shrink_def fun_eq_iff)
  ultimately show ?thesis by simp
qed

text \<open>The code \<open>a27\<close> of 27 characters decompresses to one.\<close>

theorem decompress_counts_mod_26_witness:
  "decompress [97, 50, 55] 3 (replicate 30 0) = Inr (97 # replicate 29 0)"
proof -
  have loop: "runs_from 97 k (replicate m 97) = [(97, k + m)]"
    "rle_from 97 k (replicate m 97) = run_code 97 (k + m)" for k m
    by (induction m arbitrary: k) simp_all
  have big: "replicate 27 (97 :: byte) = 97 # replicate 26 97"
    using replicate_Suc [of 26 "97 :: byte"] by simp
  have "runs (replicate 27 97) = [(97, 27)]"
    using loop(1) [of 1 26] by (simp add: runs_def big)
  moreover have "rle (replicate 27 97) = [97, 50, 55]"
    using loop(2) [of 1 26] by (simp add: rle_def big run_code_def digit_bytes_def digits.simps)
  ultimately show ?thesis
    using decompress_counts_mod_26 [of "replicate 27 97" 3 "[97, 50, 55]" "replicate 30 0"]
    by (simp add: is_digit_char digit_char_def overwrite_def)
qed

text \<open>For the code of a text without digits, whose characters \<open>isdigit\<close> accepts, the library computes the length
  of the text as the expected size, also for runs of 26 and more characters.\<close>

theorem expected_size_of_code:
  assumes "\<forall>c\<in>set xs. \<not> is_digit c \<and> ctype_ok c" and "length xs < 2 ^ 32"
  shows "expected_decompressed_size (rle xs) (of_nat (length (rle xs))) = Inr (of_nat (length xs))"
  by (rule expected_size_rle [OF assms])

theorem expected_size_of_code_witness:
  "expected_decompressed_size [97, 50, 98] 3 = Inr 3"
proof -
  have "rle [97, 97, 98] = [97, 50, 98]"
    by (simp add: rle_def run_code_def digit_bytes_def digits.simps)
  moreover have "\<forall>c\<in>set [97, 97, 98 :: byte]. \<not> is_digit c \<and> ctype_ok c"
    by (simp add: is_digit_char digit_char_def ctype_ok_def)
  ultimately show ?thesis
    using expected_size_of_code [of "[97, 97, 98]"] by simp
qed

text \<open>The computation of the expected size leaves defined behaviour exactly when the text has a character below -1
  as a signed number, as every byte of a multi-byte character is: it passes them to \<open>isdigit\<close>.\<close>

theorem expected_size_faults_iff:
  assumes "unat n \<le> length buf"
  shows "\<not> no_fault (expected_decompressed_size buf n) \<longleftrightarrow> (\<exists>c\<in>set (take (unat n) buf). \<not> ctype_ok c)"
proof
  assume "\<not> no_fault (expected_decompressed_size buf n)"
  then show "\<exists>c\<in>set (take (unat n) buf). \<not> ctype_ok c"
    using expected_size_scan [OF assms] by fastforce
next
  assume "\<exists>c\<in>set (take (unat n) buf). \<not> ctype_ok c"
  then have "\<not> no_fault (size_loop buf (unat n) 0 0 0)"
    using size_loop_bad [OF assms, of 0] by simp
  then show "\<not> no_fault (expected_decompressed_size buf n)"
    by (simp add: expected_decompressed_size_def no_fault_rbind) (auto simp: no_fault_iff)
qed

text \<open>The first byte of a two-byte character.\<close>

theorem expected_size_faults_iff_witness:
  "\<not> no_fault (expected_decompressed_size [0xC4, 0x85] 2)"
  using expected_size_faults_iff [of 2 "[0xC4, 0x85]"] by (simp add: ctype_ok_def)

end
