(* ===== verification/Cipher.thy ===== *)
theory Cipher
  imports Compress "HOL-Library.Signed_Division"
begin

text \<open>
  The cipher of \<open>test/compress.c\<close>: \<open>normalize_key\<close>, \<open>char_base\<close> and \<open>cipher\<close>.  Characters are signed
  and are computed with as \<open>int\<close>; the results are cut to 8 bits, and \<open>%\<close> truncates towards zero.
\<close>

section \<open>The key\<close>

definition MAX_SIZE :: nat where
  "MAX_SIZE = 1024"

definition finish_push_number :: "byte \<Rightarrow> bool \<Rightarrow> out \<Rightarrow> (bool \<times> out) cres" where
  "finish_push_number v parsing dp =
     (if parsing then rbind (push_char v dp) (\<lambda>dp. Inr (False, dp)) else Inr (parsing, dp))"

text \<open>The loop of \<open>normalize_key\<close>: it reads and writes the same array, the first component of \<open>dp\<close>.\<close>

function normalize_loop :: "nat \<Rightarrow> nat \<Rightarrow> u32 \<Rightarrow> bool \<Rightarrow> out \<Rightarrow> (u32 \<times> bool \<times> out) cres" where
  "normalize_loop n i count parsing dp =
     (if i < n then
        rbind (aget (fst dp) (int i)) (\<lambda>c.
          if is_digit c then
            let count = (if parsing then 10 * count else 0)
            in normalize_loop n (Suc i) ((count + ucast c - 48) mod 26) True dp
          else rbind (finish_push_number (ucast count) parsing dp) (\<lambda>(parsing, dp).
            rbind (push_char (if is_lower c then c - 97 else c - 65) dp) (\<lambda>dp.
              normalize_loop n (Suc i) count parsing dp)))
      else Inr (count, parsing, dp))"
  by pat_completeness auto
termination
  by (relation "measure (\<lambda>(n, i, count, parsing, dp). n - i)") auto

declare normalize_loop.simps [simp del]

definition normalize_key :: "byte list \<Rightarrow> nat \<Rightarrow> out cres" where
  "normalize_key key key_len =
     rbind (normalize_loop key_len 0 0 False (key, 0)) (\<lambda>(count, parsing, dp).
       rbind (finish_push_number (ucast count) parsing dp) (\<lambda>(parsing, dp). Inr dp))"

section \<open>The cipher\<close>

definition char_base :: "byte \<Rightarrow> byte" where
  "char_base c = (if is_digit c then 48 else if is_lower c then 97 else if is_upper c then 65 else 0)"

datatype mode = MODE_CIPHER | MODE_DECIPHER

definition cipher_char :: "mode \<Rightarrow> byte \<Rightarrow> byte \<Rightarrow> byte" where
  "cipher_char mode k b =
     (let base = char_base b;
          b = b - base;
          b = (if mode = MODE_DECIPHER then b + (26 - k) else b + k);
          b = word_of_int (sint b smod 26)
      in b + base)"

function cipher_loop :: "mode \<Rightarrow> byte list \<Rightarrow> nat \<Rightarrow> nat \<Rightarrow> nat \<Rightarrow> nat \<Rightarrow> byte list \<Rightarrow> byte list cres" where
  "cipher_loop mode norm_key norm_key_len n i k buf =
     (if i < n then
        rbind (aget buf (int i)) (\<lambda>b.
          rbind (aget norm_key (int k)) (\<lambda>x.
            rbind (aput buf (int i) (cipher_char mode x b)) (\<lambda>buf.
              if norm_key_len = 0 then Inl Div_By_Zero
              else cipher_loop mode norm_key norm_key_len n (Suc i) ((k + 1) mod norm_key_len) buf)))
      else Inr buf)"
  by pat_completeness auto
termination
  by (relation "measure (\<lambda>(mode, norm_key, norm_key_len, n, i, k, buf). n - i)") auto

declare cipher_loop.simps [simp del]

text \<open>\<open>junk\<close> is what the local array \<open>norm_key\<close> holds before the key is copied into it.\<close>

definition cipher :: "byte list \<Rightarrow> byte list \<Rightarrow> nat \<Rightarrow> byte list \<Rightarrow> nat \<Rightarrow> mode \<Rightarrow> (int \<times> byte list) cres" where
  "cipher junk buf n key key_len mode =
     (if MAX_SIZE < key_len then Inr (- 1, buf)
      else if length key < key_len then Inl Out_Of_Bounds
      else rbind (normalize_key (overwrite 0 (take key_len key) junk) key_len) (\<lambda>(norm_key, norm_key_len).
        rbind (cipher_loop mode norm_key norm_key_len n 0 0 buf) (\<lambda>buf. Inr (0, buf))))"

section \<open>The normalized key\<close>

fun norm_from :: "bool \<Rightarrow> u32 \<Rightarrow> byte list \<Rightarrow> byte list" where
  "norm_from parsing count [] = (if parsing then [ucast count] else [])"
| "norm_from parsing count (c # cs) =
     (if is_digit c then norm_from True (((if parsing then 10 * count else 0) + ucast c - 48) mod 26) cs
      else (if parsing then [ucast count] else []) @ (if is_lower c then c - 97 else c - 65)
        # norm_from False count cs)"

definition norm :: "byte list \<Rightarrow> byte list" where
  "norm key = norm_from False 0 key"

lemma length_norm_from: "length (norm_from parsing count cs) \<le> length cs + (if parsing then 1 else 0)"
  by (induction parsing count cs rule: norm_from.induct) (auto split: if_splits)

lemma length_norm: "length (norm key) \<le> length key"
  using length_norm_from [of False 0 key] by (simp add: norm_def)

lemma norm_from_Nil: "norm_from parsing count cs = [] \<longleftrightarrow> \<not> parsing \<and> cs = []"
  by (induction parsing count cs rule: norm_from.induct) auto

lemma norm_Nil: "norm key = [] \<longleftrightarrow> key = []"
  by (simp add: norm_def norm_from_Nil)

lemma normalize_loop_norm:
  assumes "n \<le> length key"
  shows "i \<le> n \<Longrightarrow> length out + (if parsing then 1 else 0) \<le> i \<Longrightarrow>
    rbind (normalize_loop n i count parsing (overwrite 0 out key, length out)) (\<lambda>(count, parsing, dp).
      rbind (finish_push_number (ucast count) parsing dp) (\<lambda>(parsing, dp). Inr dp)) =
    Inr (overwrite 0 (out @ norm_from parsing count (drop i (take n key))) key,
         length (out @ norm_from parsing count (drop i (take n key))))"
proof (induction "n - i" arbitrary: i count parsing out)
  case 0
  then have "i = n" by simp
  moreover have "parsing \<Longrightarrow> length out < length key" using 0 assms by simp
  ultimately show ?case
    by (subst normalize_loop.simps) (simp add: finish_push_number_def push_char_overwrite)
next
  case (Suc m)
  then have i: "i < n" by simp
  let ?o = "overwrite 0 out key" and ?c = "key ! i"
  have le: "length out \<le> i" using Suc.prems(2) by (cases parsing) simp_all
  then have len: "length ?o = length key" using i assms by simp
  have "?o ! i = ?c" using le i assms by (simp add: overwrite_0 nth_append)
  then have get: "aget (fst (?o, length out)) (int i) = Inr ?c" using len i assms by simp
  have drop: "drop i (take n key) = ?c # drop (Suc i) (take n key)"
    using i assms by (subst Cons_nth_drop_Suc [symmetric]) simp_all
  show ?case
  proof (cases "is_digit ?c")
    case True
    let ?n = "((if parsing then 10 * count else 0) + ucast ?c - 48) mod 26 :: u32"
    have "normalize_loop n i count parsing (?o, length out) = normalize_loop n (Suc i) ?n True (?o, length out)"
      by (subst normalize_loop.simps) (simp only: get rbind_Inr i True if_True Let_def)
    moreover have "rbind (normalize_loop n (Suc i) ?n True (?o, length out)) (\<lambda>(count, parsing, dp).
        rbind (finish_push_number (ucast count) parsing dp) (\<lambda>(parsing, dp). Inr dp)) =
      Inr (overwrite 0 (out @ norm_from True ?n (drop (Suc i) (take n key))) key,
           length (out @ norm_from True ?n (drop (Suc i) (take n key))))"
      using Suc.hyps(2) i le by (intro Suc.hyps(1)) auto
    ultimately show ?thesis unfolding drop using True by simp
  next
    case False
    let ?num = "if parsing then [ucast count] else []"
    let ?x = "if is_lower ?c then ?c - 97 else ?c - 65"
    let ?out = "out @ ?num @ [?x]"
    have room: "length (out @ ?num) \<le> i" using Suc.prems(2) by (cases parsing) simp_all
    have fin: "finish_push_number (ucast count) parsing (?o, length out) =
        Inr (False, (overwrite 0 (out @ ?num) key, length (out @ ?num)))"
      using room i assms push_char_overwrite [of out key "ucast count"]
      by (cases parsing) (simp_all add: finish_push_number_def)
    have push: "push_char ?x (overwrite 0 (out @ ?num) key, length (out @ ?num)) =
        Inr (overwrite 0 ?out key, length ?out)"
      using push_char_overwrite [of "out @ ?num" key ?x] room i assms by simp
    have "normalize_loop n i count parsing (?o, length out) =
        normalize_loop n (Suc i) count False (overwrite 0 ?out key, length ?out)"
      by (subst normalize_loop.simps) (simp only: get rbind_Inr i False if_True if_False fin prod.case push)
    moreover have "rbind (normalize_loop n (Suc i) count False (overwrite 0 ?out key, length ?out)) (\<lambda>(count, parsing, dp).
        rbind (finish_push_number (ucast count) parsing dp) (\<lambda>(parsing, dp). Inr dp)) =
      Inr (overwrite 0 (?out @ norm_from False count (drop (Suc i) (take n key))) key,
           length (?out @ norm_from False count (drop (Suc i) (take n key))))"
      using Suc.hyps(2) i room by (intro Suc.hyps(1)) auto
    ultimately show ?thesis unfolding drop using False by simp
  qed
qed

lemma normalize_key_norm:
  "n \<le> length key \<Longrightarrow>
   normalize_key key n = Inr (overwrite 0 (norm (take n key)) key, length (norm (take n key)))"
  using normalize_loop_norm [of n key 0 "[]" False 0]
  by (simp add: normalize_key_def norm_def overwrite_0)

section \<open>The loop of the cipher\<close>

lemma cipher_loop_map:
  assumes "0 < l" and "l \<le> length nk" and "n \<le> length buf"
  shows "i \<le> n \<Longrightarrow> cipher_loop mode nk l n i (i mod l) buf =
    Inr (take i buf @ map (\<lambda>j. cipher_char mode (nk ! (j mod l)) (buf ! j)) [i..<n] @ drop n buf)"
  using assms(3)
proof (induction "n - i" arbitrary: i buf)
  case 0
  then show ?case by (subst cipher_loop.simps) simp
next
  case (Suc m)
  then have i: "i < n" by simp
  have k: "i mod l < length nk" using assms(1,2) by (meson less_le_trans mod_less_divisor)
  let ?b = "cipher_char mode (nk ! (i mod l)) (buf ! i)"
  have "cipher_loop mode nk l n i (i mod l) buf = cipher_loop mode nk l n (Suc i) (Suc i mod l) (buf[i := ?b])"
    using i k Suc.prems(2) assms(1) by (subst cipher_loop.simps) (simp add: mod_Suc_eq)
  also have "\<dots> = Inr (take (Suc i) (buf[i := ?b]) @
      map (\<lambda>j. cipher_char mode (nk ! (j mod l)) (buf[i := ?b] ! j)) [Suc i..<n] @ drop n (buf[i := ?b]))"
    using Suc.hyps(2) Suc.prems(2) i by (intro Suc.hyps(1)) auto
  also have "map (\<lambda>j. cipher_char mode (nk ! (j mod l)) (buf[i := ?b] ! j)) [Suc i..<n] =
      map (\<lambda>j. cipher_char mode (nk ! (j mod l)) (buf ! j)) [Suc i..<n]"
    by (intro map_cong) auto
  finally show ?case
    using i Suc.prems(2) by (simp add: take_Suc_update upt_conv_Cons)
qed

lemma cipher_map:
  assumes "key_len \<le> MAX_SIZE" and "key_len \<le> length key" and "0 < key_len"
    and "length junk = MAX_SIZE" and "n \<le> length buf"
  shows "cipher junk buf n key key_len mode =
    Inr (0, map (\<lambda>j. cipher_char mode (norm (take key_len key) ! (j mod length (norm (take key_len key)))) (buf ! j)) [0..<n]
      @ drop n buf)"
proof -
  let ?a = "overwrite 0 (take key_len key) junk" and ?nk = "norm (take key_len key)"
  have a: "length ?a = MAX_SIZE" "take key_len ?a = take key_len key"
    using assms(1,2,4) take_overwrite_0 [of "take key_len key" junk] by (simp_all add: min_absorb2)
  have l: "length ?nk \<le> key_len" using length_norm [of "take key_len key"] assms(2) by simp
  have "take key_len key \<noteq> []" using assms(2,3) by auto
  then have pos: "0 < length ?nk" using norm_Nil by simp
  have nth: "overwrite 0 ?nk ?a ! (j mod length ?nk) = ?nk ! (j mod length ?nk)" for j
    using pos by (simp add: overwrite_0 nth_append)
  have "normalize_key ?a key_len = Inr (overwrite 0 ?nk ?a, length ?nk)"
    using normalize_key_norm [of key_len ?a] a assms(1) by simp
  moreover have "cipher_loop mode (overwrite 0 ?nk ?a) (length ?nk) n 0 (0 mod length ?nk) buf =
      Inr (take 0 buf @ map (\<lambda>j. cipher_char mode (overwrite 0 ?nk ?a ! (j mod length ?nk)) (buf ! j)) [0..<n] @ drop n buf)"
    by (rule cipher_loop_map) (use pos assms(1,5) a(1) l in simp_all)
  ultimately show ?thesis
    using assms(1,2) by (simp add: cipher_def nth)
qed

section \<open>Letters\<close>

definition letter :: "byte \<Rightarrow> bool" where
  "letter c \<longleftrightarrow> is_lower c \<or> is_upper c"

lemma sint_byte:
  assumes "n < 128"
  shows "sint (of_nat n :: byte) = int n"
proof -
  have "uint (of_nat n :: byte) = int n" using assms by (simp add: uint_nat unat_of_nat take_bit_nat_eq_self)
  with assms show ?thesis by (simp add: sint_uint signed_take_bit_int_eq_self)
qed

lemma byte_of_sint:
  assumes "sint (c :: byte) = int n"
  shows "c = of_nat n"
proof -
  have "c = word_of_int (sint c)" by simp
  then show ?thesis unfolding assms by simp
qed

text \<open>A letter is its base, \<open>a\<close> or \<open>A\<close>, and a number below 26.\<close>

lemma letter_cases:
  assumes "letter c"
  obtains base v where "base = 97 \<or> base = 65" "v < 26" "c = of_nat (base + v)"
proof (cases "is_lower c")
  case True
  then have r: "97 \<le> sint c" "sint c \<le> 122" by (simp_all add: is_lower_def)
  then obtain n where n: "sint c = int n" by (metis nonneg_int_cases order_trans zero_le_numeral)
  with r have "n - 97 < 26" "n = 97 + (n - 97)" by simp_all
  with byte_of_sint [OF n] that [of 97 "n - 97"] show thesis by simp
next
  case False
  with assms have r: "65 \<le> sint c" "sint c \<le> 90" by (simp_all add: letter_def is_upper_def)
  then obtain n where n: "sint c = int n" by (metis nonneg_int_cases order_trans zero_le_numeral)
  with r have "n - 65 < 26" "n = 65 + (n - 65)" by simp_all
  with byte_of_sint [OF n] that [of 65 "n - 65"] show thesis by simp
qed

lemma letter_base:
  assumes "base = 97 \<or> base = 65" and "v < 26"
  shows "letter (of_nat (base + v))" and "char_base (of_nat (base + v)) = of_nat base"
proof -
  have "base + v < 128" using assms by auto
  then have s: "sint (of_nat (base + v) :: byte) = int (base + v)" by (rule sint_byte)
  from assms show "letter (of_nat (base + v))"
    unfolding letter_def is_lower_def is_upper_def s by auto
  from assms show "char_base (of_nat (base + v)) = of_nat base"
    unfolding char_base_def is_digit_def is_lower_def is_upper_def s by auto
qed

lemma smod_byte:
  assumes "n < 128"
  shows "word_of_int (sint (of_nat n :: byte) smod 26) = (of_nat (n mod 26) :: byte)"
proof -
  have "int n smod 26 = int (n mod 26)"
    by (cases "n = 0") (simp_all add: signed_modulo_int_def zmod_int)
  then show ?thesis unfolding sint_byte [OF assms] by simp
qed

lemma cipher_char_letter:
  assumes "base = 97 \<or> base = 65" and "v < 26" and "j < 26"
  shows "cipher_char MODE_CIPHER (of_nat j) (of_nat (base + v)) = of_nat (base + (v + j) mod 26)"
    and "cipher_char MODE_DECIPHER (of_nat j) (of_nat (base + v)) = of_nat (base + (v + (26 - j)) mod 26)"
proof -
  have diff: "(of_nat (base + v) :: byte) - of_nat base = of_nat v" by simp
  have neg: "(26 :: byte) - of_nat j = of_nat (26 - j)" using assms(3) by (simp add: of_nat_diff)
  have sum: "(of_nat v :: byte) + of_nat k = of_nat (v + k)" for k by simp
  have small: "v + j < 128" "v + (26 - j) < 128" using assms by simp_all
  show "cipher_char MODE_CIPHER (of_nat j) (of_nat (base + v)) = of_nat (base + (v + j) mod 26)"
    unfolding cipher_char_def Let_def letter_base(2) [OF assms(1,2)] diff sum
    by (simp only: mode.distinct if_False smod_byte [OF small(1)]) (simp only: of_nat_add add.commute)
  show "cipher_char MODE_DECIPHER (of_nat j) (of_nat (base + v)) = of_nat (base + (v + (26 - j)) mod 26)"
    unfolding cipher_char_def Let_def letter_base(2) [OF assms(1,2)] diff neg sum
    by (simp only: refl if_True smod_byte [OF small(2)]) (simp only: of_nat_add add.commute)
qed

lemma cipher_char_inverse:
  assumes "letter c" and "unat k < 26"
  shows "letter (cipher_char MODE_CIPHER k c)"
    and "cipher_char MODE_DECIPHER k (cipher_char MODE_CIPHER k c) = c"
proof -
  obtain base v where c: "base = 97 \<or> base = 65" "v < 26" "c = of_nat (base + v)"
    using letter_cases [OF assms(1)] .
  let ?j = "unat k"
  have k: "k = of_nat ?j" by simp
  have w: "(v + ?j) mod 26 < 26" by simp
  have undo: "((v + ?j) mod 26 + (26 - ?j)) mod 26 = v"
  proof -
    have "((v + ?j) mod 26 + (26 - ?j)) mod 26 = (v + ?j + (26 - ?j)) mod 26" by (rule mod_add_left_eq)
    also have "v + ?j + (26 - ?j) = v + 26" using assms(2) by simp
    finally show ?thesis using c(2) by simp
  qed
  have one: "cipher_char MODE_CIPHER k c = of_nat (base + (v + ?j) mod 26)"
    using cipher_char_letter(1) [OF c(1,2) assms(2)] unfolding c(3) k [symmetric] .
  show "letter (cipher_char MODE_CIPHER k c)"
    unfolding one by (rule letter_base(1) [OF c(1) w])
  show "cipher_char MODE_DECIPHER k (cipher_char MODE_CIPHER k c) = c"
    using cipher_char_letter(2) [OF c(1) w assms(2)] c(3) one undo by simp
qed

section \<open>Keys of letters and digits\<close>

definition key_char :: "byte \<Rightarrow> bool" where
  "key_char c \<longleftrightarrow> is_digit c \<or> letter c"

lemma norm_from_small:
  "\<forall>c\<in>set cs. key_char c \<Longrightarrow> unat count < 26 \<Longrightarrow> k \<in> set (norm_from parsing count cs) \<Longrightarrow> unat k < 26"
proof (induction parsing count cs rule: norm_from.induct)
  case (1 parsing count)
  have "unat (ucast count :: byte) = unat count"
    using "1.prems"(2) by (simp add: unsigned_ucast_eq take_bit_nat_eq_self)
  with 1 show ?case by (auto split: if_splits)
next
  case (2 parsing count c cs)
  have num: "unat (ucast count :: byte) < 26"
    using "2.prems"(2) by (simp add: unsigned_ucast_eq take_bit_nat_eq_self)
  show ?case
  proof (cases "is_digit c")
    case True
    have "unat (((if parsing then 10 * count else 0) + ucast c - 48) mod 26) < 26"
      by (simp add: unat_mod)
    with "2.IH"(1) [OF True] True "2.prems" show ?thesis by simp
  next
    case False
    then have "letter c" using "2.prems"(1) by (simp add: key_char_def)
    then obtain base v where b: "base = 97 \<or> base = 65" "v < 26" "c = of_nat (base + v)"
      using letter_cases by blast
    have "sint (of_nat (base + v) :: byte) = int (base + v)" by (rule sint_byte) (use b in auto)
    then have low: "is_lower c \<longleftrightarrow> base = 97" using b by (auto simp: is_lower_def)
    have "(if is_lower c then c - 97 else c - 65) = of_nat v"
      unfolding low using b by auto
    moreover have "unat (of_nat v :: byte) = v" using b(2) by (simp add: unat_of_nat take_bit_nat_eq_self)
    ultimately have "unat (if is_lower c then c - 97 else c - 65) < 26" using b(2) by simp
    with "2.IH"(2) [OF False] False "2.prems" num show ?thesis
      by (auto split: if_splits)
  qed
qed

lemma norm_small: "\<forall>c\<in>set key. key_char c \<Longrightarrow> k \<in> set (norm key) \<Longrightarrow> unat k < 26"
  by (rule norm_from_small [where count = 0 and parsing = False and cs = key]) (simp_all add: norm_def)

section \<open>The enciphered text\<close>

text \<open>A text shifted by the values of a normalized key, used cyclically.\<close>

definition encipher :: "mode \<Rightarrow> byte list \<Rightarrow> byte list \<Rightarrow> byte list" where
  "encipher mode nk xs = map (\<lambda>j. cipher_char mode (nk ! (j mod length nk)) (xs ! j)) [0..<length xs]"

lemma length_encipher [simp]: "length (encipher mode nk xs) = length xs"
  by (simp add: encipher_def)

lemma cipher_encipher:
  assumes "key_len \<le> MAX_SIZE" and "key_len \<le> length key" and "0 < key_len"
    and "length junk = MAX_SIZE" and "n \<le> length buf"
  shows "cipher junk buf n key key_len mode =
    Inr (0, encipher mode (norm (take key_len key)) (take n buf) @ drop n buf)"
proof -
  have "encipher mode nk (take n buf) = map (\<lambda>j. cipher_char mode (nk ! (j mod length nk)) (buf ! j)) [0..<n]" for nk
    using assms(5) by (simp add: encipher_def)
  then show ?thesis using cipher_map [OF assms] by simp
qed

lemma encipher_inverse:
  assumes "nk \<noteq> []" and "\<forall>k\<in>set nk. unat k < 26" and "\<forall>c\<in>set xs. letter c"
  shows "\<forall>c\<in>set (encipher MODE_CIPHER nk xs). letter c"
    and "encipher MODE_DECIPHER nk (encipher MODE_CIPHER nk xs) = xs"
proof -
  have "nk ! (j mod length nk) \<in> set nk" for j using assms(1) by (intro nth_mem) simp
  then have small: "unat (nk ! (j mod length nk)) < 26" for j using assms(2) by blast
  have lett: "letter (xs ! j)" if "j < length xs" for j using assms(3) nth_mem [OF that] by blast
  show "\<forall>c\<in>set (encipher MODE_CIPHER nk xs). letter c"
    using cipher_char_inverse(1) [OF lett small] by (auto simp: encipher_def)
  show "encipher MODE_DECIPHER nk (encipher MODE_CIPHER nk xs) = xs"
    using cipher_char_inverse(2) [OF lett small] by (intro nth_equalityI) (simp_all add: encipher_def)
qed

lemma cipher_limits:
  assumes "length junk = MAX_SIZE"
  shows "(MAX_SIZE < key_len \<longrightarrow> cipher junk buf n key key_len mode = Inr (- 1, buf))
    \<and> (0 < n \<and> buf \<noteq> [] \<longrightarrow> cipher junk buf n key 0 mode = Inl Div_By_Zero)"
proof -
  have "normalize_key junk 0 = Inr (junk, 0)"
    using normalize_key_norm [of 0 junk] by (simp add: norm_def overwrite_0)
  moreover have "cipher_loop mode junk 0 n 0 0 buf = Inl Div_By_Zero" if "0 < n" "buf \<noteq> []"
    using that assms by (subst cipher_loop.simps) (cases buf, simp_all add: aget_def aput_def in_range_def MAX_SIZE_def)
  ultimately show ?thesis by (simp add: cipher_def overwrite_0)
qed

section \<open>Properties\<close>

text \<open>Normalising a key in place replaces each letter by its number in the alphabet and each group of digits by its
  value modulo 26, never overtakes its own reading, and never yields an empty key from a non-empty one; for keys of letters
  and digits all values are below 26.\<close>

theorem normalize_key_correct:
  assumes "n \<le> length key"
  shows "normalize_key key n = Inr (overwrite 0 (norm (take n key)) key, length (norm (take n key)))
    \<and> length (norm (take n key)) \<le> n \<and> (norm (take n key) = [] \<longleftrightarrow> n = 0)
    \<and> ((\<forall>c\<in>set (take n key). key_char c) \<longrightarrow> (\<forall>k\<in>set (norm (take n key)). unat k < 26))"
  using normalize_key_norm [OF assms] length_norm [of "take n key"] norm_Nil [of "take n key"]
    norm_small [of "take n key"] assms
  by auto

text \<open>The key \<open>de35\<close> is 3, 4 and 35 modulo 26.\<close>

theorem normalize_key_correct_witness:
  "normalize_key [100, 101, 51, 53] 4 = Inr ([3, 4, 9, 53], 3)"
proof -
  have "norm [100, 101, 51, 53] = [3, 4, 9]"
    by (simp add: norm_def is_digit_def is_lower_def)
  with normalize_key_correct [of 4 "[100, 101, 51, 53]"] show ?thesis by (simp add: overwrite_def)
qed

text \<open>For a non-empty key of at most 1024 letters and digits and a text of letters, enciphering and then deciphering
  with the same key succeed and give back the text; characters behind the text stay.\<close>

theorem cipher_round_trip:
  assumes "0 < key_len" and "key_len \<le> MAX_SIZE" and "key_len \<le> length key"
    and "\<forall>c\<in>set (take key_len key). key_char c" and "n \<le> length buf"
    and "\<forall>c\<in>set (take n buf). letter c" and "length junk = MAX_SIZE" and "length junk' = MAX_SIZE"
  shows "\<exists>buf'. cipher junk buf n key key_len MODE_CIPHER = Inr (0, buf')
    \<and> length buf' = length buf \<and> drop n buf' = drop n buf \<and> (\<forall>c\<in>set (take n buf'). letter c)
    \<and> cipher junk' buf' n key key_len MODE_DECIPHER = Inr (0, buf)"
proof -
  let ?nk = "norm (take key_len key)"
  let ?xs = "encipher MODE_CIPHER ?nk (take n buf)"
  have "take key_len key \<noteq> []" using assms(1,3) by auto
  then have nk: "?nk \<noteq> []" "\<forall>k\<in>set ?nk. unat k < 26" using norm_Nil norm_small [OF assms(4)] by blast+
  note inv = encipher_inverse [OF nk assms(6)]
  have len: "length ?xs = n" using assms(5) by simp
  have "cipher junk' (?xs @ drop n buf) n key key_len MODE_DECIPHER = Inr (0, buf)"
    using cipher_encipher [OF assms(2,3,1,8), of n "?xs @ drop n buf" MODE_DECIPHER] inv(2) len by simp
  then show ?thesis
    using cipher_encipher [OF assms(2,3,1,7,5), of MODE_CIPHER] inv(1) len assms(5)
    by (intro exI [of _ "?xs @ drop n buf"]) simp
qed

theorem cipher_round_trip_witness:
  "\<exists>buf. cipher (replicate MAX_SIZE 0) [97, 98, 67, 122, 88] 5 [100, 101, 51, 53] 4 MODE_CIPHER = Inr (0, buf)
    \<and> cipher (replicate MAX_SIZE 0) buf 5 [100, 101, 51, 53] 4 MODE_DECIPHER = Inr (0, [97, 98, 67, 122, 88])"
  using cipher_round_trip [of 4 "[100, 101, 51, 53]" 5 "[97, 98, 67, 122, 88]" "replicate MAX_SIZE 0" "replicate MAX_SIZE 0"]
  by (simp add: MAX_SIZE_def key_char_def letter_def is_digit_def is_lower_def is_upper_def) blast

text \<open>With an empty key the cipher divides by zero on every non-empty text; a key of more than 1024 characters is
  refused with -1 and the text stays.\<close>

theorem cipher_key_limits:
  assumes "length junk = MAX_SIZE"
  shows "(MAX_SIZE < key_len \<longrightarrow> cipher junk buf n key key_len mode = Inr (- 1, buf))
    \<and> (0 < n \<and> buf \<noteq> [] \<longrightarrow> cipher junk buf n key 0 mode = Inl Div_By_Zero)"
  by (rule cipher_limits [OF assms])

theorem cipher_key_limits_witness:
  "cipher (replicate MAX_SIZE 0) [97] 1 [] 0 MODE_CIPHER = Inl Div_By_Zero"
  using cipher_key_limits [of "replicate MAX_SIZE 0" 0 "[97]" 1 "[]" MODE_CIPHER] by simp

end
