(* ===== verification/Asm_Clipboard.thy ===== *)
theory Asm_Clipboard
  imports Stack CHeap Text_Size
begin

text \<open>
  The clipboard of the test bench, \<open>test/asm/clipboard.c\<close> and \<open>clipboard.h\<close>, with the functions of
  \<open>test/asm/copy_paste_clipboard.c\<close> that call it directly.  Its stack is the one of theory \<open>Stack\<close>.
  Entries have no owner and no lock, and a message passes the address of the caller's buffer.
\<close>

section \<open>State and messages\<close>

datatype asm_slot = ASM_EMPTY | ASM_USED

record asm_entry =
  ae_buffer_len :: u32
  ae_buffer :: nat
  ae_decompressed_len :: u32
  ae_in_use :: asm_slot

record asm_clipboard =
  ac_entries :: "asm_entry list"
  ac_available :: bstack
  ac_mem :: heap

definition CLIPBOARD_READ :: int where
  "CLIPBOARD_READ = 0"

definition CLIPBOARD_WRITE :: int where
  "CLIPBOARD_WRITE = 1"

definition CLIPBOARD_CALL_NUM :: int where
  "CLIPBOARD_CALL_NUM = 2"

text \<open>
  The two messages; the array of a read message is the caller's buffer.  The field \<open>decompressed_len\<close> of a read
  message, which nothing sets or reads, is left out.
\<close>

record clipboard_read_msg =
  r_buffer :: "byte list"
  r_buffer_len :: u32
  r_id :: u32

record clipboard_write_msg =
  w_buffer :: "byte list"
  w_buffer_len :: u32
  w_decompressed_len :: u32

datatype asm_msg = Read_Msg clipboard_read_msg | Write_Msg clipboard_write_msg

section \<open>Operations\<close>

definition asm_busy :: "int \<Rightarrow> asm_clipboard \<Rightarrow> bool cres" where
  "asm_busy i d = rbind (aget (ac_entries d) i) (\<lambda>e. Inr (ae_in_use e = ASM_USED))"

definition asm_upd :: "int \<Rightarrow> (asm_entry \<Rightarrow> asm_entry) \<Rightarrow> asm_clipboard \<Rightarrow> asm_clipboard cres" where
  "asm_upd i f d =
     rbind (aget (ac_entries d) i) (\<lambda>e. Inr (d\<lparr>ac_entries := (ac_entries d)[nat i := f e]\<rparr>))"

definition use_entry :: "int \<Rightarrow> byte list \<Rightarrow> u32 \<Rightarrow> asm_clipboard \<Rightarrow> asm_clipboard cres" where
  "use_entry i buf n d =
     rbind (asm_busy i d) (\<lambda>b.
       if b then Inl Assert_Failed
       else let (p, h) = malloc (unat n) (ac_mem d)
         in rbind (memcpy_in p buf (unat n) h) (\<lambda>h.
              asm_upd i (\<lambda>e. e\<lparr>ae_buffer := p, ae_buffer_len := n, ae_in_use := ASM_USED\<rparr>)
                (d\<lparr>ac_mem := h\<rparr>)))"

text \<open>Unlike the driver's \<open>delete_entry\<close> it does not put the index back on the stack.\<close>

definition asm_delete_entry :: "int \<Rightarrow> asm_clipboard \<Rightarrow> asm_clipboard cres" where
  "asm_delete_entry i d =
     rbind (aget (ac_entries d) i) (\<lambda>e.
       if ae_in_use e \<noteq> ASM_USED then Inl Assert_Failed
       else rbind (free (ae_buffer e) (ac_mem d)) (\<lambda>h.
         asm_upd i (\<lambda>e. e\<lparr>ae_in_use := ASM_EMPTY\<rparr>) (d\<lparr>ac_mem := h\<rparr>)))"

definition asm_write :: "clipboard_write_msg \<Rightarrow> asm_clipboard \<Rightarrow> (int \<times> asm_clipboard) cres" where
  "asm_write m d =
     (if is_empty (ac_available d) then Inr (- 1, d)
      else rbind (top_stack (ac_available d)) (\<lambda>v.
        rbind (pop (ac_available d)) (\<lambda>s.
          let d = d\<lparr>ac_available := s\<rparr>; i = sint v
          in rbind (asm_busy i d) (\<lambda>b.
               if b then Inr (- 1, d)
               else rbind (use_entry i (w_buffer m) (w_buffer_len m) d) (\<lambda>d.
                 rbind (asm_upd i (\<lambda>e. e\<lparr>ae_decompressed_len := w_decompressed_len m\<rparr>) d) (\<lambda>d.
                   Inr (i, d)))))))"

text \<open>The result has the caller's buffer after the call.\<close>

definition asm_read :: "clipboard_read_msg \<Rightarrow> asm_clipboard \<Rightarrow> (int \<times> byte list \<times> asm_clipboard) cres" where
  "asm_read m d =
     (let i = int (unat (r_id m)); buf = r_buffer m
      in rbind (aget (ac_entries d) i) (\<lambda>e.
           if ae_in_use e \<noteq> ASM_USED then Inr (- 1, buf, d)
           else if r_buffer_len m < ae_buffer_len e then Inr (- 1, buf, d)
           else rbind (memcpy_out (ae_buffer e) (unat (ae_buffer_len e)) (ac_mem d)) (\<lambda>bs.
             if length buf < length bs then Inl Out_Of_Bounds
             else rbind (asm_delete_entry i d) (\<lambda>d. Inr (0, overwrite 0 bs buf, d)))))"

text \<open>
  \<open>clipboard_calls[request](msg)\<close>: a request below 2 is an index into the array of two functions; a
  function called with the other kind of message reads a structure that is not there.
\<close>

datatype asm_call = Asm_Read | Asm_Write

definition clipboard_calls :: "asm_call list" where
  "clipboard_calls = [Asm_Read, Asm_Write]"

definition clipboard_ioctl ::
  "int \<Rightarrow> asm_msg \<Rightarrow> asm_clipboard \<Rightarrow> (int \<times> byte list \<times> asm_clipboard) cres" where
  "clipboard_ioctl request msg d =
     (if request < CLIPBOARD_CALL_NUM then
        rbind (aget clipboard_calls request) (\<lambda>call.
          case (call, msg) of
            (Asm_Read, Read_Msg m) \<Rightarrow> asm_read m d
          | (Asm_Write, Write_Msg m) \<Rightarrow> rbind (asm_write m d) (\<lambda>(r, d). Inr (r, [], d))
          | _ \<Rightarrow> Inl Bad_Pointer)
      else Inr (- 1, [], d))"

definition asm_init :: "asm_clipboard \<Rightarrow> asm_clipboard" where
  "asm_init d =
     d\<lparr>ac_available := init (ac_available d),
       ac_entries := fold (\<lambda>i es. es[i := (es ! i)\<lparr>ae_in_use := ASM_EMPTY\<rparr>]) [0..<100] (ac_entries d)\<rparr>"

section \<open>The functions of the test bench\<close>

definition asm_copy_to_clipboard :: "byte list \<Rightarrow> u32 \<Rightarrow> asm_clipboard \<Rightarrow> (int \<times> asm_clipboard) cres" where
  "asm_copy_to_clipboard buf n d =
     rbind (expected_decompressed_size buf n) (\<lambda>k.
       rbind (clipboard_ioctl CLIPBOARD_WRITE
           (Write_Msg \<lparr>w_buffer = buf, w_buffer_len = n, w_decompressed_len = k\<rparr>) d) (\<lambda>(r, _, d).
         Inr (r, d)))"

text \<open>The length is passed by reference, but no function changes it in the message, so it keeps its value.\<close>

definition asm_paste_from_clipboard ::
  "u32 \<Rightarrow> byte list \<Rightarrow> u32 \<Rightarrow> asm_clipboard \<Rightarrow> (int \<times> byte list \<times> asm_clipboard) cres" where
  "asm_paste_from_clipboard i buf n d =
     clipboard_ioctl CLIPBOARD_READ (Read_Msg \<lparr>r_buffer = buf, r_buffer_len = n, r_id = i\<rparr>) d"

section \<open>The invariant\<close>

text \<open>The indices on the stack are distinct indices of empty entries; entries in use own a live block.\<close>

definition asm_ok :: "asm_clipboard \<Rightarrow> bool" where
  "asm_ok d \<longleftrightarrow>
     length (ac_entries d) = 100 \<and> wf_stack (ac_available d) \<and> distinct (elems (ac_available d))
     \<and> (\<forall>v\<in>set (elems (ac_available d)). unat v < 100 \<and> ae_in_use (ac_entries d ! unat v) = ASM_EMPTY)
     \<and> wf_heap (ac_mem d)"

definition free_count :: "asm_clipboard \<Rightarrow> nat" where
  "free_count d = length (elems (ac_available d))"

lemma asm_take_id:
  assumes "asm_ok d" and "free_count d \<noteq> 0"
  obtains v s where "top_stack (ac_available d) = Inr v" "pop (ac_available d) = Inr s" "wf_stack s"
    "elems (ac_available d) = v # elems s" "unat v < 100" "sint v = int (unat v)"
    "ae_in_use (ac_entries d ! unat v) = ASM_EMPTY" "\<not> is_empty (ac_available d)"
proof -
  have wf: "wf_stack (ac_available d)" using assms(1) by (simp add: asm_ok_def)
  have "elems (ac_available d) \<noteq> []" using assms(2) by (auto simp: free_count_def)
  then have ne: "\<not> is_empty (ac_available d)" using free_ids.empty_law [OF wf] by simp
  from free_ids.take_one [OF wf this] obtain v s where
    s: "top_stack (ac_available d) = Inr v" "pop (ac_available d) = Inr s" "wf_stack s"
      "elems (ac_available d) = v # elems s" by metis
  then have "unat v < 100" "ae_in_use (ac_entries d ! unat v) = ASM_EMPTY"
    using assms(1) by (simp_all add: asm_ok_def)
  moreover have "sint v = int (unat v)" using \<open>unat v < 100\<close> by (intro sint_eq_unat) simp
  ultimately show thesis using s ne that by blast
qed

lemma asm_write_full: "asm_ok d \<Longrightarrow> free_count d = 0 \<Longrightarrow> asm_write m d = Inr (- 1, d)"
  using free_ids.empty_law [of "ac_available d"] by (simp add: asm_ok_def free_count_def asm_write_def)

lemma asm_write_stores:
  assumes ok: "asm_ok d" and room: "free_count d \<noteq> 0" "unat (w_buffer_len m) \<le> avail (ac_mem d)"
    and len: "unat (w_buffer_len m) \<le> length (w_buffer m)"
  shows "\<exists>(v::u32) t p. asm_write m d = Inr (int (unat v), t) \<and> asm_ok t \<and> unat v < 100
    \<and> Suc (free_count t) = free_count d
    \<and> ac_entries t = (ac_entries d)[unat v := \<lparr>ae_buffer_len = w_buffer_len m, ae_buffer = p,
        ae_decompressed_len = w_decompressed_len m, ae_in_use = ASM_USED\<rparr>]
    \<and> blocks (ac_mem t) = (blocks (ac_mem d))(p \<mapsto> take (unat (w_buffer_len m)) (w_buffer m))
    \<and> blocks (ac_mem d) p = None \<and> avail (ac_mem t) + unat (w_buffer_len m) = avail (ac_mem d)"
proof -
  from asm_take_id [OF ok room(1)] obtain v s where v:
    "top_stack (ac_available d) = Inr v" "pop (ac_available d) = Inr s" "wf_stack s"
    "elems (ac_available d) = v # elems s" "unat v < 100" "sint v = int (unat v)"
    "ae_in_use (ac_entries d ! unat v) = ASM_EMPTY" "\<not> is_empty (ac_available d)" .
  let ?n = "unat (w_buffer_len m)" and ?i = "unat v"
  have "wf_heap (ac_mem d)" and es: "length (ac_entries d) = 100" using ok by (simp_all add: asm_ok_def)
  from c_heap.store_copy [OF this(1) room(2) len] obtain p h h' where
    h: "malloc ?n (ac_mem d) = (p, h)" "memcpy_in p (w_buffer m) ?n h = Inr h'"
      "blocks h' = (blocks (ac_mem d))(p \<mapsto> take ?n (w_buffer m))" "avail h' + ?n = avail (ac_mem d)" "wf_heap h'"
      "blocks (ac_mem d) p = None"
    by metis
  let ?e = "\<lparr>ae_buffer_len = w_buffer_len m, ae_buffer = p, ae_decompressed_len = w_decompressed_len m,
    ae_in_use = ASM_USED\<rparr>"
  let ?t = "d\<lparr>ac_available := s, ac_mem := h', ac_entries := (ac_entries d)[?i := ?e]\<rparr>"
  have upd: "(ac_entries d ! ?i)\<lparr>ae_buffer := p, ae_buffer_len := w_buffer_len m, ae_in_use := ASM_USED,
      ae_decompressed_len := w_decompressed_len m\<rparr> = ?e" by (cases "ac_entries d ! ?i") simp
  have 1: "asm_write m d = Inr (int ?i, ?t)"
  proof -
    obtain k where k: "unat v = k" by blast
    note v' = v [unfolded k]
    show ?thesis
      unfolding k using v'(1-3,5,7,8) es h
      by (simp add: asm_write_def asm_busy_def use_entry_def asm_upd_def Let_def v'(6) upd [unfolded k])
  qed
  have 2: "asm_ok ?t"
    using ok v h(5) unfolding asm_ok_def by (auto simp: nth_list_update dest!: word_unat_eq_iff [THEN iffD2])
  have 3: "Suc (free_count ?t) = free_count d" using v(4) by (simp add: free_count_def)
  show ?thesis
    by (rule exI [of _ v], rule exI [of _ ?t], rule exI [of _ p]) (use 1 2 3 v(5) h(3,4,6) in simp)
qed

lemma asm_read_frame:
  assumes "asm_read m d = Inr (r, bs, t)" and "wf_heap (ac_mem d)"
  shows "ac_available t = ac_available d \<and> wf_heap (ac_mem t) \<and> length (ac_entries t) = length (ac_entries d)
    \<and> (\<forall>i. ae_in_use (ac_entries t ! i) = ASM_USED \<longrightarrow> ae_in_use (ac_entries d ! i) = ASM_USED)"
proof -
  have del: "ac_available u = ac_available d \<and> wf_heap (ac_mem u) \<and> length (ac_entries u) = length (ac_entries d)
      \<and> (\<forall>i. ae_in_use (ac_entries u ! i) = ASM_USED \<longrightarrow> ae_in_use (ac_entries d ! i) = ASM_USED)"
    if "asm_delete_entry i d = Inr u" for i u
  proof -
    have free: "free p (ac_mem d) = Inr h \<Longrightarrow> wf_heap h" for p h
      using assms(2) by (auto simp: free_def wf_heap_def split: if_splits option.splits)
    have nth: "ae_in_use ((xs[k := (xs ! k)\<lparr>ae_in_use := ASM_EMPTY\<rparr>]) ! j) = ASM_USED \<Longrightarrow>
        ae_in_use (xs ! j) = ASM_USED" for xs :: "asm_entry list" and k j
      by (cases "k < length xs"; cases "j = k") (simp_all add: list_update_beyond)
    from that show ?thesis
      by (auto simp: asm_delete_entry_def asm_upd_def rbind_eq_Inr aget_def split: if_splits dest!: free nth)
  qed
  from assms show ?thesis
    by (auto simp: asm_read_def Let_def rbind_eq_Inr split: if_splits dest!: del)
qed

lemma asm_slot_not_used: "x \<noteq> ASM_USED \<longleftrightarrow> x = ASM_EMPTY"
  by (cases x) simp_all

lemma asm_read_ok:
  assumes "asm_ok d" and "asm_read m d = Inr (r, bs, t)"
  shows "asm_ok t \<and> free_count t = free_count d"
  using asm_read_frame [OF assms(2)] assms(1)
  by (auto simp: asm_ok_def free_count_def simp flip: asm_slot_not_used)

text \<open>
  Every call keeps the invariant, and the number of free indices falls by one with each successful
  write and never rises.
\<close>

lemma asm_write_ok:
  assumes ok: "asm_ok d" and r: "asm_write m d = Inr (r, t)"
  shows "asm_ok t \<and> free_count d = free_count t + (if 0 \<le> r then 1 else 0)"
proof (cases "free_count d = 0")
  case True
  with asm_write_full [OF ok True, of m] r ok show ?thesis by simp
next
  case False
  from asm_take_id [OF ok False] obtain v s where v:
    "top_stack (ac_available d) = Inr v" "pop (ac_available d) = Inr s" "wf_stack s"
    "elems (ac_available d) = v # elems s" "unat v < 100" "sint v = int (unat v)"
    "ae_in_use (ac_entries d ! unat v) = ASM_EMPTY" "\<not> is_empty (ac_available d)" .
  obtain k where k: "unat v = k" by blast
  note v' = v [unfolded k]
  have es: "length (ac_entries d) = 100" using ok by (simp add: asm_ok_def)
  have heap: "wf_heap h'" if "malloc n (ac_mem d) = (p, h)" "memcpy_in p buf n h = Inr h'" for n p h h' buf
  proof -
    have "wf_heap h" using malloc_wf [OF _ that(1)] ok by (simp add: asm_ok_def)
    with that(2) show ?thesis
      by (auto simp: memcpy_in_def wf_heap_def split: if_splits option.splits)
  qed
  obtain e h' where t: "t = d\<lparr>ac_available := s, ac_mem := h', ac_entries := (ac_entries d)[k := e]\<rparr>"
      "r = int k" "wf_heap h'"
    using r v'(1,2,5,7,8) es
    by (auto simp: asm_write_def asm_busy_def use_entry_def asm_upd_def Let_def v'(6) rbind_eq_Inr
        split: prod.splits dest!: heap)
  have "asm_ok t"
    using ok v t(3) unfolding asm_ok_def t(1) k [symmetric]
    by (auto simp: nth_list_update dest!: word_unat_eq_iff [THEN iffD2])
  with t v(4) show ?thesis by (simp add: free_count_def)
qed

text \<open>Reading an entry in use: the result on every branch.\<close>

lemma asm_delete_used:
  assumes "i < length (ac_entries d)" and "ac_entries d ! i = e" and "ae_in_use e = ASM_USED"
    and "wf_heap (ac_mem d)" and "blocks (ac_mem d) (ae_buffer e) = Some bs"
  obtains h where "asm_delete_entry (int i) d =
      Inr (d\<lparr>ac_mem := h, ac_entries := (ac_entries d)[i := e\<lparr>ae_in_use := ASM_EMPTY\<rparr>]\<rparr>)"
    and "blocks h = (blocks (ac_mem d))(ae_buffer e := None)" and "avail h = avail (ac_mem d) + length bs"
    and "wf_heap h"
proof -
  from c_heap.release_law [OF assms(4,5)] obtain h where h: "free (ae_buffer e) (ac_mem d) = Inr h"
    "blocks h = (blocks (ac_mem d))(ae_buffer e := None)" "avail h = avail (ac_mem d) + length bs" "wf_heap h"
    by blast
  with assms(1-3) that show thesis by (simp add: asm_delete_entry_def asm_upd_def)
qed

lemma asm_read_used:
  assumes "ac_entries d ! unat (r_id m) = e" and "unat (r_id m) < length (ac_entries d)"
    and "ae_in_use e = ASM_USED" and "wf_heap (ac_mem d)"
    and "blocks (ac_mem d) (ae_buffer e) = Some bs" and "length bs = unat (ae_buffer_len e)"
    and "ae_buffer_len e \<le> r_buffer_len m" and "length bs \<le> length (r_buffer m)"
  obtains h where "asm_read m d = Inr (0, overwrite 0 bs (r_buffer m),
      d\<lparr>ac_mem := h, ac_entries := (ac_entries d)[unat (r_id m) := e\<lparr>ae_in_use := ASM_EMPTY\<rparr>]\<rparr>)"
    and "blocks h = (blocks (ac_mem d))(ae_buffer e := None)" and "avail h = avail (ac_mem d) + length bs"
    and "wf_heap h"
proof -
  obtain k where k: "unat (r_id m) = k" by blast
  from asm_delete_used [OF assms(2,1,3-5)] obtain h where h: "asm_delete_entry (int k) d =
      Inr (d\<lparr>ac_mem := h, ac_entries := (ac_entries d)[k := e\<lparr>ae_in_use := ASM_EMPTY\<rparr>]\<rparr>)"
    "blocks h = (blocks (ac_mem d))(ae_buffer e := None)" "avail h = avail (ac_mem d) + length bs" "wf_heap h"
    unfolding k by blast
  have out: "memcpy_out (ae_buffer e) (unat (ae_buffer_len e)) (ac_mem d) = Inr bs"
    using c_heap.fetch_all [OF assms(5)] assms(6) by simp
  have "asm_read m d = Inr (0, overwrite 0 bs (r_buffer m),
      d\<lparr>ac_mem := h, ac_entries := (ac_entries d)[k := e\<lparr>ae_in_use := ASM_EMPTY\<rparr>]\<rparr>)"
    unfolding asm_read_def Let_def k
    using assms(1-3,7,8) [unfolded k] h(1) out by simp
  then show thesis using that h(2-4) unfolding k by blast
qed

lemma asm_read_refused:
  assumes "unat (r_id m) < length (ac_entries d)"
    and "ae_in_use (ac_entries d ! unat (r_id m)) = ASM_USED \<Longrightarrow>
      r_buffer_len m < ae_buffer_len (ac_entries d ! unat (r_id m))"
  shows "asm_read m d = Inr (- 1, r_buffer m, d)"
proof -
  obtain k where k: "unat (r_id m) = k" by blast
  show ?thesis
    using assms unfolding asm_read_def Let_def k by auto
qed

lemma ioctl_read: "clipboard_ioctl CLIPBOARD_READ (Read_Msg m) d = asm_read m d"
  by (simp add: clipboard_ioctl_def CLIPBOARD_READ_def CLIPBOARD_CALL_NUM_def aget_def in_range_def
      clipboard_calls_def)

lemma ioctl_write: "clipboard_ioctl CLIPBOARD_WRITE (Write_Msg m) d =
    rbind (asm_write m d) (\<lambda>(r, d). Inr (r, [], d))"
  by (simp add: clipboard_ioctl_def CLIPBOARD_WRITE_def CLIPBOARD_CALL_NUM_def aget_def in_range_def
      clipboard_calls_def)

section \<open>Runs of requests\<close>

text \<open>The results of a sequence of requests, in order, and the state after them.\<close>

fun asm_run :: "(int \<times> asm_msg) list \<Rightarrow> asm_clipboard \<Rightarrow> (int list \<times> asm_clipboard) cres" where
  "asm_run [] d = Inr ([], d)"
| "asm_run ((request, msg) # reqs) d =
     rbind (clipboard_ioctl request msg d) (\<lambda>(r, _, d).
       rbind (asm_run reqs d) (\<lambda>(rs, d). Inr (r # rs, d)))"

definition stored :: "(int \<times> asm_msg) \<times> int \<Rightarrow> bool" where
  "stored x = (case x of ((request, _), r) \<Rightarrow> request = CLIPBOARD_WRITE \<and> 0 \<le> r)"

lemma ioctl_cases:
  assumes "clipboard_ioctl request msg d = Inr (r, bs, t)"
  obtains (rd) m where "request = CLIPBOARD_READ" "asm_read m d = Inr (r, bs, t)"
  | (wr) m where "request = CLIPBOARD_WRITE" "asm_write m d = Inr (r, t)"
  | (other) "r = - 1" "t = d"
proof -
  have "request = 0 \<or> request = 1" if "in_range clipboard_calls request"
    using that by (auto simp: in_range_def clipboard_calls_def)
  with assms show thesis
    by (auto simp: clipboard_ioctl_def rbind_eq_Inr aget_def clipboard_calls_def CLIPBOARD_READ_def
        CLIPBOARD_WRITE_def split: if_splits asm_msg.splits asm_call.splits intro: that)
qed

lemma ioctl_step:
  assumes "asm_ok d" and "clipboard_ioctl request msg d = Inr (r, bs, t)"
  shows "asm_ok t \<and> free_count d = free_count t + (if stored ((request, msg), r) then 1 else 0)"
  using assms(2)
proof (cases rule: ioctl_cases)
  case (rd m)
  with asm_read_ok [OF assms(1) rd(2)] show ?thesis
    by (simp add: stored_def CLIPBOARD_READ_def CLIPBOARD_WRITE_def)
next
  case (wr m)
  with asm_write_ok [OF assms(1) wr(2)] show ?thesis by (simp add: stored_def)
next
  case other
  with assms(1) show ?thesis by (simp add: stored_def)
qed

lemma run_counts:
  "asm_ok d \<Longrightarrow> asm_run reqs d = Inr (rs, t) \<Longrightarrow>
   asm_ok t \<and> length rs = length reqs \<and> free_count d = free_count t + length (filter stored (zip reqs rs))"
proof (induction reqs arbitrary: d rs)
  case Nil
  then show ?case by simp
next
  case (Cons q qs)
  obtain request msg where q: "q = (request, msg)" by (cases q)
  from Cons.prems(2) obtain r bs u rs' where r: "clipboard_ioctl request msg d = Inr (r, bs, u)"
    "asm_run qs u = Inr (rs', t)" "rs = r # rs'"
    by (auto simp: q rbind_eq_Inr)
  with ioctl_step [OF Cons.prems(1) r(1)] Cons.IH [of u rs'] show ?case by (simp add: q)
qed

lemma asm_init_ok:
  assumes "length (ac_entries d) = 100" and "length (vals (ac_available d)) = STACK_SIZE" and "wf_heap (ac_mem d)"
  shows "asm_ok (asm_init d) \<and> free_count (asm_init d) = 100"
proof -
  have "elems (init (ac_available d)) = rev (map of_nat [0..<100])"
    using elems_init [OF assms(2)] by (simp add: STACK_SIZE_def)
  moreover have "fold (\<lambda>i es. es[i := (es ! i)\<lparr>ae_in_use := ASM_EMPTY\<rparr>]) [0..<n] es
      = map (\<lambda>e. e\<lparr>ae_in_use := ASM_EMPTY\<rparr>) (take n es) @ drop n es" if "n \<le> length es" for n es
    using that
  proof (induction n)
    case (Suc n)
    then have "drop n es = es ! n # drop (Suc n) es" by (simp add: Cons_nth_drop_Suc)
    with Suc show ?case
      by (simp add: nth_append list_update_append min_def take_Suc_conv_app_nth)
  qed simp
  from this [of 100 "ac_entries d"] have
    "ac_entries (asm_init d) = map (\<lambda>e. e\<lparr>ae_in_use := ASM_EMPTY\<rparr>) (ac_entries d)"
    using assms(1) by (simp add: asm_init_def)
  moreover have "unat (of_nat i :: u32) = i" if "i < 100" for i
    using that by (simp add: unat_of_nat take_bit_nat_eq_self)
  moreover from this have "inj_on (of_nat :: nat \<Rightarrow> u32) {..<100}"
    by (intro inj_onI) (metis lessThan_iff)
  ultimately show ?thesis
    using assms wf_init [OF assms(2)]
    by (auto simp: asm_ok_def free_count_def asm_init_def distinct_map lessThan_atLeast0)
qed

section \<open>Storing a text and reading it back\<close>

lemma bench_stores:
  assumes "asm_ok d" and "free_count d \<noteq> 0" and "unat n \<le> avail (ac_mem d)" and "unat n \<le> length buf"
    and "\<forall>c\<in>set (take (unat n) buf). ctype_ok c"
  shows "\<exists>i t. asm_copy_to_clipboard buf n d = Inr (int (unat i), t) \<and> asm_ok t \<and> unat (i :: u32) < 100
    \<and> (\<forall>j dst. j < n \<longrightarrow> asm_paste_from_clipboard i dst j t = Inr (- 1, dst, t))
    \<and> (\<forall>k dst. n \<le> k \<longrightarrow> unat n \<le> length dst \<longrightarrow>
      (\<exists>u. asm_paste_from_clipboard i dst k t = Inr (0, overwrite 0 (take (unat n) buf) dst, u)
        \<and> (\<forall>k dst. asm_paste_from_clipboard i dst k u = Inr (- 1, dst, u))
        \<and> blocks (ac_mem u) = blocks (ac_mem d) \<and> avail (ac_mem u) = avail (ac_mem d)
        \<and> asm_ok u \<and> Suc (free_count u) = free_count d))"
proof -
  obtain k' where "expected_decompressed_size buf n = Inr k'" using expected_size_scan [OF assms(4,5)] by blast
  then have copy: "asm_copy_to_clipboard buf n d = rbind (asm_write \<lparr>w_buffer = buf, w_buffer_len = n,
      w_decompressed_len = k'\<rparr> d) Inr"
    by (simp add: asm_copy_to_clipboard_def ioctl_write rbind_assoc) (simp add: rbind_def split: sum.split)
  from asm_write_stores [OF assms(1,2), of "\<lparr>w_buffer = buf, w_buffer_len = n, w_decompressed_len = k'\<rparr>"] assms(3,4)
  obtain i t p where w: "asm_write \<lparr>w_buffer = buf, w_buffer_len = n, w_decompressed_len = k'\<rparr> d = Inr (int (unat i), t)"
    "asm_ok t" "unat (i :: u32) < 100" "Suc (free_count t) = free_count d"
    "ac_entries t = (ac_entries d)[unat i := \<lparr>ae_buffer_len = n, ae_buffer = p, ae_decompressed_len = k', ae_in_use = ASM_USED\<rparr>]"
    "blocks (ac_mem t) = (blocks (ac_mem d))(p \<mapsto> take (unat n) buf)" "blocks (ac_mem d) p = None"
    "avail (ac_mem t) + unat n = avail (ac_mem d)" by auto
  have es: "length (ac_entries d) = 100" "length (ac_entries t) = 100" and wf: "wf_heap (ac_mem t)"
    using assms(1) w(2) by (simp_all add: asm_ok_def)
  let ?e = "\<lparr>ae_buffer_len = n, ae_buffer = p, ae_decompressed_len = k', ae_in_use = ASM_USED\<rparr>"
  have e: "ac_entries t ! unat i = ?e" using w(3,5) es by simp
  have "asm_paste_from_clipboard i dst j t = Inr (- 1, dst, t)" if "j < n" for j dst
    using asm_read_refused [of "\<lparr>r_buffer = dst, r_buffer_len = j, r_id = i\<rparr>" t] e w(3) es that
    by (simp add: asm_paste_from_clipboard_def ioctl_read)
  moreover have "\<exists>u. asm_paste_from_clipboard i dst k t = Inr (0, overwrite 0 (take (unat n) buf) dst, u)
        \<and> (\<forall>k dst. asm_paste_from_clipboard i dst k u = Inr (- 1, dst, u))
        \<and> blocks (ac_mem u) = blocks (ac_mem d) \<and> avail (ac_mem u) = avail (ac_mem d)
        \<and> asm_ok u \<and> Suc (free_count u) = free_count d" if "n \<le> k" "unat n \<le> length dst" for k dst
  proof -
    let ?m = "\<lparr>r_buffer = dst, r_buffer_len = k, r_id = i\<rparr>"
    from asm_read_used [of t ?m ?e "take (unat n) buf"] e w(3,6) es wf assms(4) that
    obtain h where h: "asm_read ?m t = Inr (0, overwrite 0 (take (unat n) buf) dst,
        t\<lparr>ac_mem := h, ac_entries := (ac_entries t)[unat i := ?e\<lparr>ae_in_use := ASM_EMPTY\<rparr>]\<rparr>)"
      "blocks h = (blocks (ac_mem t))(p := None)" "avail h = avail (ac_mem t) + unat n" by auto
    let ?u = "t\<lparr>ac_mem := h, ac_entries := (ac_entries t)[unat i := ?e\<lparr>ae_in_use := ASM_EMPTY\<rparr>]\<rparr>"
    have "\<forall>k dst. asm_read \<lparr>r_buffer = dst, r_buffer_len = k, r_id = i\<rparr> ?u = Inr (- 1, dst, ?u)"
      using asm_read_refused [of "\<lparr>r_buffer = _, r_buffer_len = _, r_id = i\<rparr>" ?u] w(3) es by simp
    moreover have "asm_ok ?u \<and> free_count ?u = free_count t" by (rule asm_read_ok [OF w(2) h(1)])
    ultimately show ?thesis
      unfolding asm_paste_from_clipboard_def ioctl_read by (rule_tac exI [of _ ?u]) (use h w in auto)
  qed
  ultimately show ?thesis
    unfolding copy w(1) rbind_Inr
    by (rule_tac exI [of _ i], rule_tac exI [of _ t]) (use w(2,3) in blast)
qed

section \<open>Properties\<close>

text \<open>The bench stores a text and gives it back once: the copied bytes are pasted by the first paste with a buffer that
  is large enough, every paste before that with a smaller buffer returns -1 and changes nothing, the second one
  finds the entry deleted; the memory is as before, but the index of the entry is gone from the stack.\<close>

theorem bench_copy_paste:
  assumes "asm_ok d" and "free_count d \<noteq> 0" and "unat n \<le> avail (ac_mem d)" and "unat n \<le> length buf"
    and "\<forall>c\<in>set (take (unat n) buf). ctype_ok c" and "n \<le> k" and "unat n \<le> length dst"
  shows "\<exists>i t u. asm_copy_to_clipboard buf n d = Inr (int (unat i), t) \<and> asm_ok t \<and> unat i < 100
    \<and> (\<forall>j<n. asm_paste_from_clipboard i dst j t = Inr (- 1, dst, t))
    \<and> asm_paste_from_clipboard i dst k t = Inr (0, overwrite 0 (take (unat n) buf) dst, u)
    \<and> asm_paste_from_clipboard i dst k u = Inr (- 1, dst, u)
    \<and> blocks (ac_mem u) = blocks (ac_mem d) \<and> avail (ac_mem u) = avail (ac_mem d)
    \<and> asm_ok u \<and> Suc (free_count u) = free_count d"
  using bench_stores [OF assms(1-5)] assms(6,7) by meson

text \<open>The text \<open>abzX\<close> of the test, copied into the initialised bench.\<close>

lemma fresh_bench:
  obtains d where "asm_ok d" and "free_count d = 100" and "avail (ac_mem d) = 200000" and "blocks (ac_mem d) = Map.empty"
proof -
  let ?e = "\<lparr>ae_buffer_len = 0, ae_buffer = 0, ae_decompressed_len = 0, ae_in_use = ASM_EMPTY\<rparr>"
  let ?d = "\<lparr>ac_entries = replicate 100 ?e, ac_available = \<lparr>base = 8, vals = replicate 100 0, current = 0\<rparr>,
    ac_mem = \<lparr>blocks = Map.empty, brk = 1, avail = 200000, stale = \<lambda>_. 0\<rparr>\<rparr>"
  have "asm_ok (asm_init ?d) \<and> free_count (asm_init ?d) = 100"
    by (rule asm_init_ok) (simp_all add: STACK_SIZE_def wf_heap_def)
  then show thesis using that [of "asm_init ?d"] by (simp add: asm_init_def)
qed

theorem bench_copy_paste_witness:
  "\<exists>d i t u. asm_copy_to_clipboard [97, 98, 122, 88] 4 d = Inr (int (unat i), t)
    \<and> asm_paste_from_clipboard i (replicate 6 0) 1 t = Inr (- 1, replicate 6 0, t)
    \<and> asm_paste_from_clipboard i (replicate 6 0) 6 t = Inr (0, [97, 98, 122, 88, 0, 0], u)
    \<and> asm_paste_from_clipboard i (replicate 6 0) 6 u = Inr (- 1, replicate 6 0, u)"
proof -
  obtain d where d: "asm_ok d" "free_count d = 100" "avail (ac_mem d) = 200000" by (rule fresh_bench)
  have six: "replicate 6 (0 :: byte) = [0, 0, 0, 0, 0, 0]" by (simp add: numeral_eq_Suc)
  have chars: "\<forall>c\<in>set (take (unat (4 :: u32)) [97, 98, 122, 88]). ctype_ok c" by (simp add: ctype_ok_def)
  from bench_copy_paste [OF d(1) _ _ _ chars, of 6 "replicate 6 0"] d(2,3) obtain i t u where
    "asm_copy_to_clipboard [97, 98, 122, 88] 4 d = Inr (int (unat (i :: u32)), t)"
    "\<forall>j<4. asm_paste_from_clipboard i (replicate 6 0) j t = Inr (- 1, replicate 6 0, t)"
    "asm_paste_from_clipboard i (replicate 6 0) 6 t = Inr (0, overwrite 0 [97, 98, 122, 88] (replicate 6 0), u)"
    "asm_paste_from_clipboard i (replicate 6 0) 6 u = Inr (- 1, replicate 6 0, u)"
    by auto
  moreover from this(2) have "asm_paste_from_clipboard i (replicate 6 0) 1 t = Inr (- 1, replicate 6 0, t)" by simp
  ultimately show ?thesis
    by (intro exI [of _ d] exI [of _ i] exI [of _ t] exI [of _ u]) (simp add: overwrite_0 six)
qed

text \<open>The bench never gives an index back: in every run of requests after initialisation the stored texts and the
  free indices add up to 100, so at most 100 texts are ever stored, and after the hundredth every write
  returns -1 although all texts may have been read and deleted.\<close>

theorem bench_exhaustion:
  assumes "length (ac_entries d) = 100" and "length (vals (ac_available d)) = STACK_SIZE" and "wf_heap (ac_mem d)"
    and "asm_run reqs (asm_init d) = Inr (rs, t)"
  shows "length (filter stored (zip reqs rs)) + free_count t = 100
    \<and> (length (filter stored (zip reqs rs)) = 100 \<longrightarrow>
      clipboard_ioctl CLIPBOARD_WRITE (Write_Msg m) t = Inr (- 1, [], t))"
proof -
  have ok: "asm_ok (asm_init d)" "free_count (asm_init d) = 100" using asm_init_ok [OF assms(1-3)] by simp_all
  from run_counts [OF ok(1) assms(4)] ok(2) show ?thesis
    by (simp add: asm_write_full ioctl_write)
qed

text \<open>A hundred writes of one character, and the next one.\<close>

lemma run_writes:
  assumes "unat (w_buffer_len m) \<le> length (w_buffer m)"
  shows "asm_ok d \<Longrightarrow> n \<le> free_count d \<Longrightarrow> n * unat (w_buffer_len m) \<le> avail (ac_mem d) \<Longrightarrow>
    \<exists>rs t. asm_run (replicate n (CLIPBOARD_WRITE, Write_Msg m)) d = Inr (rs, t) \<and> length rs = n
      \<and> filter stored (zip (replicate n (CLIPBOARD_WRITE, Write_Msg m)) rs) = zip (replicate n (CLIPBOARD_WRITE, Write_Msg m)) rs"
proof (induction n arbitrary: d)
  case 0
  then show ?case by simp
next
  case (Suc n)
  have room: "free_count d \<noteq> 0" "unat (w_buffer_len m) \<le> avail (ac_mem d)" using Suc.prems by simp_all
  from asm_write_stores [OF Suc.prems(1) room assms] obtain v t where t: "asm_write m d = Inr (int (unat (v :: u32)), t)"
    "asm_ok t" "Suc (free_count t) = free_count d" "avail (ac_mem t) + unat (w_buffer_len m) = avail (ac_mem d)"
    by blast
  with Suc.prems have "n \<le> free_count t" "n * unat (w_buffer_len m) \<le> avail (ac_mem t)" by simp_all
  from Suc.IH [OF t(2) this] obtain rs u where
    "asm_run (replicate n (CLIPBOARD_WRITE, Write_Msg m)) t = Inr (rs, u)" "length rs = n"
    "filter stored (zip (replicate n (CLIPBOARD_WRITE, Write_Msg m)) rs) = zip (replicate n (CLIPBOARD_WRITE, Write_Msg m)) rs"
    by blast
  moreover have "stored ((CLIPBOARD_WRITE, x), r) \<longleftrightarrow> 0 \<le> r" for x r by (simp add: stored_def)
  ultimately show ?case using t(1) by (simp add: ioctl_write)
qed

theorem bench_exhaustion_witness:
  "\<exists>d rs t. asm_run (replicate 100 (CLIPBOARD_WRITE,
        Write_Msg \<lparr>w_buffer = [97], w_buffer_len = 1, w_decompressed_len = 1\<rparr>)) (asm_init d) = Inr (rs, t)
    \<and> clipboard_ioctl CLIPBOARD_WRITE (Write_Msg \<lparr>w_buffer = [97], w_buffer_len = 1, w_decompressed_len = 1\<rparr>) t
      = Inr (- 1, [], t)"
proof -
  let ?m = "\<lparr>w_buffer = [97], w_buffer_len = 1, w_decompressed_len = 1\<rparr>"
  let ?e = "\<lparr>ae_buffer_len = 0, ae_buffer = 0, ae_decompressed_len = 0, ae_in_use = ASM_EMPTY\<rparr>"
  let ?d = "\<lparr>ac_entries = replicate 100 ?e, ac_available = \<lparr>base = 8, vals = replicate 100 0, current = 0\<rparr>,
    ac_mem = \<lparr>blocks = Map.empty, brk = 1, avail = 200000, stale = \<lambda>_. 0\<rparr>\<rparr>"
  have d: "length (ac_entries ?d) = 100" "length (vals (ac_available ?d)) = STACK_SIZE" "wf_heap (ac_mem ?d)"
    by (simp_all add: STACK_SIZE_def wf_heap_def)
  have "avail (ac_mem (asm_init ?d)) = 200000" by (simp add: asm_init_def)
  with run_writes [of ?m "asm_init ?d" 100] asm_init_ok [OF d] obtain rs t where
    r: "asm_run (replicate 100 (CLIPBOARD_WRITE, Write_Msg ?m)) (asm_init ?d) = Inr (rs, t)" "length rs = 100"
      "filter stored (zip (replicate 100 (CLIPBOARD_WRITE, Write_Msg ?m)) rs) = zip (replicate 100 (CLIPBOARD_WRITE, Write_Msg ?m)) rs"
    by auto
  from bench_exhaustion [OF d r(1), of ?m] r(2,3) have
    "clipboard_ioctl CLIPBOARD_WRITE (Write_Msg ?m) t = Inr (- 1, [], t)" by simp
  with r(1) show ?thesis by blast
qed

text \<open>The dispatch of the bench checks a request from above only: requests from 2 on return -1, negative ones
  read before the array of functions.\<close>

theorem bench_dispatch:
  "(request < 0 \<longrightarrow> clipboard_ioctl request msg d = Inl Out_Of_Bounds)
    \<and> (CLIPBOARD_CALL_NUM \<le> request \<longrightarrow> clipboard_ioctl request msg d = Inr (- 1, [], d))"
  by (simp add: clipboard_ioctl_def CLIPBOARD_CALL_NUM_def aget_def in_range_def)

theorem bench_dispatch_witness:
  "\<forall>msg d. clipboard_ioctl (- 1) msg d = Inl Out_Of_Bounds"
  using bench_dispatch [of "- 1"] by simp

end
