(* ===== verification/Safe_Copy.thy ===== *)
theory Safe_Copy
  imports Cipher Asm_Clipboard
begin

text \<open>
  \<open>copy_safely\<close> and \<open>paste_safely\<close> of \<open>test/compress.c\<close>: a text is enciphered, compressed into its
  own buffer and handed to \<open>copy_to_clipboard\<close>, and the way back.  The two functions are declared
  \<open>extern\<close> there, so they are arguments of the model; the locale \<open>text_store\<close> says what is expected
  of them, and the clipboard of the bench provides it.  Local arrays are arguments that hold what
  the stack happened to contain.
\<close>

section \<open>The functions\<close>

text \<open>The macro \<open>slen\<close>: the length of a text that ends with 0 or at \<open>bound\<close>.\<close>

function slen :: "byte list \<Rightarrow> nat \<Rightarrow> nat \<Rightarrow> nat cres" where
  "slen s bound i =
     (if i < bound then rbind (aget s (int i)) (\<lambda>c. if c \<noteq> 0 then slen s bound (Suc i) else Inr i) else Inr i)"
  by pat_completeness auto
termination
  by (relation "measure (\<lambda>(s, bound, i). bound - i)") auto

declare slen.simps [simp del]

definition fmemset :: "byte list \<Rightarrow> byte \<Rightarrow> nat \<Rightarrow> byte list cres" where
  "fmemset s v len = for_each (\<lambda>i s. aput s (int i) v) [0..<len] s"

definition fmemcpy :: "byte list \<Rightarrow> byte list \<Rightarrow> nat \<Rightarrow> byte list cres" where
  "fmemcpy dst src len = for_each (\<lambda>i dst. rbind (aget src (int i)) (\<lambda>c. aput dst (int i) c)) [0..<len] dst"

text \<open>The result, the length left in \<open>buffer_len\<close> and the state of the clipboard.\<close>

definition copy_safely ::
  "(byte list \<Rightarrow> u32 \<Rightarrow> 's \<Rightarrow> (int \<times> 's) cres) \<Rightarrow> byte list \<Rightarrow> byte list \<Rightarrow>
   byte list \<Rightarrow> nat \<Rightarrow> byte list \<Rightarrow> nat \<Rightarrow> 's \<Rightarrow> (int \<times> nat \<times> 's) cres" where
  "copy_safely copy_op tmp norm_key buffer buffer_len key key_len s =
     (if MAX_SIZE < buffer_len then Inr (- 1, buffer_len, s)
      else rbind (fmemcpy tmp buffer buffer_len) (\<lambda>tmp.
        rbind (cipher norm_key tmp buffer_len key key_len MODE_CIPHER) (\<lambda>(_, tmp).
          rbind (compress True [] buffer_len tmp) (\<lambda>(tmp, compressed_size).
            rbind (copy_op tmp (of_nat compressed_size) s) (\<lambda>(res, s).
              Inr (res, compressed_size, s))))))"

text \<open>The result, the caller's buffer and the state of the clipboard.\<close>

definition paste_safely ::
  "(u32 \<Rightarrow> byte list \<Rightarrow> u32 \<Rightarrow> 's \<Rightarrow> (int \<times> byte list \<times> 's) cres) \<Rightarrow> byte list \<Rightarrow> byte list \<Rightarrow>
   u32 \<Rightarrow> byte list \<Rightarrow> nat \<Rightarrow> byte list \<Rightarrow> nat \<Rightarrow> 's \<Rightarrow> (int \<times> byte list \<times> 's) cres" where
  "paste_safely paste_op tmp norm_key i buffer buffer_len key key_len s =
     rbind (paste_op i tmp (of_nat buffer_len) s) (\<lambda>(res, tmp, s).
       if res \<noteq> 0 then Inr (res, buffer, s)
       else rbind (slen tmp buffer_len 0) (\<lambda>compressed_len.
         rbind (fmemset buffer 0 buffer_len) (\<lambda>buffer.
           rbind (decompress tmp compressed_len buffer) (\<lambda>buffer.
             rbind (slen buffer buffer_len 0) (\<lambda>decompressed_len.
               rbind (cipher norm_key buffer decompressed_len key key_len MODE_DECIPHER) (\<lambda>(_, buffer).
                 Inr (res, buffer, s)))))))"

section \<open>Lengths, copies and fills\<close>

lemma slen_text:
  assumes "k \<le> bound" and "k \<le> length s" and "\<forall>c\<in>set (take k s). c \<noteq> 0"
    and "k < bound \<Longrightarrow> k < length s \<and> s ! k = 0"
  shows "i \<le> k \<Longrightarrow> slen s bound i = Inr k"
proof (induction "k - i" arbitrary: i)
  case 0
  then have "i = k" by simp
  with assms(4) show ?case
    by (subst slen.simps) simp
next
  case (Suc j)
  then have "i < k" by simp
  then have "take k s ! i \<in> set (take k s)" by (intro nth_mem) (use assms(2) in simp)
  with assms(3) \<open>i < k\<close> have "s ! i \<noteq> 0" by simp
  with Suc \<open>i < k\<close> assms(1,2) show ?case
    by (subst slen.simps) simp
qed

lemma fmemset_replicate:
  assumes "n \<le> length s"
  shows "fmemset s v n = Inr (replicate n v @ drop n s)"
proof -
  have "\<exists>t. fmemset s v n = Inr t \<and> t = replicate n v @ drop n s"
    unfolding fmemset_def
  proof (rule for_each_upt)
    fix k t
    assume "k < n" "t = replicate k v @ drop k s"
    moreover from this have "drop k s = s ! k # drop (Suc k) s" using assms by (simp add: Cons_nth_drop_Suc)
    ultimately show "\<exists>u. aput t (int k) v = Inr u \<and> u = replicate (Suc k) v @ drop (Suc k) s"
      using assms by (simp add: list_update_append replicate_append_same)
  qed simp
  then show ?thesis by simp
qed

lemma fmemcpy_overwrite:
  assumes "n \<le> length dst" and "n \<le> length src"
  shows "fmemcpy dst src n = Inr (overwrite 0 (take n src) dst)"
proof -
  have "\<exists>t. fmemcpy dst src n = Inr t \<and> t = take n src @ drop n dst"
    unfolding fmemcpy_def
  proof (rule for_each_upt)
    fix k t
    assume "k < n" "t = take k src @ drop k dst"
    moreover from this have "drop k dst = dst ! k # drop (Suc k) dst" using assms by (simp add: Cons_nth_drop_Suc)
    ultimately show "\<exists>u. rbind (aget src (int k)) (\<lambda>c. aput t (int k) c) = Inr u
        \<and> u = take (Suc k) src @ drop (Suc k) dst"
      using assms by (simp add: list_update_append take_Suc_conv_app_nth)
  qed simp
  then show ?thesis using assms(2) by (simp add: overwrite_0)
qed

section \<open>What the code of a text of letters looks like\<close>

lemma letter_char:
  assumes "letter c"
  shows "c \<noteq> 0" and "\<not> is_digit c" and "ctype_ok c"
  using assms by (auto simp: letter_def is_lower_def is_upper_def is_digit_def ctype_ok_def)

lemma digit_nonzero: "is_digit c \<Longrightarrow> c \<noteq> 0"
  by (auto simp: is_digit_def)

lemma rle_nonzero:
  assumes "\<forall>c\<in>set xs. c \<noteq> 0"
  shows "\<forall>c\<in>set (rle xs). c \<noteq> 0"
proof
  fix b
  assume "b \<in> set (rle xs)"
  then obtain c k where run: "(c, k) \<in> set (runs xs)" "b \<in> set (run_code c k)"
    by (auto simp: rle_runs)
  then have "b = c \<or> b \<in> set (digit_bytes k)" by (auto simp: run_code_def split: if_splits)
  then show "b \<noteq> 0"
  proof
    assume "b = c"
    with run(1) assms runs_chars show ?thesis by blast
  next
    assume "b \<in> set (digit_bytes k)"
    then obtain d where "b = 48 + of_nat d" "d < 10"
      using digits_less by (auto simp: digit_bytes_def)
    then show ?thesis using digit_byte(1) digit_nonzero by simp
  qed
qed

section \<open>Encoding\<close>

lemma copy_safely_encodes:
  assumes "0 < key_len" and "key_len \<le> MAX_SIZE" and "key_len \<le> length key"
    and "n \<le> length buf" and "n \<le> MAX_SIZE" and "length tmp = MAX_SIZE" and "length junk = MAX_SIZE"
    and "xs = encipher MODE_CIPHER (norm (take key_len key)) (take n buf)"
  shows "copy_safely copy_op tmp junk buf n key key_len s =
    rbind (copy_op (overwrite 0 (rle xs) (xs @ drop n tmp)) (of_nat (length (rle xs))) s)
      (\<lambda>(res, s). Inr (res, length (rle xs), s))"
proof -
  let ?t = "overwrite 0 (take n buf) tmp"
  have t: "take n ?t = take n buf" "drop n ?t = drop n tmp" "n \<le> length ?t"
    using assms(4-6) by (simp_all add: overwrite_0)
  have "cipher junk ?t n key key_len MODE_CIPHER = Inr (0, xs @ drop n tmp)"
    using cipher_encipher [OF assms(2,3,1,7) t(3), of MODE_CIPHER] t by (simp add: assms(8))
  moreover have "length xs = n" using assms(4,8) by simp
  then have "compress True [] n (xs @ drop n tmp) = Inr (overwrite 0 (rle xs) (xs @ drop n tmp), length (rle xs))"
    using compress_rle [of n True "xs @ drop n tmp" "[]"] assms(5) by (simp add: MAX_SIZE_def)
  ultimately show ?thesis
    using fmemcpy_overwrite [of n tmp buf] assms(4-6) by (simp add: copy_safely_def)
qed

section \<open>Decoding\<close>

lemma paste_safely_decodes:
  fixes tmp ys :: "byte list"
  assumes key: "0 < key_len" "key_len \<le> MAX_SIZE" "key_len \<le> length key" "\<forall>c\<in>set (take key_len key). key_char c"
    and ys: "\<forall>c\<in>set ys. letter c" "length ys \<le> m" "length ys \<le> MAX_SIZE"
    and xs: "xs = encipher MODE_CIPHER (norm (take key_len key)) ys" "\<forall>(c, k)\<in>set (runs xs). k < 26"
    and tmp: "length tmp = MAX_SIZE" "length (rle xs) = m \<or> length (rle xs) < MAX_SIZE \<and> tmp ! length (rle xs) = 0"
    and junk: "length junk = MAX_SIZE" and dst: "m \<le> length dst"
    and paste: "paste_op i tmp (of_nat m) s = Inr (0, overwrite 0 (rle xs) tmp, u)"
  shows "paste_safely paste_op tmp junk i dst m key key_len s
    = Inr (0, ys @ replicate (m - length ys) 0 @ drop m dst, u)"
proof -
  let ?k = "length (rle xs)" and ?n = "length ys" and ?tmp = "overwrite 0 (rle xs) tmp"
  let ?dst = "replicate m 0 @ drop m dst" and ?rest = "replicate (m - length ys) 0 @ drop m dst"
  have "take key_len key \<noteq> []" using key(1,3) by auto
  then have nk: "norm (take key_len key) \<noteq> []" "\<forall>k\<in>set (norm (take key_len key)). unat k < 26"
    using norm_Nil norm_small [OF key(4)] by blast+
  note inv = encipher_inverse [OF nk ys(1), folded xs(1)]
  have len: "length xs = ?n" by (simp add: xs(1))
  have k: "?k \<le> ?n" using length_rle [of xs] len by simp
  have chars: "\<forall>c\<in>set xs. c \<noteq> 0" "\<forall>c\<in>set xs. \<not> is_digit c" using inv(1) letter_char by blast+
  have "slen ?tmp m 0 = Inr ?k"
  proof (rule slen_text)
    show "\<forall>c\<in>set (take ?k ?tmp). c \<noteq> 0" using rle_nonzero [OF chars(1)] by simp
    show "?k < length ?tmp \<and> ?tmp ! ?k = 0" if "?k < m"
      using that tmp by (auto simp: overwrite_0 nth_append)
  qed (use k ys tmp(1) in \<open>simp_all add: overwrite_0\<close>)
  moreover have "fmemset dst 0 m = Inr ?dst" by (rule fmemset_replicate [OF dst])
  moreover have "decompress ?tmp ?k ?dst = Inr (xs @ ?rest)"
  proof -
    have "decompress ?tmp ?k ?dst = Inr (overwrite 0 (concat (map shrink (runs xs))) ?dst)"
    proof (rule decompress_runs)
      show "\<forall>(c, k)\<in>set (runs xs). \<not> is_digit c \<and> 0 < k" using chars(2) runs_chars runs_positive by fast
      show "take ?k ?tmp = concat (map (\<lambda>(c, k). run_code c k) (runs xs))" by (simp add: rle_runs)
      show "?k \<le> length ?tmp" using k ys(3) tmp(1) by (simp add: overwrite_0)
    qed (use shrink_small [OF xs(2)] len ys(2) in simp)
    also have "overwrite 0 (concat (map shrink (runs xs))) ?dst = xs @ ?rest"
      using shrink_small [OF xs(2)] len ys(2) dst by (simp add: overwrite_0)
    finally show ?thesis .
  qed
  moreover have "slen (xs @ ?rest) m 0 = Inr ?n"
  proof (rule slen_text)
    show "\<forall>c\<in>set (take ?n (xs @ ?rest)). c \<noteq> 0" using chars(1) len by simp
  qed (use len ys(2) in \<open>simp_all add: nth_append\<close>)
  moreover have "cipher junk (xs @ ?rest) ?n key key_len MODE_DECIPHER = Inr (0, ys @ ?rest)"
    using cipher_encipher [OF key(2,3,1) junk, of ?n "xs @ ?rest" MODE_DECIPHER] inv(2) len by simp
  ultimately show ?thesis by (simp add: paste_safely_def paste)
qed

section \<open>The contract of the clipboard\<close>

text \<open>A store that takes a text when it is ready for its length, and gives it back for its identifier.\<close>

locale text_store =
  fixes copy_op :: "byte list \<Rightarrow> u32 \<Rightarrow> 's \<Rightarrow> (int \<times> 's) cres"
    and paste_op :: "u32 \<Rightarrow> byte list \<Rightarrow> u32 \<Rightarrow> 's \<Rightarrow> (int \<times> byte list \<times> 's) cres"
    and ready :: "nat \<Rightarrow> 's \<Rightarrow> bool"
  assumes ready_less: "ready l s \<Longrightarrow> k \<le> l \<Longrightarrow> ready k s"
    and store_law: "ready (unat n) s \<Longrightarrow> unat n \<le> length buf \<Longrightarrow> \<forall>c\<in>set (take (unat n) buf). ctype_ok c \<Longrightarrow>
      \<exists>i t. copy_op buf n s = Inr (int (unat (i :: u32)), t)
        \<and> (\<forall>m dst. n \<le> m \<longrightarrow> unat n \<le> length dst \<longrightarrow>
          (\<exists>u. paste_op i dst m t = Inr (0, overwrite 0 (take (unat n) buf) dst, u)))
        \<and> (\<forall>m dst. m < n \<longrightarrow> paste_op i dst m t = Inr (- 1, dst, t))"
begin

text \<open>What is stored is the code of the enciphered text.\<close>

lemma copy_safely_stores:
  assumes "0 < key_len" and "key_len \<le> MAX_SIZE" and "key_len \<le> length key"
    and "\<forall>c\<in>set (take key_len key). key_char c" and "n \<le> length buf" and "n \<le> MAX_SIZE"
    and "\<forall>c\<in>set (take n buf). letter c" and "length tmp = MAX_SIZE" and "length junk = MAX_SIZE"
    and "ready n s"
  defines "xs \<equiv> encipher MODE_CIPHER (norm (take key_len key)) (take n buf)"
  shows "\<exists>i t. copy_safely copy_op tmp junk buf n key key_len s = Inr (int (unat (i :: u32)), length (rle xs), t)
    \<and> (\<forall>m dst. length (rle xs) \<le> unat m \<longrightarrow> length (rle xs) \<le> length dst \<longrightarrow>
        (\<exists>u. paste_op i dst m t = Inr (0, overwrite 0 (rle xs) dst, u)))
    \<and> (\<forall>m dst. unat m < length (rle xs) \<longrightarrow> paste_op i dst m t = Inr (- 1, dst, t))"
proof -
  have "take key_len key \<noteq> []" using assms(1,3) by auto
  then have nk: "norm (take key_len key) \<noteq> []" "\<forall>k\<in>set (norm (take key_len key)). unat k < 26"
    using norm_Nil norm_small [OF assms(4)] by blast+
  have letters: "\<forall>c\<in>set xs. letter c" unfolding xs_def by (rule encipher_inverse(1) [OF nk assms(7)])
  have len: "length xs = n" using assms(5) by (simp add: xs_def)
  let ?k = "length (rle xs)"
  have k: "?k \<le> n" using length_rle [of xs] len by simp
  then have un: "unat (of_nat ?k :: u32) = ?k" using assms(6)
    by (simp add: MAX_SIZE_def unat_of_nat take_bit_nat_eq_self)
  have tk: "take ?k (overwrite 0 (rle xs) (xs @ drop n tmp)) = rle xs" by simp
  have "\<forall>c\<in>set (rle xs). ctype_ok c" by (rule rle_ctype) (use letters letter_char in blast)
  with store_law [of "of_nat ?k" s "overwrite 0 (rle xs) (xs @ drop n tmp)"] ready_less [OF assms(10) k] un tk
    k len assms(8)
  obtain i t where
    "copy_op (overwrite 0 (rle xs) (xs @ drop n tmp)) (of_nat ?k) s = Inr (int (unat (i :: u32)), t)"
    "\<forall>m dst. of_nat ?k \<le> m \<longrightarrow> ?k \<le> length dst \<longrightarrow> (\<exists>u. paste_op i dst m t = Inr (0, overwrite 0 (rle xs) dst, u))"
    "\<forall>m dst. m < of_nat ?k \<longrightarrow> paste_op i dst m t = Inr (- 1, dst, t)"
    by (auto simp: overwrite_0)
  moreover note copy_safely_encodes [where copy_op = copy_op and s = s, OF assms(1-3,5,6,8,9) xs_def [THEN meta_eq_to_obj_eq]]
  ultimately show ?thesis
    using un by (intro exI [of _ i] exI [of _ t]) (simp add: word_le_nat_alt word_less_nat_alt)
qed

text \<open>A text that is copied and pasted with the same key comes back.\<close>

lemma safe_round:
  assumes key: "0 < key_len" "key_len \<le> MAX_SIZE" "key_len \<le> length key" "\<forall>c\<in>set (take key_len key). key_char c"
    and buf: "n \<le> length buf" "n \<le> MAX_SIZE" "\<forall>c\<in>set (take n buf). letter c" "ready n s"
    and runs: "\<forall>(c, k)\<in>set (runs (encipher MODE_CIPHER (norm (take key_len key)) (take n buf))). k < 26"
    and arrays: "length tmp = MAX_SIZE" "length junk = MAX_SIZE" "length tmp' = MAX_SIZE" "length junk' = MAX_SIZE"
    and room: "n \<le> m" "m < 2 ^ 32" "m \<le> length dst"
  shows "\<exists>i k t. copy_safely copy_op tmp junk buf n key key_len s = Inr (int (unat (i :: u32)), k, t) \<and> k \<le> n
    \<and> (k = m \<or> k < MAX_SIZE \<and> tmp' ! k = 0 \<longrightarrow>
      (\<exists>u. paste_safely paste_op tmp' junk' i dst m key key_len t
        = Inr (0, take n buf @ replicate (m - n) 0 @ drop m dst, u)))
    \<and> (\<forall>j<k. paste_safely paste_op tmp' junk' i dst j key key_len t = Inr (- 1, dst, t))"
proof -
  let ?xs = "encipher MODE_CIPHER (norm (take key_len key)) (take n buf)"
  from copy_safely_stores [OF key buf(1-3) arrays(1,2) buf(4)] obtain i t where
    copy: "copy_safely copy_op tmp junk buf n key key_len s = Inr (int (unat (i :: u32)), length (rle ?xs), t)"
    and paste: "\<And>m dst. length (rle ?xs) \<le> unat m \<Longrightarrow> length (rle ?xs) \<le> length dst \<Longrightarrow>
        \<exists>u. paste_op i dst m t = Inr (0, overwrite 0 (rle ?xs) dst, u)"
    and short: "\<And>m dst. unat m < length (rle ?xs) \<Longrightarrow> paste_op i dst m t = Inr (- 1, dst, t)"
    by blast
  have k: "length (rle ?xs) \<le> n" using length_rle [of ?xs] buf(1) by simp
  have un: "unat (of_nat j :: u32) = j" if "j \<le> m" for j
    using that room(2) by (simp add: unat_of_nat take_bit_nat_eq_self)
  from paste [of "of_nat m" tmp'] k room(1) un buf(2) arrays(3) obtain u where
    "paste_op i tmp' (of_nat m) t = Inr (0, overwrite 0 (rle ?xs) tmp', u)" by auto
  with paste_safely_decodes [OF key buf(3) _ _ refl runs arrays(3) _ arrays(4) room(3), of paste_op i t u]
    buf(1,2) room(1)
  have "paste_safely paste_op tmp' junk' i dst m key key_len t
      = Inr (0, take n buf @ replicate (m - n) 0 @ drop m dst, u)"
    if "length (rle ?xs) = m \<or> length (rle ?xs) < MAX_SIZE \<and> tmp' ! length (rle ?xs) = 0"
    using that by simp
  moreover have "paste_safely paste_op tmp' junk' i dst j key key_len t = Inr (- 1, dst, t)"
    if "j < length (rle ?xs)" for j
    using short [of "of_nat j" tmp'] un [of j] that k room(1) by (simp add: paste_safely_def)
  ultimately show ?thesis using copy k by blast
qed

end

interpretation bench_store: text_store asm_copy_to_clipboard asm_paste_from_clipboard
  "\<lambda>l d. asm_ok d \<and> free_count d \<noteq> 0 \<and> l \<le> avail (ac_mem d)"
proof
  fix n :: u32 and d :: "asm_clipboard" and buf :: "byte list"
  assume r: "asm_ok d \<and> free_count d \<noteq> 0 \<and> unat n \<le> avail (ac_mem d)" and b: "unat n \<le> length buf"
    "\<forall>c\<in>set (take (unat n) buf). ctype_ok c"
  from r have "asm_ok d" "free_count d \<noteq> 0" "unat n \<le> avail (ac_mem d)" by simp_all
  from bench_stores [OF this b]
  show "\<exists>i t. asm_copy_to_clipboard buf n d = Inr (int (unat (i :: u32)), t)
        \<and> (\<forall>m dst. n \<le> m \<longrightarrow> unat n \<le> length dst \<longrightarrow>
          (\<exists>u. asm_paste_from_clipboard i dst m t = Inr (0, overwrite 0 (take (unat n) buf) dst, u)))
        \<and> (\<forall>m dst. m < n \<longrightarrow> asm_paste_from_clipboard i dst m t = Inr (- 1, dst, t))"
    by (elim exE conjE, intro exI conjI) (assumption, metis, assumption)
qed auto

section \<open>Properties\<close>

text \<open>C24: Against the clipboard of the bench with a free entry and room for the text: let a text of at most 1024
  letters, copied with a key of 1 to 1024 letters and digits, have no run of 26 or more characters after the
  cipher.  The copy stores a code of \<open>k\<close> bytes, at most as many as the text has.  If the announced length is \<open>k\<close>,
  or if \<open>k\<close> is less than 1024 and the uninitialised local array of the paste happens to hold a 0 at index \<open>k\<close>, behind the
  code, the paste with the same key delivers the text followed by zeros up to the announced length.  An
  announced length below \<open>k\<close> is refused.\<close>

theorem safe_round_trip:
  assumes "0 < key_len" and "key_len \<le> MAX_SIZE" and "key_len \<le> length key" and "\<forall>c\<in>set (take key_len key). key_char c"
    and "n \<le> length buf" and "n \<le> MAX_SIZE" and "\<forall>c\<in>set (take n buf). letter c"
    and "asm_ok d" and "free_count d \<noteq> 0" and "n \<le> avail (ac_mem d)"
    and "\<forall>(c, k)\<in>set (runs (encipher MODE_CIPHER (norm (take key_len key)) (take n buf))). k < 26"
    and "length tmp = MAX_SIZE" and "length junk = MAX_SIZE" and "length tmp' = MAX_SIZE" and "length junk' = MAX_SIZE"
    and "n \<le> m" and "m < 2 ^ 32" and "m \<le> length dst"
  shows "\<exists>i k t. copy_safely asm_copy_to_clipboard tmp junk buf n key key_len d = Inr (int (unat (i :: u32)), k, t)
    \<and> k \<le> n
    \<and> (k = m \<or> k < MAX_SIZE \<and> tmp' ! k = 0 \<longrightarrow>
      (\<exists>u. paste_safely asm_paste_from_clipboard tmp' junk' i dst m key key_len t
        = Inr (0, take n buf @ replicate (m - n) 0 @ drop m dst, u)))
    \<and> (\<forall>j<k. paste_safely asm_paste_from_clipboard tmp' junk' i dst j key key_len t = Inr (- 1, dst, t))"
  using bench_store.safe_round [OF assms(1-7) _ assms(11-18)] assms(8-10) by simp

text \<open>The text \<open>abzX\<close> and the key \<open>c3\<close> of the test program.\<close>

theorem safe_round_trip_witness:
  "\<exists>d i k t u. copy_safely asm_copy_to_clipboard (replicate MAX_SIZE 0) (replicate MAX_SIZE 0)
        [97, 98, 122, 88] 4 [99, 51] 2 d = Inr (int (unat (i :: u32)), k, t)
    \<and> paste_safely asm_paste_from_clipboard (replicate MAX_SIZE 0) (replicate MAX_SIZE 0) i (replicate 6 0) 6
        [99, 51] 2 t = Inr (0, [97, 98, 122, 88, 0, 0], u)"
proof -
  obtain d where d: "asm_ok d" "free_count d = 100" "avail (ac_mem d) = 200000" by (rule fresh_bench)
  let ?nk = "norm (take 2 [99, 51])"
  have "k < 26" if "(c, k) \<in> set (runs (encipher MODE_CIPHER ?nk [97, 98, 122, 88]))" for c k
    using runs_bound [OF that] by simp
  then have runs: "\<forall>(c, k)\<in>set (runs (encipher MODE_CIPHER ?nk (take 4 [97, 98, 122, 88]))). k < 26" by auto
  have chars: "\<forall>c\<in>set (take 2 [99, 51]). key_char c" "\<forall>c\<in>set (take 4 [97, 98, 122, 88]). letter c"
    by (simp_all add: key_char_def letter_def is_digit_def is_lower_def is_upper_def)
  have six: "replicate 2 (0 :: byte) = [0, 0]" by (simp add: numeral_eq_Suc)
  from safe_round_trip [OF _ _ _ chars(1) _ _ chars(2) d(1) _ _ runs, of "replicate MAX_SIZE 0" "replicate MAX_SIZE 0"
      "replicate MAX_SIZE 0" "replicate MAX_SIZE 0" 6 "replicate 6 0"] d(2,3)
  obtain i k t where
    "copy_safely asm_copy_to_clipboard (replicate MAX_SIZE 0) (replicate MAX_SIZE 0) [97, 98, 122, 88] 4 [99, 51] 2 d
      = Inr (int (unat (i :: u32)), k, t)" "k \<le> 4"
    "k < MAX_SIZE \<and> replicate MAX_SIZE (0 :: byte) ! k = 0 \<longrightarrow>
      (\<exists>u. paste_safely asm_paste_from_clipboard (replicate MAX_SIZE 0) (replicate MAX_SIZE 0) i (replicate 6 0) 6
        [99, 51] 2 t = Inr (0, [97, 98, 122, 88] @ replicate 2 0, u))"
    by (auto simp: MAX_SIZE_def)
  moreover from this(2) have "k < MAX_SIZE \<and> replicate MAX_SIZE (0 :: byte) ! k = 0" by (simp add: MAX_SIZE_def)
  ultimately show ?thesis unfolding six append.simps by meson
qed

text \<open>The result of the cipher is not looked at: with a key of more than 1024 characters the text is stored
  compressed but in the clear, and with an empty key every non-empty copy divides by zero.\<close>

theorem safe_copy_keys:
  assumes "n \<le> MAX_SIZE" and "n \<le> length buf" and "length tmp = MAX_SIZE" and "length junk = MAX_SIZE"
  shows "(MAX_SIZE < key_len \<longrightarrow> copy_safely copy_op tmp junk buf n key key_len s =
      rbind (copy_op (overwrite 0 (rle (take n buf)) (overwrite 0 (take n buf) tmp)) (of_nat (length (rle (take n buf)))) s)
        (\<lambda>(res, s). Inr (res, length (rle (take n buf)), s)))
    \<and> (0 < n \<longrightarrow> copy_safely copy_op tmp junk buf n key 0 s = Inl Div_By_Zero)"
proof -
  let ?t = "overwrite 0 (take n buf) tmp"
  have t: "take n ?t = take n buf" "length ?t = MAX_SIZE"
    using take_overwrite_0 [of "take n buf" tmp] assms(1-3) by (simp_all add: min_absorb2)
  have "compress True [] n ?t = Inr (overwrite 0 (rle (take n buf)) ?t, length (rle (take n buf)))"
    using compress_rle [of n True ?t "[]"] t assms(1) by (simp add: MAX_SIZE_def)
  moreover have "?t \<noteq> []" using t(2) by (auto simp: MAX_SIZE_def)
  ultimately show ?thesis
    using assms(1-3) fmemcpy_overwrite [of n tmp buf] cipher_limits [OF assms(4), where buf = ?t]
    by (simp add: copy_safely_def)
qed

theorem safe_copy_keys_witness:
  "\<forall>d. copy_safely asm_copy_to_clipboard (replicate MAX_SIZE 0) (replicate MAX_SIZE 0) [97] 1 [] 0 d = Inl Div_By_Zero"
  using safe_copy_keys [of 1 "[97]" "replicate MAX_SIZE 0" "replicate MAX_SIZE 0" 0 asm_copy_to_clipboard "[]"]
  by (simp add: MAX_SIZE_def)

end
