(* ===== verification/Asm_Tester.thy ===== *)
theory Asm_Tester
  imports Safe_Copy
begin

text \<open>
  The test program of the bench, \<open>test/asm/asm_tester.c\<close>: its cases of the cipher and its run through the
  clipboard of the bench.  What it prints is left out.  Uninitialised arrays are arguments, one for each
  call: \<open>tmp\<close> and \<open>junk\<close> are the local arrays of the functions called, \<open>text\<close> the array of the test.
\<close>

section \<open>The program\<close>

definition c_str :: "string \<Rightarrow> byte list" where
  "c_str s = map of_char s @ [0]"

definition assert_equal_str :: "byte list \<Rightarrow> byte list \<Rightarrow> nat \<Rightarrow> unit cres" where
  "assert_equal_str t1 t2 len =
     for_each (\<lambda>i u. rbind (aget t1 (int i)) (\<lambda>a. rbind (aget t2 (int i)) (\<lambda>b.
       if a = b then Inr () else Inl Assert_Failed))) [0..<len] ()"

text \<open>The test works on a copy of the text in fresh memory.\<close>

definition test_cipher ::
  "byte list \<Rightarrow> byte list \<Rightarrow> nat \<Rightarrow> byte list \<Rightarrow> nat \<Rightarrow> byte list \<Rightarrow> nat \<Rightarrow> mode \<Rightarrow> unit cres" where
  "test_cipher junk test test_len key key_len res res_len m =
     (if length test < test_len then Inl Out_Of_Bounds
      else rbind (cipher junk (take test_len test) test_len key key_len m) (\<lambda>(_, copy_test).
        assert_equal_str copy_test res res_len))"

definition test_cipher_dual ::
  "(nat \<Rightarrow> byte list) \<Rightarrow> byte list \<Rightarrow> nat \<Rightarrow> byte list \<Rightarrow> nat \<Rightarrow> byte list \<Rightarrow> nat \<Rightarrow> unit cres" where
  "test_cipher_dual junk src fl key kl dst dl =
     rbind (test_cipher (junk 0) src fl key kl dst dl MODE_CIPHER) (\<lambda>_.
       test_cipher (junk 1) dst dl key kl src fl MODE_DECIPHER)"

definition cipher_compress_test :: "(nat \<Rightarrow> byte list) \<Rightarrow> unit cres" where
  "cipher_compress_test junk =
     rbind (test_cipher_dual junk (c_str ''abCzX'') 5 (c_str ''de35'') 4 (c_str ''dfLcB'') 5) (\<lambda>_.
       test_cipher_dual (\<lambda>i. junk (i + 2)) (c_str ''zzmoZ'') 5 (c_str ''12ab'') 4 (c_str ''lznaZ'') 5)"

definition clipboard_test ::
  "(nat \<Rightarrow> byte list) \<Rightarrow> (nat \<Rightarrow> byte list) \<Rightarrow> byte list \<Rightarrow> asm_clipboard \<Rightarrow> (byte list \<times> asm_clipboard) cres" where
  "clipboard_test tmp junk text d =
     (let buff = overwrite 0 (c_str ''abzX'') (replicate 20 0);
          key = c_str ''c3'';
          d = asm_init d
      in rbind (copy_safely asm_copy_to_clipboard (tmp 0) (junk 0) buff 4 key 2 d) (\<lambda>(r, buff_size, d).
           let text_id = word_of_int r
           in if text_id = - 1 then Inl Assert_Failed
              else rbind (paste_safely asm_paste_from_clipboard (tmp 1) (junk 1) text_id text 1 key 2 d) (\<lambda>(res, text, d).
                if res \<noteq> - 1 then Inl Assert_Failed
                else rbind (paste_safely asm_paste_from_clipboard (tmp 2) (junk 2) text_id text 6 key 2 d) (\<lambda>(res, text, d).
                  if res \<noteq> 0 then Inl Assert_Failed
                  else rbind (assert_equal_str buff text 4) (\<lambda>_.
                    rbind (paste_safely asm_paste_from_clipboard (tmp 3) (junk 3) text_id text 4 key 2 d) (\<lambda>(res, text, d).
                      if res \<noteq> - 1 then Inl Assert_Failed
                      else Inr (text, d)))))))"

definition asm_tester_main ::
  "(nat \<Rightarrow> byte list) \<Rightarrow> (nat \<Rightarrow> byte list) \<Rightarrow> byte list \<Rightarrow> asm_clipboard \<Rightarrow> (byte list \<times> asm_clipboard) cres" where
  "asm_tester_main tmp junk text d =
     rbind (cipher_compress_test (\<lambda>i. junk (i + 4))) (\<lambda>_. clipboard_test tmp junk text d)"

section \<open>The cases\<close>

lemma assert_equal_refl:
  assumes "len \<le> length s" and "len \<le> length t" and "take len s = take len t"
  shows "assert_equal_str s t len = Inr ()"
proof -
  have "s ! i = t ! i" if "i < len" for i
    using that assms(3) nth_take [OF that, of s] nth_take [OF that, of t] by simp
  then have "\<exists>u. assert_equal_str s t len = Inr u \<and> True"
    unfolding assert_equal_str_def using assms(1,2) by (intro for_each_upt) simp_all
  then show ?thesis by simp
qed

lemma strings:
  "c_str ''abCzX'' = [97, 98, 67, 122, 88, 0]" "c_str ''dfLcB'' = [100, 102, 76, 99, 66, 0]"
  "c_str ''zzmoZ'' = [122, 122, 109, 111, 90, 0]" "c_str ''lznaZ'' = [108, 122, 110, 97, 90, 0]"
  "c_str ''de35'' = [100, 101, 51, 53, 0]" "c_str ''12ab'' = [49, 50, 97, 98, 0]"
  "c_str ''abzX'' = [97, 98, 122, 88, 0]" "c_str ''c3'' = [99, 51, 0]"
  by (simp_all add: c_str_def)

lemma norms:
  "norm [100, 101, 51, 53] = [3, 4, 9]" "norm [49, 50, 97, 98] = [12, 0, 1]" "norm [99, 51] = [2, 3]"
  by (simp_all add: norm_def is_digit_def is_lower_def)

lemma encipher_cases:
  "encipher MODE_CIPHER [3, 4, 9] [97, 98, 67, 122, 88] = [100, 102, 76, 99, 66]"
  "encipher MODE_DECIPHER [3, 4, 9] [100, 102, 76, 99, 66] = [97, 98, 67, 122, 88]"
  "encipher MODE_CIPHER [12, 0, 1] [122, 122, 109, 111, 90] = [108, 122, 110, 97, 90]"
  "encipher MODE_DECIPHER [12, 0, 1] [108, 122, 110, 97, 90] = [122, 122, 109, 111, 90]"
  "encipher MODE_CIPHER [2, 3] [97, 98, 122, 88] = [99, 101, 98, 65]"
  by code_simp+

lemma test_cipher_passes:
  assumes "length junk = MAX_SIZE" and "n \<le> length t" and "n \<le> length res" and "k \<le> length key" and "0 < k"
    and "k \<le> MAX_SIZE" and "encipher m (norm (take k key)) (take n t) = take n res"
  shows "test_cipher junk t n key k res n m = Inr ()"
  using assms cipher_encipher [OF assms(6,4,5,1), of n "take n t" m]
  by (simp add: test_cipher_def assert_equal_refl)

lemma cipher_test_passes:
  assumes "\<And>i. length (junk i) = MAX_SIZE"
  shows "cipher_compress_test junk = Inr ()"
  using assms by (simp add: cipher_compress_test_def test_cipher_dual_def test_cipher_passes strings norms
      encipher_cases MAX_SIZE_def)

lemma runs_single: "runs [99, 101, 98, 65 :: byte] = [(99, 1), (101, 1), (98, 1), (65, 1)]"
  by code_simp

lemma rle_abzX: "rle [99, 101, 98, 65] = [99, 101, 98, 65]"
  by code_simp

text \<open>The test of the clipboard, from the state \<open>clipboard_init\<close> leaves.\<close>

lemma clipboard_test_passes:
  assumes arrays: "\<And>i. length (tmp i) = MAX_SIZE" "\<And>i. length (junk i) = MAX_SIZE" "length text = 20"
    and ends: "tmp 2 ! 4 = 0"
    and init: "asm_ok (asm_init d)" "free_count (asm_init d) = 100" "4 \<le> avail (ac_mem d)"
  shows "\<exists>t. clipboard_test tmp junk text d = Inr ([97, 98, 122, 88, 0, 0] @ drop 6 text, t)
    \<and> asm_ok t \<and> free_count t = 99 \<and> blocks (ac_mem t) = blocks (ac_mem d)"
proof -
  let ?buff = "overwrite 0 (c_str ''abzX'') (replicate 20 0)" and ?key = "c_str ''c3''"
  let ?code = "[99, 101, 98, 65] :: byte list"
  have len: "length ?buff = 20" "take 4 ?buff = [97, 98, 122, 88]" "length ?key = 3" "take 2 ?key = [99, 51]"
    by (simp_all add: strings overwrite_def numeral_eq_Suc)
  have enc: "?code = encipher MODE_CIPHER (norm (take 2 ?key)) (take 4 ?buff)"
    unfolding len norms encipher_cases ..
  let ?t0 = "overwrite 0 ?code (?code @ drop 4 (tmp 0))"
  have code: "copy_safely asm_copy_to_clipboard (tmp 0) (junk 0) ?buff 4 ?key 2 (asm_init d) =
      rbind (asm_copy_to_clipboard (overwrite 0 (rle ?code) (?code @ drop 4 (tmp 0))) (of_nat (length (rle ?code)))
        (asm_init d)) (\<lambda>(res, s). Inr (res, length (rle ?code), s))"
    by (rule copy_safely_encodes [OF _ _ _ _ _ _ _ enc]) (use arrays len in \<open>simp_all add: MAX_SIZE_def\<close>)
  have "length ?code = 4" by simp
  note code = code [unfolded rle_abzX this of_nat_numeral]
  have t0: "take 4 ?t0 = ?code" "4 \<le> length ?t0"
    by (simp_all add: overwrite_def)
  have "unat (4 :: u32) = 4" "free_count (asm_init d) \<noteq> 0" "4 \<le> avail (ac_mem (asm_init d))"
    using init by (simp_all add: asm_init_def)
  then have fits: "unat (4 :: u32) \<le> avail (ac_mem (asm_init d))" "unat (4 :: u32) \<le> length ?t0"
    "\<forall>c\<in>set (take (unat (4 :: u32)) ?t0). ctype_ok c" and nonzero: "free_count (asm_init d) \<noteq> 0"
    and four: "unat (4 :: u32) = 4"
    using t0 by (simp_all add: ctype_ok_def)
  obtain i t where
    copy: "asm_copy_to_clipboard ?t0 4 (asm_init d) = Inr (int (unat (i :: u32)), t)" and i: "unat i < 100"
    and short: "\<And>j dst. j < 4 \<Longrightarrow> asm_paste_from_clipboard i dst j t = Inr (- 1, dst, t)"
    and paste: "\<And>k dst. 4 \<le> k \<Longrightarrow> 4 \<le> length dst \<Longrightarrow>
      \<exists>u. asm_paste_from_clipboard i dst k t = Inr (0, overwrite 0 ?code dst, u)
        \<and> (\<forall>k dst. asm_paste_from_clipboard i dst k u = Inr (- 1, dst, u))
        \<and> blocks (ac_mem u) = blocks (ac_mem (asm_init d)) \<and> asm_ok u
        \<and> Suc (free_count u) = free_count (asm_init d)"
    using bench_stores [OF init(1) nonzero fits, unfolded four t0(1)]
    by (elim exE conjE) (rule that, assumption, assumption, blast, blast)
  from paste [of 6 "tmp 2"] arrays(1) obtain u where
    u: "asm_paste_from_clipboard i (tmp 2) 6 t = Inr (0, overwrite 0 ?code (tmp 2), u)"
      "\<forall>k dst. asm_paste_from_clipboard i dst k u = Inr (- 1, dst, u)"
      "blocks (ac_mem u) = blocks (ac_mem d)" "asm_ok u" "free_count u = 99"
    using init(2) by (auto simp: MAX_SIZE_def asm_init_def)
  have id: "(word_of_int (int (unat i)) :: u32) = i" "i \<noteq> - 1"
  proof -
    have "sint i = int (unat i)" using i by (intro sint_eq_unat) simp
    then have "0 \<le> sint i" by simp
    then show "i \<noteq> - 1" by auto
  qed simp
  have refused: "paste_safely asm_paste_from_clipboard (tmp j) (junk j) i dst n ?key 2 s = Inr (- 1, dst, s)"
    if "asm_paste_from_clipboard i (tmp j) (of_nat n) s = Inr (- 1, tmp j, s)" for j dst n s
    using that by (simp add: paste_safely_def)
  have chars: "\<forall>c\<in>set (take 2 ?key). key_char c" "\<forall>c\<in>set [97, 98, 122, 88]. letter c"
    unfolding len by (simp_all add: key_char_def letter_def is_digit_def is_lower_def is_upper_def)
  have "4 = Suc (Suc (Suc (Suc 0)))" by simp
  note ends = ends [unfolded this]
  have "paste_safely asm_paste_from_clipboard (tmp 2) (junk 2) i text 6 ?key 2 t
      = Inr (0, [97, 98, 122, 88] @ replicate (6 - length [97, 98, 122, 88 :: byte]) 0 @ drop 6 text, u)"
    by (rule paste_safely_decodes [OF _ _ _ chars _ _ enc [unfolded len(2)]])
      (use arrays len ends u(1) in \<open>simp_all add: rle_abzX runs_single MAX_SIZE_def\<close>)
  then have full: "paste_safely asm_paste_from_clipboard (tmp 2) (junk 2) i text 6 ?key 2 t
      = Inr (0, [97, 98, 122, 88, 0, 0] @ drop 6 text, u)"
    by (simp add: numeral_eq_Suc)
  have equal: "assert_equal_str ?buff ([97, 98, 122, 88, 0, 0] @ drop 6 text) 4 = Inr ()"
    using len by (intro assert_equal_refl) simp_all
  have "clipboard_test tmp junk text d = Inr ([97, 98, 122, 88, 0, 0] @ drop 6 text, u)"
    unfolding clipboard_test_def Let_def code copy
    using id refused [of 1 1 t "text"] short refused [of 3 4 u] u(2) full equal by simp
  with u(3-5) show ?thesis by blast
qed

section \<open>Properties\<close>

text \<open>C29: If the uninitialised array of its second paste happens to hold a zero at index 4, behind the code of the text, and
  the memory has 4 bytes for the text, the test program of the bench passes all its assertions: the cases of the
  cipher in both directions, and a text that is copied with a key, refused to a buffer of length 1, pasted to one of
  length 6 and then gone.  The pasted array then holds the plain text followed by zeros.\<close>

theorem asm_tester_passes:
  assumes "\<And>i. length (tmp i) = MAX_SIZE" and "\<And>i. length (junk i) = MAX_SIZE" and "length text = 20"
    and "tmp 2 ! 4 = 0" and "length (ac_entries d) = 100" and "length (vals (ac_available d)) = STACK_SIZE"
    and "wf_heap (ac_mem d)" and "4 \<le> avail (ac_mem d)"
  shows "\<exists>t. asm_tester_main tmp junk text d = Inr ([97, 98, 122, 88, 0, 0] @ drop 6 text, t)
    \<and> asm_ok t \<and> free_count t = 99 \<and> blocks (ac_mem t) = blocks (ac_mem d)"
  using clipboard_test_passes [of tmp junk "text" d] assms(1-4) asm_init_ok [OF assms(5-7)] assms(8)
    cipher_test_passes [of "\<lambda>i. junk (i + 4)"] assms(2)
  by (simp add: asm_tester_main_def)

theorem asm_tester_passes_witness:
  "\<exists>d t. asm_tester_main (\<lambda>_. replicate MAX_SIZE 0) (\<lambda>_. replicate MAX_SIZE 7) (replicate 20 9) d =
    Inr ([97, 98, 122, 88, 0, 0] @ replicate 14 9, t) \<and> free_count t = 99"
proof -
  let ?e = "\<lparr>ae_buffer_len = 0, ae_buffer = 0, ae_decompressed_len = 0, ae_in_use = ASM_EMPTY\<rparr>"
  let ?d = "\<lparr>ac_entries = replicate 100 ?e, ac_available = \<lparr>base = 8, vals = replicate 100 0, current = 0\<rparr>,
    ac_mem = \<lparr>blocks = Map.empty, brk = 1, avail = 200000, stale = \<lambda>_. 0\<rparr>\<rparr>"
  from asm_tester_passes [of "\<lambda>_. replicate MAX_SIZE 0" "\<lambda>_. replicate MAX_SIZE 7" "replicate 20 9" ?d]
  obtain t where "asm_tester_main (\<lambda>_. replicate MAX_SIZE 0) (\<lambda>_. replicate MAX_SIZE 7) (replicate 20 9) ?d =
      Inr ([97, 98, 122, 88, 0, 0] @ replicate 14 9, t)" "free_count t = 99"
    by (auto simp: MAX_SIZE_def STACK_SIZE_def wf_heap_def)
  then show ?thesis by blast
qed

end
