(* ===== verification/Clipboard_Log.thy ===== *)
theory Clipboard_Log
  imports Driver_Theorems Live_Update
begin

text \<open>
  The log of the driver, \<open>log_string\<close> and \<open>clipboard_log\<close> of \<open>bw386389.c\<close>, which builds with \<open>DEBUG\<close>
  print while they save and restore their state.  A printed line is a record of its values; the
  running number of the log, a static variable that is only printed, is left out.
\<close>

section \<open>The functions\<close>

record log_line =
  log_id :: nat
  log_LE :: u32
  log_DE :: u32
  log_text :: "byte list"

definition log_string :: "nat \<Rightarrow> u32 \<Rightarrow> heap \<Rightarrow> byte list cres" where
  "log_string c len h =
     for_each (\<lambda>i out. case blocks h c of
         None \<Rightarrow> Inl Bad_Pointer
       | Some bs \<Rightarrow> rbind (aget bs (int i)) (\<lambda>b. Inr (out @ [b]))) [0..<unat len] []"

definition clipboard_log :: "driver \<Rightarrow> log_line list cres" where
  "clipboard_log d =
     for_each (\<lambda>i out. rbind (entry_at (int i) d) (\<lambda>e.
         if busy e then
           rbind (log_string (buffer e) (buffer_len e) (mem d)) (\<lambda>t.
             Inr (out @ [\<lparr>log_id = i, log_LE = buffer_len e, log_DE = decompressed_len e, log_text = t\<rparr>]))
         else Inr out)) [0..<BUF_MAX_COUNT] []"

section \<open>What is printed\<close>

lemma log_string_block:
  assumes "blocks h c = Some bs" and "unat len = length bs"
  shows "log_string c len h = Inr bs"
proof -
  have "\<exists>t. log_string c len h = Inr t \<and> t = take (unat len) bs"
    unfolding log_string_def
    by (rule for_each_upt) (use assms in \<open>simp_all add: take_Suc_conv_app_nth\<close>)
  with assms(2) show ?thesis by simp
qed

definition line_of :: "nat \<Rightarrow> item \<Rightarrow> log_line" where
  "line_of i it = \<lparr>log_id = i, log_LE = of_nat (length (contents it)), log_DE = plain_len it, log_text = contents it\<rparr>"

text \<open>The lines of the entries in a list of indices: those that are not locked.\<close>

definition lines_of :: "board \<Rightarrow> nat list \<Rightarrow> log_line list" where
  "lines_of b is =
     concat (map (\<lambda>i. case b i of None \<Rightarrow> [] | Some it \<Rightarrow> if holder it = None then [line_of i it] else []) is)"

lemma lines_of_snoc: "lines_of b [0..<Suc k] = lines_of b [0..<k] @
    (case b k of None \<Rightarrow> [] | Some it \<Rightarrow> if holder it = None then [line_of k it] else [])"
  by (simp add: lines_of_def)

lemma log_entry:
  assumes "wf_driver d" and "i < BUF_MAX_COUNT"
  shows "rbind (entry_at (int i) d) (\<lambda>e.
      if busy e then rbind (log_string (buffer e) (buffer_len e) (mem d)) (\<lambda>t.
        Inr (out @ [\<lparr>log_id = i, log_LE = buffer_len e, log_DE = decompressed_len e, log_text = t\<rparr>]))
      else Inr out) =
    Inr (out @ (case board_of d i of None \<Rightarrow> [] | Some it \<Rightarrow> if holder it = None then [line_of i it] else []))"
proof -
  have at: "entry_at (int i) d = Inr (ent d i)"
    using assms by (simp add: wf_driver_def ent_def)
  show ?thesis
  proof (cases "i \<in> occupied d")
    case True
    note held = text_block(1,2) [OF assms(1) True]
    from log_string_block [OF held(1) held(2) [symmetric]]
    have log: "log_string (buffer (ent d i)) (buffer_len (ent d i)) (mem d) = Inr (text_of d i)" .
    have len: "of_nat (length (text_of d i)) = buffer_len (ent d i)" by (simp add: held(2))
    have "busy (ent d i) \<longleftrightarrow> \<not> locked (ent d i)"
      using True by (cases "in_use (ent d i)") (simp_all add: occupied_def busy_def locked_def)
    with log len True at show ?thesis
      by (simp add: board_of_def line_of_def item_of_def text_of_def del: entry_at_int)
  next
    case False
    then have "\<not> busy (ent d i)" using assms(2) by (simp add: occupied_def busy_def)
    with False at show ?thesis by (simp add: board_of_def del: entry_at_int)
  qed
qed

section \<open>Properties\<close>

text \<open>The log of a well-formed driver reads only live buffers, and prints exactly the texts that are not locked,
  in the order of their indices, each with its two lengths and all of its bytes.\<close>

theorem log_prints_unlocked:
  assumes "wf_driver d"
  shows "clipboard_log d = Inr (lines_of (board_of d) [0..<BUF_MAX_COUNT])"
proof -
  have "\<exists>t. clipboard_log d = Inr t \<and> t = lines_of (board_of d) [0..<BUF_MAX_COUNT]"
    unfolding clipboard_log_def
  proof (rule for_each_upt)
    show "[] = lines_of (board_of d) [0..<0]" by (simp add: lines_of_def)
    fix k s
    assume "k < BUF_MAX_COUNT" "s = lines_of (board_of d) [0..<k]"
    then show "\<exists>t. rbind (entry_at (int k) d) (\<lambda>e.
        if busy e then rbind (log_string (buffer e) (buffer_len e) (mem d)) (\<lambda>t.
          Inr (s @ [\<lparr>log_id = k, log_LE = buffer_len e, log_DE = decompressed_len e, log_text = t\<rparr>]))
        else Inr s) = Inr t \<and> t = lines_of (board_of d) [0..<Suc k]"
      unfolding log_entry [OF assms \<open>k < BUF_MAX_COUNT\<close>] lines_of_snoc by simp
  qed
  then show ?thesis by simp
qed

text \<open>A device with one text, and one with one locked text.\<close>

theorem log_prints_unlocked_witness:
  "\<exists>i d d'. clipboard_log d = Inr [line_of i (new_item sample_set)] \<and> board_of d' \<noteq> Map.empty \<and> clipboard_log d' = Inr []"
proof -
  have one: "lines_of [i \<mapsto> it] [0..<n] = (if i < n \<and> holder it = None then [line_of i it] else [])" for i n it
    by (induction n) (auto simp: lines_of_snoc lines_of_def less_Suc_eq)
  obtain i d where d: "wf_driver d" "board_of d = [i \<mapsto> new_item sample_set]" using sample_stored by blast
  then have "i \<in> occupied d" by (metis board_of_def fun_upd_same option.distinct(1))
  then have "i < BUF_MAX_COUNT" by (rule occupied_less)
  with log_prints_unlocked [OF d(1)] d(2) have "clipboard_log d = Inr [line_of i (new_item sample_set)]"
    by (simp add: one new_item_def)
  moreover obtain j d' where d': "wf_driver d'" "board_of d' = [j \<mapsto> (new_item sample_set)\<lparr>holder := Some 9\<rparr>]"
    using sample_locked by blast
  with log_prints_unlocked [OF d'(1)] have "clipboard_log d' = Inr []" by (simp add: one)
  moreover have "board_of d' \<noteq> Map.empty" unfolding d'(2) by simp
  ultimately show ?thesis by blast
qed

end
