(* ===== verification/Unistd.thy ===== *)
theory Unistd
  imports Main
begin

text \<open>
  The system header \<open>include/unistd.h\<close>, through which programs see the new functions: its preprocessor
  directives and declarations, before (\<open>get\<close>) and after (\<open>new\<close>) the patch, and what a compilation sees of
  it.  Attributes of functions that do not belong to their types are left out; \<open>__RENAME\<close> is the last
  component of a prototype.  What the included headers do to the macros is a parameter.
\<close>

section \<open>Declarations, conditions and directives\<close>

datatype ctype =
    T_void | T_int | T_unsigned | T_long | T_char | T_u8 | T_u32
  | Named string | Const ctype | Ptr ctype | Handler

text \<open>A macro that is defined without a value counts as 0, and so does an undefined one.\<close>

type_synonym env = "string \<rightharpoonup> nat"

datatype cond =
    Always | Defined string | IsZero string | AtLeast string nat
  | NotC cond | AndC cond cond | OrC cond cond

primrec holds :: "env \<Rightarrow> cond \<Rightarrow> bool" where
  "holds e Always \<longleftrightarrow> True"
| "holds e (Defined m) \<longleftrightarrow> e m \<noteq> None"
| "holds e (IsZero m) \<longleftrightarrow> (case e m of None \<Rightarrow> 0 | Some n \<Rightarrow> n) = 0"
| "holds e (AtLeast m k) \<longleftrightarrow> k \<le> (case e m of None \<Rightarrow> 0 | Some n \<Rightarrow> n)"
| "holds e (NotC c) \<longleftrightarrow> \<not> holds e c"
| "holds e (AndC c d) \<longleftrightarrow> holds e c \<and> holds e d"
| "holds e (OrC c d) \<longleftrightarrow> holds e c \<or> holds e d"

text \<open>A prototype: name, result, parameters, whether more may follow, and the symbol it is renamed to.\<close>

datatype item =
    Proto string ctype "ctype list" bool "string option"
  | Var string ctype
  | Typedef string ctype
  | Tag string
  | Define string "nat option"
  | Include string
  | Cond cond "item list" "item list"

fun preprocess :: "(string \<Rightarrow> env \<Rightarrow> env) \<Rightarrow> item list \<Rightarrow> env \<Rightarrow> item list \<times> env" where
  "preprocess inc [] e = ([], e)"
| "preprocess inc (Include f # is) e = preprocess inc is (inc f e)"
| "preprocess inc (Define m v # is) e =
     preprocess inc is (e(m \<mapsto> (case v of None \<Rightarrow> 0 | Some n \<Rightarrow> n)))"
| "preprocess inc (Cond c th el # is) e =
     (let (ds, e) = preprocess inc (if holds e c then th else el) e;
          (ds', e) = preprocess inc is e
      in (ds @ ds', e))"
| "preprocess inc (d # is) e = (let (ds, e) = preprocess inc is e in (d # ds, e))"

section \<open>The header\<close>

text \<open>The patch touches the first part only.\<close>

definition unistd_1 :: "item list" where
  "unistd_1 =
    [Define ''_UNISTD_H_'' None,
     Include ''machine/ansi.h'',
     Include ''machine/int_types.h'',
     Include ''sys/cdefs.h'',
     Include ''sys/featuretest.h'',
     Include ''sys/types.h'',
     Include ''sys/unistd.h'',
     Cond (AtLeast ''_FORTIFY_SOURCE'' 1)
        [Include ''ssp/unistd.h'']
        [],
     Define ''STDIN_FILENO'' (Some 0),
     Define ''STDOUT_FILENO'' (Some 1),
     Define ''STDERR_FILENO'' (Some 2),
     Include ''sys/null.h'',
     Proto ''_exit'' T_void [T_int] False None,
     Proto ''access'' T_int [Ptr (Const T_char), T_int] False None,
     Proto ''alarm'' T_unsigned [T_unsigned] False None,
     Proto ''chdir'' T_int [Ptr (Const T_char)] False None,
     Proto ''check_if_ancestor'' T_u8 [Named ''pid_t'', Named ''pid_t''] False None,
     Cond (OrC (Defined ''_POSIX_C_SOURCE'') (Defined ''_XOPEN_SOURCE''))
        [Proto ''chown'' T_int [Ptr (Const T_char), Named ''uid_t'', Named ''gid_t''] False (Some ''__posix_chown'')]
        [Proto ''chown'' T_int [Ptr (Const T_char), Named ''uid_t'', Named ''gid_t''] False None],
     Proto ''close'' T_int [T_int] False None,
     Proto ''confstr'' (Named ''size_t'') [T_int, Ptr T_char, Named ''size_t''] False None,
     Proto ''copy_to_clipboard'' T_u32 [Ptr T_char, T_u32] False None,
     Cond (NotC (Defined ''__CUSERID_DECLARED''))
        [Define ''__CUSERID_DECLARED'' None,
         Proto ''cuserid'' (Ptr T_char) [Ptr T_char] False None]
        [],
     Proto ''dup'' T_int [T_int] False None,
     Proto ''dup2'' T_int [T_int, T_int] False None,
     Proto ''execl'' T_int [Ptr (Const T_char), Ptr (Const T_char)] True None,
     Proto ''execle'' T_int [Ptr (Const T_char), Ptr (Const T_char)] True None,
     Proto ''execlp'' T_int [Ptr (Const T_char), Ptr (Const T_char)] True None,
     Proto ''execv'' T_int [Ptr (Const T_char), Ptr (Const (Ptr T_char))] False None,
     Proto ''execve'' T_int [Ptr (Const T_char), Ptr (Const (Ptr T_char)), Ptr (Const (Ptr T_char))] False None,
     Proto ''execvp'' T_int [Ptr (Const T_char), Ptr (Const (Ptr T_char))] False None,
     Proto ''fork'' (Named ''pid_t'') [] False None,
     Proto ''fpathconf'' T_long [T_int, T_int] False None,
     Cond (IsZero ''__SSP_FORTIFY_LEVEL'')
        [Proto ''getcwd'' (Ptr T_char) [Ptr T_char, Named ''size_t''] False None]
        [],
     Proto ''getegid'' (Named ''gid_t'') [] False None,
     Proto ''geteuid'' (Named ''uid_t'') [] False None,
     Proto ''getgid'' (Named ''gid_t'') [] False None,
     Proto ''getgroups'' T_int [T_int, Ptr (Named ''gid_t'')] False None,
     Proto ''getlogin'' (Ptr T_char) [] False None,
     Proto ''getlogin_r'' T_int [Ptr T_char, Named ''size_t''] False None,
     Proto ''getpgrp'' (Named ''pid_t'') [] False None,
     Proto ''getpid'' (Named ''pid_t'') [] False None,
     Proto ''getppid'' (Named ''pid_t'') [] False None,
     Proto ''getuid'' (Named ''uid_t'') [] False None,
     Proto ''isatty'' T_int [T_int] False None,
     Proto ''link'' T_int [Ptr (Const T_char), Ptr (Const T_char)] False None,
     Proto ''pathconf'' T_long [Ptr (Const T_char), T_int] False None,
     Proto ''pause'' T_int [] False None,
     Proto ''paste_from_clipboard'' T_u32 [T_u32, Ptr T_char, T_u32] False None,
     Proto ''pipe'' T_int [Ptr T_int] False None,
     Cond (IsZero ''__SSP_FORTIFY_LEVEL'')
        [Proto ''read'' (Named ''ssize_t'') [T_int, Ptr T_void, Named ''size_t''] False None]
        [],
     Proto ''rmdir'' T_int [Ptr (Const T_char)] False None,
     Proto ''setgid'' T_int [Named ''gid_t''] False None,
     Proto ''setpgid'' T_int [Named ''pid_t'', Named ''pid_t''] False None,
     Proto ''setsid'' (Named ''pid_t'') [] False None,
     Proto ''setuid'' T_int [Named ''uid_t''] False None,
     Proto ''sleep'' T_unsigned [T_unsigned] False None,
     Proto ''sysconf'' T_long [T_int] False None,
     Proto ''tcgetpgrp'' (Named ''pid_t'') [T_int] False None,
     Proto ''tcsetpgrp'' T_int [T_int, Named ''pid_t''] False None,
     Proto ''ttyname'' (Ptr T_char) [T_int] False None]"

definition unistd_get_1 :: "item list" where
  "unistd_get_1 =
    [Define ''_UNISTD_H_'' None,
     Include ''machine/ansi.h'',
     Include ''machine/int_types.h'',
     Include ''sys/cdefs.h'',
     Include ''sys/featuretest.h'',
     Include ''sys/types.h'',
     Include ''sys/unistd.h'',
     Cond (AtLeast ''_FORTIFY_SOURCE'' 1)
        [Include ''ssp/unistd.h'']
        [],
     Define ''STDIN_FILENO'' (Some 0),
     Define ''STDOUT_FILENO'' (Some 1),
     Define ''STDERR_FILENO'' (Some 2),
     Include ''sys/null.h'',
     Proto ''_exit'' T_void [T_int] False None,
     Proto ''access'' T_int [Ptr (Const T_char), T_int] False None,
     Proto ''alarm'' T_unsigned [T_unsigned] False None,
     Proto ''chdir'' T_int [Ptr (Const T_char)] False None,
     Cond (OrC (Defined ''_POSIX_C_SOURCE'') (Defined ''_XOPEN_SOURCE''))
        [Proto ''chown'' T_int [Ptr (Const T_char), Named ''uid_t'', Named ''gid_t''] False (Some ''__posix_chown'')]
        [Proto ''chown'' T_int [Ptr (Const T_char), Named ''uid_t'', Named ''gid_t''] False None],
     Proto ''close'' T_int [T_int] False None,
     Proto ''confstr'' (Named ''size_t'') [T_int, Ptr T_char, Named ''size_t''] False None,
     Cond (NotC (Defined ''__CUSERID_DECLARED''))
        [Define ''__CUSERID_DECLARED'' None,
         Proto ''cuserid'' (Ptr T_char) [Ptr T_char] False None]
        [],
     Proto ''dup'' T_int [T_int] False None,
     Proto ''dup2'' T_int [T_int, T_int] False None,
     Proto ''execl'' T_int [Ptr (Const T_char), Ptr (Const T_char)] True None,
     Proto ''execle'' T_int [Ptr (Const T_char), Ptr (Const T_char)] True None,
     Proto ''execlp'' T_int [Ptr (Const T_char), Ptr (Const T_char)] True None,
     Proto ''execv'' T_int [Ptr (Const T_char), Ptr (Const (Ptr T_char))] False None,
     Proto ''execve'' T_int [Ptr (Const T_char), Ptr (Const (Ptr T_char)), Ptr (Const (Ptr T_char))] False None,
     Proto ''execvp'' T_int [Ptr (Const T_char), Ptr (Const (Ptr T_char))] False None,
     Proto ''fork'' (Named ''pid_t'') [] False None,
     Proto ''fpathconf'' T_long [T_int, T_int] False None,
     Cond (IsZero ''__SSP_FORTIFY_LEVEL'')
        [Proto ''getcwd'' (Ptr T_char) [Ptr T_char, Named ''size_t''] False None]
        [],
     Proto ''getegid'' (Named ''gid_t'') [] False None,
     Proto ''geteuid'' (Named ''uid_t'') [] False None,
     Proto ''getgid'' (Named ''gid_t'') [] False None,
     Proto ''getgroups'' T_int [T_int, Ptr (Named ''gid_t'')] False None,
     Proto ''getlogin'' (Ptr T_char) [] False None,
     Proto ''getlogin_r'' T_int [Ptr T_char, Named ''size_t''] False None,
     Proto ''getpgrp'' (Named ''pid_t'') [] False None,
     Proto ''getpid'' (Named ''pid_t'') [] False None,
     Proto ''getppid'' (Named ''pid_t'') [] False None,
     Proto ''getuid'' (Named ''uid_t'') [] False None,
     Proto ''isatty'' T_int [T_int] False None,
     Proto ''link'' T_int [Ptr (Const T_char), Ptr (Const T_char)] False None,
     Proto ''pathconf'' T_long [Ptr (Const T_char), T_int] False None,
     Proto ''pause'' T_int [] False None,
     Proto ''pipe'' T_int [Ptr T_int] False None,
     Cond (IsZero ''__SSP_FORTIFY_LEVEL'')
        [Proto ''read'' (Named ''ssize_t'') [T_int, Ptr T_void, Named ''size_t''] False None]
        [],
     Proto ''rmdir'' T_int [Ptr (Const T_char)] False None,
     Proto ''setgid'' T_int [Named ''gid_t''] False None,
     Proto ''setpgid'' T_int [Named ''pid_t'', Named ''pid_t''] False None,
     Proto ''setsid'' (Named ''pid_t'') [] False None,
     Proto ''setuid'' T_int [Named ''uid_t''] False None,
     Proto ''sleep'' T_unsigned [T_unsigned] False None,
     Proto ''sysconf'' T_long [T_int] False None,
     Proto ''tcgetpgrp'' (Named ''pid_t'') [T_int] False None,
     Proto ''tcsetpgrp'' T_int [T_int, Named ''pid_t''] False None,
     Proto ''ttyname'' (Ptr T_char) [T_int] False None]"

definition unistd_2 :: "item list" where
  "unistd_2 =
    [Proto ''unlink'' T_int [Ptr (Const T_char)] False None,
     Proto ''write'' (Named ''ssize_t'') [T_int, Ptr (Const T_void), Named ''size_t''] False None,
     Cond (OrC (OrC (AtLeast ''_POSIX_C_SOURCE'' 2) (Defined ''_XOPEN_SOURCE'')) (Defined ''_NETBSD_SOURCE''))
        [Proto ''getopt'' T_int [T_int, Ptr (Const (Ptr T_char)), Ptr (Const T_char)] False None,
         Var ''optarg'' (Ptr T_char),
         Var ''opterr'' T_int,
         Var ''optind'' T_int,
         Var ''optopt'' T_int]
        [],
     Cond (OrC (OrC (AtLeast ''_POSIX_C_SOURCE'' 200112) (AtLeast ''_XOPEN_SOURCE'' 600)) (Defined ''_NETBSD_SOURCE''))
        [Proto ''setegid'' T_int [Named ''gid_t''] False None,
         Proto ''seteuid'' T_int [Named ''uid_t''] False None]
        [],
     Cond (NotC (Defined ''__OFF_T_SYSCALLS_DECLARED''))
        [Define ''__OFF_T_SYSCALLS_DECLARED'' None,
         Proto ''lseek'' (Named ''off_t'') [T_int, Named ''off_t'', T_int] False None,
         Proto ''truncate'' T_int [Ptr (Const T_char), Named ''off_t''] False None,
         Cond (OrC (OrC (OrC (AtLeast ''_POSIX_C_SOURCE'' 199309) (AndC (Defined ''_XOPEN_SOURCE'') (Defined ''_XOPEN_SOURCE_EXTENDED''))) (AtLeast ''_XOPEN_SOURCE'' 500)) (Defined ''_NETBSD_SOURCE''))
            [Proto ''ftruncate'' T_int [T_int, Named ''off_t''] False None]
            []]
        [],
     Cond (OrC (OrC (AtLeast ''_POSIX_C_SOURCE'' 199309) (AtLeast ''_XOPEN_SOURCE'' 500)) (Defined ''_NETBSD_SOURCE''))
        [Cond (NotC (Defined ''__minix''))
            [Proto ''fdatasync'' T_int [T_int] False None]
            [],
         Proto ''fsync'' T_int [T_int] False None]
        [],
     Cond (OrC (OrC (OrC (AtLeast ''_POSIX_C_SOURCE'' 199506) (AtLeast ''_XOPEN_SOURCE'' 500)) (Defined ''_REENTRANT'')) (Defined ''_NETBSD_SOURCE''))
        [Proto ''ttyname_r'' T_int [T_int, Ptr T_char, Named ''size_t''] False None,
         Proto ''pthread_atfork'' T_int [Handler, Handler, Handler] False None]
        [],
     Cond (OrC (Defined ''_XOPEN_SOURCE'') (Defined ''_NETBSD_SOURCE''))
        [Proto ''chroot'' T_int [Ptr (Const T_char)] False None,
         Proto ''nice'' T_int [T_int] False None]
        [],
     Cond (OrC (Defined ''_XOPEN_SOURCE'') (Defined ''_NETBSD_SOURCE''))
        [Proto ''crypt'' (Ptr T_char) [Ptr (Const T_char), Ptr (Const T_char)] False None,
         Proto ''encrypt'' T_int [Ptr T_char, T_int] False None,
         Proto ''getpass'' (Ptr T_char) [Ptr (Const T_char)] False None,
         Proto ''getsid'' (Named ''pid_t'') [Named ''pid_t''] False None]
        []]"

definition unistd_3 :: "item list" where
  "unistd_3 =
    [Cond (OrC (OrC (AndC (Defined ''_XOPEN_SOURCE'') (Defined ''_XOPEN_SOURCE_EXTENDED'')) (AtLeast ''_XOPEN_SOURCE'' 500)) (Defined ''_NETBSD_SOURCE''))
        [Cond (NotC (Defined ''intptr_t''))
            [Typedef ''intptr_t'' (Named ''__intptr_t''),
             Define ''intptr_t'' None]
            [],
         Define ''F_ULOCK'' (Some 0),
         Define ''F_LOCK'' (Some 1),
         Define ''F_TLOCK'' (Some 2),
         Define ''F_TEST'' (Some 3),
         Proto ''brk'' T_int [Ptr T_void] False None,
         Proto ''fchdir'' T_int [T_int] False None,
         Cond (Defined ''_XOPEN_SOURCE'')
            [Proto ''fchown'' T_int [T_int, Named ''uid_t'', Named ''gid_t''] False (Some ''__posix_fchown'')]
            [Proto ''fchown'' T_int [T_int, Named ''uid_t'', Named ''gid_t''] False None],
         Proto ''getdtablesize'' T_int [] False None,
         Proto ''gethostid'' T_long [] False None,
         Proto ''gethostname'' T_int [Ptr T_char, Named ''size_t''] False None,
         Proto ''getpagesize'' T_int [] False None,
         Cond (NotC (Defined ''__minix''))
            [Proto ''getpgid'' (Named ''pid_t'') [Named ''pid_t''] False None]
            [],
         Cond (Defined ''_XOPEN_SOURCE'')
            [Proto ''lchown'' T_int [Ptr (Const T_char), Named ''uid_t'', Named ''gid_t''] False (Some ''__posix_lchown'')]
            [Proto ''lchown'' T_int [Ptr (Const T_char), Named ''uid_t'', Named ''gid_t''] False None],
         Proto ''lockf'' T_int [T_int, T_int, Named ''off_t''] False None,
         Cond (IsZero ''__SSP_FORTIFY_LEVEL'')
            [Proto ''readlink'' (Named ''ssize_t'') [Ptr (Const T_char), Ptr T_char, Named ''size_t''] False None]
            [],
         Proto ''sbrk'' (Ptr T_void) [Named ''intptr_t''] False None,
         Proto ''setpgrp'' T_int [Named ''pid_t'', Named ''pid_t''] False None,
         Cond (NotC (Defined ''__minix''))
            [Proto ''setregid'' T_int [Named ''gid_t'', Named ''gid_t''] False None,
             Proto ''setreuid'' T_int [Named ''uid_t'', Named ''uid_t''] False None]
            [],
         Proto ''swab'' T_void [Ptr (Const T_void), Ptr T_void, Named ''ssize_t''] False None,
         Proto ''symlink'' T_int [Ptr (Const T_char), Ptr (Const T_char)] False None,
         Proto ''sync'' T_void [] False None,
         Proto ''ualarm'' (Named ''useconds_t'') [Named ''useconds_t'', Named ''useconds_t''] False None,
         Proto ''usleep'' T_int [Named ''useconds_t''] False None,
         Cond (NotC (Defined ''__LIBC12_SOURCE__''))
            [Proto ''vfork'' (Named ''pid_t'') [] False (Some ''__vfork14'')]
            [],
         Cond (NotC (Defined ''__AUDIT__''))
            [Proto ''getwd'' (Ptr T_char) [Ptr T_char] False None]
            []]
        [],
     Cond (OrC (AtLeast ''_XOPEN_SOURCE'' 500) (Defined ''_NETBSD_SOURCE''))
        [Proto ''pread'' (Named ''ssize_t'') [T_int, Ptr T_void, Named ''size_t'', Named ''off_t''] False None,
         Proto ''pwrite'' (Named ''ssize_t'') [T_int, Ptr (Const T_void), Named ''size_t'', Named ''off_t''] False None]
        [],
     Cond (OrC (OrC (OrC (AtLeast ''_POSIX_C_SOURCE'' 200809) (AtLeast ''_XOPEN_SOURCE'' 700)) (Defined ''_INCOMPLETE_XOPEN_C063'')) (Defined ''_NETBSD_SOURCE''))
        [Proto ''linkat'' T_int [T_int, Ptr (Const T_char), T_int, Ptr (Const T_char), T_int] False None,
         Proto ''renameat'' T_int [T_int, Ptr (Const T_char), T_int, Ptr (Const T_char)] False None,
         Proto ''faccessat'' T_int [T_int, Ptr (Const T_char), T_int, T_int] False None,
         Proto ''fchownat'' T_int [T_int, Ptr (Const T_char), Named ''uid_t'', Named ''gid_t'', T_int] False None,
         Proto ''readlinkat'' T_int [T_int, Ptr (Const T_char), Ptr T_char, Named ''size_t''] False None,
         Proto ''symlinkat'' T_int [Ptr (Const T_char), T_int, Ptr (Const T_char)] False None,
         Proto ''unlinkat'' T_int [T_int, Ptr (Const T_char), T_int] False None]
        [],
     Cond (Defined ''_INCOMPLETE_XOPEN_C063'')
        [Proto ''fexecve'' T_int [T_int, Ptr (Const (Ptr T_char)), Ptr (Const (Ptr T_char))] False None]
        []]"

definition unistd_4 :: "item list" where
  "unistd_4 =
    [Cond (Defined ''_NETBSD_SOURCE'')
        [Cond (NotC (Defined ''__minix''))
            [Proto ''acct'' T_int [Ptr (Const T_char)] False None]
            [],
         Proto ''closefrom'' T_int [T_int] False None,
         Proto ''des_cipher'' T_int [Ptr (Const T_char), Ptr T_char, T_long, T_int] False None,
         Proto ''des_setkey'' T_int [Ptr (Const T_char)] False None,
         Proto ''dup3'' T_int [T_int, T_int, T_int] False None,
         Proto ''endusershell'' T_void [] False None,
         Proto ''exect'' T_int [Ptr (Const T_char), Ptr (Const (Ptr T_char)), Ptr (Const (Ptr T_char))] False None,
         Proto ''fchroot'' T_int [T_int] False None,
         Proto ''fsync_range'' T_int [T_int, T_int, Named ''off_t'', Named ''off_t''] False None,
         Proto ''getdomainname'' T_int [Ptr T_char, Named ''size_t''] False None,
         Proto ''getgrouplist'' T_int [Ptr (Const T_char), Named ''gid_t'', Ptr (Named ''gid_t''), Ptr T_int] False None,
         Proto ''getgroupmembership'' T_int [Ptr (Const T_char), Named ''gid_t'', Ptr (Named ''gid_t''), T_int, Ptr T_int] False None,
         Proto ''getmode'' (Named ''mode_t'') [Ptr (Const T_void), Named ''mode_t''] False None,
         Proto ''getpassfd'' (Ptr T_char) [Ptr (Const T_char), Ptr T_char, Named ''size_t'', Ptr T_int, T_int, T_int] False None,
         Define ''GETPASS_NEED_TTY'' (Some 1),
         Define ''GETPASS_FAIL_EOF'' (Some 2),
         Define ''GETPASS_BUF_LIMIT'' (Some 4),
         Define ''GETPASS_NO_SIGNAL'' (Some 8),
         Define ''GETPASS_NO_BEEP'' (Some 16),
         Define ''GETPASS_ECHO'' (Some 32),
         Define ''GETPASS_ECHO_STAR'' (Some 64),
         Define ''GETPASS_7BIT'' (Some 128),
         Define ''GETPASS_FORCE_LOWER'' (Some 256),
         Define ''GETPASS_FORCE_UPPER'' (Some 512),
         Define ''GETPASS_ECHO_NL'' (Some 1024),
         Proto ''getpass_r'' (Ptr T_char) [Ptr (Const T_char), Ptr T_char, Named ''size_t''] False None,
         Proto ''getpeereid'' T_int [T_int, Ptr (Named ''uid_t''), Ptr (Named ''gid_t'')] False None,
         Proto ''getsubopt'' T_int [Ptr (Ptr T_char), Ptr (Const (Ptr T_char)), Ptr (Ptr T_char)] False None,
         Proto ''getusershell'' (Ptr T_char) [] False None,
         Proto ''initgroups'' T_int [Ptr (Const T_char), Named ''gid_t''] False None,
         Proto ''iruserok'' T_int [T_u32, T_int, Ptr (Const T_char), Ptr (Const T_char)] False None,
         Proto ''issetugid'' T_int [] False None,
         Proto ''nfssvc'' T_int [T_int, Ptr T_void] False None,
         Proto ''pipe2'' T_int [Ptr T_int, T_int] False None,
         Cond (NotC (Defined ''__minix''))
            [Proto ''profil'' T_int [Ptr T_char, Named ''size_t'', Named ''u_long'', Named ''u_int''] False None]
            [],
         Cond (NotC (Defined ''__PSIGNAL_DECLARED''))
            [Define ''__PSIGNAL_DECLARED'' None,
             Proto ''psignal'' T_void [T_int, Ptr (Const T_char)] False None]
            [],
         Proto ''rcmd'' T_int [Ptr (Ptr T_char), T_int, Ptr (Const T_char), Ptr (Const T_char), Ptr (Const T_char), Ptr T_int] False None,
         Proto ''reboot'' T_int [T_int, Ptr T_char] False None,
         Cond (NotC (Defined ''__minix''))
            [Proto ''revoke'' T_int [Ptr (Const T_char)] False None]
            [],
         Proto ''rresvport'' T_int [Ptr T_int] False None,
         Proto ''ruserok'' T_int [Ptr (Const T_char), T_int, Ptr (Const T_char), Ptr (Const T_char)] False None,
         Proto ''setdomainname'' T_int [Ptr (Const T_char), Named ''size_t''] False None,
         Proto ''setgroups'' T_int [T_int, Ptr (Const (Named ''gid_t''))] False None,
         Proto ''sethostid'' T_int [T_long] False None,
         Proto ''sethostname'' T_int [Ptr (Const T_char), Named ''size_t''] False None,
         Proto ''setlogin'' T_int [Ptr (Const T_char)] False None,
         Proto ''setmode'' (Ptr T_void) [Ptr (Const T_char)] False None,
         Proto ''setrgid'' T_int [Named ''gid_t''] False None,
         Proto ''setruid'' T_int [Named ''uid_t''] False None,
         Proto ''setusershell'' T_void [] False None,
         Proto ''strmode'' T_void [Named ''mode_t'', Ptr T_char] False None,
         Cond (NotC (Defined ''__STRSIGNAL_DECLARED''))
            [Define ''__STRSIGNAL_DECLARED'' None,
             Proto ''strsignal'' (Ptr T_char) [T_int] False None]
            [],
         Cond (NotC (Defined ''__minix''))
            [Proto ''swapctl'' T_int [T_int, Ptr T_void, T_int] False None,
             Proto ''swapon'' T_int [Ptr (Const T_char)] False None]
            [],
         Proto ''syscall'' T_int [T_int] True None,
         Proto ''__syscall'' (Named ''quad_t'') [Named ''quad_t''] True None,
         Proto ''undelete'' T_int [Ptr (Const T_char)] False None,
         Cond (Always)
            [Proto ''rcmd_af'' T_int [Ptr (Ptr T_char), T_int, Ptr (Const T_char), Ptr (Const T_char), Ptr (Const T_char), Ptr T_int, T_int] False None,
             Proto ''rresvport_af'' T_int [Ptr T_int, T_int] False None,
             Proto ''rresvport_af_addr'' T_int [Ptr T_int, T_int, Ptr T_void] False None,
             Proto ''iruserok_sa'' T_int [Ptr (Const T_void), T_int, T_int, Ptr (Const T_char), Ptr (Const T_char)] False None]
            [],
         Cond (NotC (Defined ''__SYS_SIGLIST_DECLARED''))
            [Define ''__SYS_SIGLIST_DECLARED'' None,
             Var ''sys_siglist'' (Ptr (Const (Ptr (Const T_char))))]
            [],
         Var ''optreset'' T_int,
         Var ''suboptarg'' (Ptr T_char)]
        []]"


definition unistd :: "item list" where
  "unistd = [Cond (NotC (Defined ''_UNISTD_H_'')) (unistd_1 @ unistd_2 @ unistd_3 @ unistd_4) []]"

definition unistd_get :: "item list" where
  "unistd_get = [Cond (NotC (Defined ''_UNISTD_H_'')) (unistd_get_1 @ unistd_2 @ unistd_3 @ unistd_4) []]"

text \<open>The heads of the definitions in \<open>lib/libc/misc\<close>, and what \<open>test/compress.h\<close> declares.\<close>

definition libc_functions :: "item list" where
  "libc_functions =
    [Proto ''check_if_ancestor'' T_u8 [Named ''pid_t'', Named ''pid_t''] False None,
     Proto ''copy_to_clipboard'' T_u32 [Ptr T_char, T_u32] False None,
     Proto ''paste_from_clipboard'' T_u32 [T_u32, Ptr T_char, T_u32] False None]"

definition compress_externs :: "item list" where
  "compress_externs =
    [Proto ''copy_to_clipboard'' T_int [Ptr (Const T_char), T_u32] False None,
     Proto ''paste_from_clipboard'' T_u32 [T_u32, Ptr T_char, Ptr T_u32] False None]"

section \<open>Preprocessing\<close>

lemma preprocess_append:
  "preprocess inc (xs @ ys) e =
    (let (ds, e) = preprocess inc xs e; (ds', e) = preprocess inc ys e in (ds @ ds', e))"
  by (induction inc xs e rule: preprocess.induct) (simp_all add: Let_def split: prod.splits del: fun_upd_apply)

text \<open>Once defined a macro stays defined, if the included headers do not undefine it.\<close>

lemma preprocess_keeps:
  assumes "\<And>f e. e m \<noteq> None \<Longrightarrow> inc f e m \<noteq> None"
  shows "e m \<noteq> None \<Longrightarrow> snd (preprocess inc xs e) m \<noteq> None"
  using assms by (induction inc xs e rule: preprocess.induct) (auto simp: Let_def split: prod.splits)

text \<open>Further prototypes are seen where they stand, and nothing else changes.\<close>

lemma preprocess_three:
  "\<exists>ds1 ds2 ds3 ds4 e'.
    preprocess inc (as @ Proto n1 r1 ps1 v1 rn1 # bs @ Proto n2 r2 ps2 v2 rn2 # cs @ Proto n3 r3 ps3 v3 rn3 # fs) e
      = (ds1 @ Proto n1 r1 ps1 v1 rn1 # ds2 @ Proto n2 r2 ps2 v2 rn2 # ds3 @ Proto n3 r3 ps3 v3 rn3 # ds4, e')
    \<and> preprocess inc (as @ bs @ cs @ fs) e = (ds1 @ ds2 @ ds3 @ ds4, e')"
proof -
  obtain ds1 e1 where 1: "preprocess inc as e = (ds1, e1)" by fastforce
  obtain ds2 e2 where 2: "preprocess inc bs e1 = (ds2, e2)" by fastforce
  obtain ds3 e3 where 3: "preprocess inc cs e2 = (ds3, e3)" by fastforce
  obtain ds4 e4 where 4: "preprocess inc fs e3 = (ds4, e4)" by fastforce
  show ?thesis
    by (intro exI [of _ ds1] exI [of _ ds2] exI [of _ ds3] exI [of _ ds4] exI [of _ e4])
      (simp add: preprocess_append 1 2 3 4)
qed

lemma unistd_1_split:
  "unistd_1 = take 16 unistd_get_1 @ libc_functions ! 0 # take 3 (drop 16 unistd_get_1) @ libc_functions ! 1
    # take 26 (drop 19 unistd_get_1) @ libc_functions ! 2 # drop 45 unistd_get_1"
  by (simp add: unistd_1_def unistd_get_1_def libc_functions_def)

lemma unistd_get_1_split:
  "unistd_get_1 = take 16 unistd_get_1 @ take 3 (drop 16 unistd_get_1) @ take 26 (drop 19 unistd_get_1) @ drop 45 unistd_get_1"
  by (simp add: unistd_get_1_def)

section \<open>Properties\<close>

text \<open>C39: Whatever macros are set, a compilation sees of the patched header what it saw of the old one, in the same order
  and with the same macros defined after it, and in addition exactly the three new functions, with the types of
  their definitions; none of them depends on a feature macro, so they are also in the name space of
  programs that ask for a standard.\<close>

theorem unistd_extended:
  "if e ''_UNISTD_H_'' \<noteq> None then preprocess inc unistd e = ([], e) \<and> preprocess inc unistd_get e = ([], e)
   else \<exists>ds1 ds2 ds3 ds4 e'.
     preprocess inc unistd e =
       (ds1 @ libc_functions ! 0 # ds2 @ libc_functions ! 1 # ds3 @ libc_functions ! 2 # ds4, e')
     \<and> preprocess inc unistd_get e = (ds1 @ ds2 @ ds3 @ ds4, e')"
proof -
  let ?a = "take 16 unistd_get_1" and ?b = "take 3 (drop 16 unistd_get_1)" and ?c = "take 26 (drop 19 unistd_get_1)"
  let ?d = "drop 45 unistd_get_1 @ unistd_2 @ unistd_3 @ unistd_4"
  have new: "unistd_1 @ unistd_2 @ unistd_3 @ unistd_4 =
      ?a @ libc_functions ! 0 # ?b @ libc_functions ! 1 # ?c @ libc_functions ! 2 # ?d"
    by (subst unistd_1_split) simp
  have old: "unistd_get_1 @ unistd_2 @ unistd_3 @ unistd_4 = ?a @ ?b @ ?c @ ?d"
    by (subst unistd_get_1_split) simp
  have fns: "libc_functions ! 0 = Proto ''check_if_ancestor'' T_u8 [Named ''pid_t'', Named ''pid_t''] False None"
    "libc_functions ! 1 = Proto ''copy_to_clipboard'' T_u32 [Ptr T_char, T_u32] False None"
    "libc_functions ! 2 = Proto ''paste_from_clipboard'' T_u32 [T_u32, Ptr T_char, T_u32] False None"
    by (simp_all add: libc_functions_def)
  have "\<exists>ds1 ds2 ds3 ds4 e'.
     preprocess inc (unistd_1 @ unistd_2 @ unistd_3 @ unistd_4) e =
       (ds1 @ libc_functions ! 0 # ds2 @ libc_functions ! 1 # ds3 @ libc_functions ! 2 # ds4, e')
     \<and> preprocess inc (unistd_get_1 @ unistd_2 @ unistd_3 @ unistd_4) e = (ds1 @ ds2 @ ds3 @ ds4, e')"
    unfolding new old unfolding fns by (rule preprocess_three)
  then show ?thesis by (auto simp: unistd_def unistd_get_def)
qed

text \<open>Including the header twice is including it once, when the headers it includes leave its guard alone.\<close>

theorem unistd_guarded:
  assumes "\<And>f e. e ''_UNISTD_H_'' \<noteq> None \<Longrightarrow> inc f e ''_UNISTD_H_'' \<noteq> None"
  shows "preprocess inc (unistd @ unistd) e = preprocess inc unistd e
    \<and> snd (preprocess inc unistd e) ''_UNISTD_H_'' \<noteq> None"
proof -
  obtain rest where u: "unistd_1 @ unistd_2 @ unistd_3 @ unistd_4 = Define ''_UNISTD_H_'' None # rest"
    by (simp add: unistd_1_def)
  have "(e(''_UNISTD_H_'' \<mapsto> 0)) ''_UNISTD_H_'' \<noteq> None" by simp
  then have "snd (preprocess inc rest (e(''_UNISTD_H_'' \<mapsto> 0))) ''_UNISTD_H_'' \<noteq> None"
    by (rule preprocess_keeps [rotated]) (rule assms)
  then have guard: "snd (preprocess inc unistd e) ''_UNISTD_H_'' \<noteq> None"
    by (simp add: unistd_def u split: prod.split)
  have "preprocess inc unistd e' = ([], e')" if "e' ''_UNISTD_H_'' \<noteq> None" for e'
    using that by (auto simp: unistd_def)
  from this [of "snd (preprocess inc unistd e)"] guard show ?thesis
    by (simp add: preprocess_append Let_def case_prod_beta)
qed

theorem unistd_guarded_witness:
  "preprocess (\<lambda>f e. e) (unistd @ unistd) Map.empty = preprocess (\<lambda>f e. e) unistd Map.empty"
  using unistd_guarded [of "\<lambda>f e. e" Map.empty] by blast

text \<open>The test library \<open>compress.c\<close> was not written against the functions the header declares: both its declarations of
  the clipboard functions have other types, and for the paste it passes the address of a length where the
  library expects the length.\<close>

theorem compress_externs_clash:
  "\<forall>d\<in>set compress_externs. d \<notin> set libc_functions
    \<and> (\<exists>n r ps r' ps'. d = Proto n r ps False None \<and> Proto n r' ps' False None \<in> set libc_functions)"
  by (simp add: compress_externs_def libc_functions_def)

end
