(* ===== verification/System_Tables.thy ===== *)
theory System_Tables
  imports Prelude
begin

unbundle bit_operations_syntax

text \<open>
  The tables of the system the patch extends: the call numbers of PM and VFS in
  \<open>include/minix/callnr.h\<close>, PM's table of handlers in \<open>servers/pm/table.c\<close>, and the device numbers in
  \<open>include/minix/dmap.h\<close>.  The directory \<open>get\<close> holds the files before the patch, \<open>new\<close> those after it;
  definitions with the suffix \<open>_get\<close> are of the former.
\<close>

section \<open>Call numbers\<close>

definition PM_BASE :: nat where
  "PM_BASE = 0x000"

definition VFS_BASE :: nat where
  "VFS_BASE = 0x100"

definition NR_PM_CALLS :: nat where
  "NR_PM_CALLS = 49"

definition NR_PM_CALLS_get :: nat where
  "NR_PM_CALLS_get = 48"

definition NR_VFS_CALLS :: nat where
  "NR_VFS_CALLS = 49"

datatype pm_call =
    PM_EXIT | PM_FORK | PM_WAITPID | PM_GETPID | PM_SETUID | PM_GETUID | PM_STIME | PM_PTRACE |
    PM_SETGROUPS | PM_GETGROUPS | PM_KILL | PM_SETGID | PM_GETGID | PM_EXEC | PM_SETSID |
    PM_GETPGRP | PM_ITIMER | PM_GETMCONTEXT | PM_SETMCONTEXT | PM_SIGACTION | PM_SIGSUSPEND |
    PM_SIGPENDING | PM_SIGPROCMASK | PM_SIGRETURN | PM_SYSUNAME | PM_GETPRIORITY |
    PM_SETPRIORITY | PM_GETTIMEOFDAY | PM_SETEUID | PM_SETEGID | PM_ISSETUGID | PM_GETSID |
    PM_CLOCK_GETRES | PM_CLOCK_GETTIME | PM_CLOCK_SETTIME | PM_GETRUSAGE | PM_REBOOT |
    PM_SVRCTL | PM_SPROF | PM_CPROF | PM_SRV_FORK | PM_SRV_KILL | PM_EXEC_NEW |
    PM_EXEC_RESTART | PM_GETEPINFO | PM_GETPROCNR | PM_GETSYSINFO | PM_CHECKANCESTOR

datatype vfs_call =
    VFS_READ | VFS_WRITE | VFS_LSEEK | VFS_OPEN | VFS_CREAT | VFS_CLOSE | VFS_LINK |
    VFS_UNLINK | VFS_CHDIR | VFS_MKDIR | VFS_MKNOD | VFS_CHMOD | VFS_CHOWN | VFS_MOUNT |
    VFS_UMOUNT | VFS_ACCESS | VFS_SYNC | VFS_RENAME | VFS_RMDIR | VFS_SYMLINK | VFS_READLINK |
    VFS_STAT | VFS_FSTAT | VFS_LSTAT | VFS_IOCTL | VFS_FCNTL | VFS_PIPE2 | VFS_UMASK |
    VFS_CHROOT | VFS_GETDENTS | VFS_SELECT | VFS_FCHDIR | VFS_FSYNC | VFS_TRUNCATE |
    VFS_FTRUNCATE | VFS_FCHMOD | VFS_FCHOWN | VFS_UTIMENS | VFS_VMCALL | VFS_GETVFSSTAT |
    VFS_STATVFS1 | VFS_FSTATVFS1 | VFS_GETRUSAGE | VFS_SVRCTL | VFS_GCOV_FLUSH |
    VFS_MAPDRIVER | VFS_COPYFD | VFS_CHECKPERMS | VFS_GETSYSINFO

fun pm_number :: "pm_call \<Rightarrow> nat" where
  "pm_number PM_EXIT = PM_BASE + 1"
| "pm_number PM_FORK = PM_BASE + 2"
| "pm_number PM_WAITPID = PM_BASE + 3"
| "pm_number PM_GETPID = PM_BASE + 4"
| "pm_number PM_SETUID = PM_BASE + 5"
| "pm_number PM_GETUID = PM_BASE + 6"
| "pm_number PM_STIME = PM_BASE + 7"
| "pm_number PM_PTRACE = PM_BASE + 8"
| "pm_number PM_SETGROUPS = PM_BASE + 9"
| "pm_number PM_GETGROUPS = PM_BASE + 10"
| "pm_number PM_KILL = PM_BASE + 11"
| "pm_number PM_SETGID = PM_BASE + 12"
| "pm_number PM_GETGID = PM_BASE + 13"
| "pm_number PM_EXEC = PM_BASE + 14"
| "pm_number PM_SETSID = PM_BASE + 15"
| "pm_number PM_GETPGRP = PM_BASE + 16"
| "pm_number PM_ITIMER = PM_BASE + 17"
| "pm_number PM_GETMCONTEXT = PM_BASE + 18"
| "pm_number PM_SETMCONTEXT = PM_BASE + 19"
| "pm_number PM_SIGACTION = PM_BASE + 20"
| "pm_number PM_SIGSUSPEND = PM_BASE + 21"
| "pm_number PM_SIGPENDING = PM_BASE + 22"
| "pm_number PM_SIGPROCMASK = PM_BASE + 23"
| "pm_number PM_SIGRETURN = PM_BASE + 24"
| "pm_number PM_SYSUNAME = PM_BASE + 25"
| "pm_number PM_GETPRIORITY = PM_BASE + 26"
| "pm_number PM_SETPRIORITY = PM_BASE + 27"
| "pm_number PM_GETTIMEOFDAY = PM_BASE + 28"
| "pm_number PM_SETEUID = PM_BASE + 29"
| "pm_number PM_SETEGID = PM_BASE + 30"
| "pm_number PM_ISSETUGID = PM_BASE + 31"
| "pm_number PM_GETSID = PM_BASE + 32"
| "pm_number PM_CLOCK_GETRES = PM_BASE + 33"
| "pm_number PM_CLOCK_GETTIME = PM_BASE + 34"
| "pm_number PM_CLOCK_SETTIME = PM_BASE + 35"
| "pm_number PM_GETRUSAGE = PM_BASE + 36"
| "pm_number PM_REBOOT = PM_BASE + 37"
| "pm_number PM_SVRCTL = PM_BASE + 38"
| "pm_number PM_SPROF = PM_BASE + 39"
| "pm_number PM_CPROF = PM_BASE + 40"
| "pm_number PM_SRV_FORK = PM_BASE + 41"
| "pm_number PM_SRV_KILL = PM_BASE + 42"
| "pm_number PM_EXEC_NEW = PM_BASE + 43"
| "pm_number PM_EXEC_RESTART = PM_BASE + 44"
| "pm_number PM_GETEPINFO = PM_BASE + 45"
| "pm_number PM_GETPROCNR = PM_BASE + 46"
| "pm_number PM_GETSYSINFO = PM_BASE + 47"
| "pm_number PM_CHECKANCESTOR = PM_BASE + 48"

text \<open>Before the patch there was no call \<open>PM_CHECKANCESTOR\<close>.\<close>

fun pm_number_get :: "pm_call \<Rightarrow> nat option" where
  "pm_number_get PM_EXIT = Some (PM_BASE + 1)"
| "pm_number_get PM_FORK = Some (PM_BASE + 2)"
| "pm_number_get PM_WAITPID = Some (PM_BASE + 3)"
| "pm_number_get PM_GETPID = Some (PM_BASE + 4)"
| "pm_number_get PM_SETUID = Some (PM_BASE + 5)"
| "pm_number_get PM_GETUID = Some (PM_BASE + 6)"
| "pm_number_get PM_STIME = Some (PM_BASE + 7)"
| "pm_number_get PM_PTRACE = Some (PM_BASE + 8)"
| "pm_number_get PM_SETGROUPS = Some (PM_BASE + 9)"
| "pm_number_get PM_GETGROUPS = Some (PM_BASE + 10)"
| "pm_number_get PM_KILL = Some (PM_BASE + 11)"
| "pm_number_get PM_SETGID = Some (PM_BASE + 12)"
| "pm_number_get PM_GETGID = Some (PM_BASE + 13)"
| "pm_number_get PM_EXEC = Some (PM_BASE + 14)"
| "pm_number_get PM_SETSID = Some (PM_BASE + 15)"
| "pm_number_get PM_GETPGRP = Some (PM_BASE + 16)"
| "pm_number_get PM_ITIMER = Some (PM_BASE + 17)"
| "pm_number_get PM_GETMCONTEXT = Some (PM_BASE + 18)"
| "pm_number_get PM_SETMCONTEXT = Some (PM_BASE + 19)"
| "pm_number_get PM_SIGACTION = Some (PM_BASE + 20)"
| "pm_number_get PM_SIGSUSPEND = Some (PM_BASE + 21)"
| "pm_number_get PM_SIGPENDING = Some (PM_BASE + 22)"
| "pm_number_get PM_SIGPROCMASK = Some (PM_BASE + 23)"
| "pm_number_get PM_SIGRETURN = Some (PM_BASE + 24)"
| "pm_number_get PM_SYSUNAME = Some (PM_BASE + 25)"
| "pm_number_get PM_GETPRIORITY = Some (PM_BASE + 26)"
| "pm_number_get PM_SETPRIORITY = Some (PM_BASE + 27)"
| "pm_number_get PM_GETTIMEOFDAY = Some (PM_BASE + 28)"
| "pm_number_get PM_SETEUID = Some (PM_BASE + 29)"
| "pm_number_get PM_SETEGID = Some (PM_BASE + 30)"
| "pm_number_get PM_ISSETUGID = Some (PM_BASE + 31)"
| "pm_number_get PM_GETSID = Some (PM_BASE + 32)"
| "pm_number_get PM_CLOCK_GETRES = Some (PM_BASE + 33)"
| "pm_number_get PM_CLOCK_GETTIME = Some (PM_BASE + 34)"
| "pm_number_get PM_CLOCK_SETTIME = Some (PM_BASE + 35)"
| "pm_number_get PM_GETRUSAGE = Some (PM_BASE + 36)"
| "pm_number_get PM_REBOOT = Some (PM_BASE + 37)"
| "pm_number_get PM_SVRCTL = Some (PM_BASE + 38)"
| "pm_number_get PM_SPROF = Some (PM_BASE + 39)"
| "pm_number_get PM_CPROF = Some (PM_BASE + 40)"
| "pm_number_get PM_SRV_FORK = Some (PM_BASE + 41)"
| "pm_number_get PM_SRV_KILL = Some (PM_BASE + 42)"
| "pm_number_get PM_EXEC_NEW = Some (PM_BASE + 43)"
| "pm_number_get PM_EXEC_RESTART = Some (PM_BASE + 44)"
| "pm_number_get PM_GETEPINFO = Some (PM_BASE + 45)"
| "pm_number_get PM_GETPROCNR = Some (PM_BASE + 46)"
| "pm_number_get PM_GETSYSINFO = Some (PM_BASE + 47)"
| "pm_number_get PM_CHECKANCESTOR = None"

fun vfs_number :: "vfs_call \<Rightarrow> nat" where
  "vfs_number VFS_READ = VFS_BASE + 0"
| "vfs_number VFS_WRITE = VFS_BASE + 1"
| "vfs_number VFS_LSEEK = VFS_BASE + 2"
| "vfs_number VFS_OPEN = VFS_BASE + 3"
| "vfs_number VFS_CREAT = VFS_BASE + 4"
| "vfs_number VFS_CLOSE = VFS_BASE + 5"
| "vfs_number VFS_LINK = VFS_BASE + 6"
| "vfs_number VFS_UNLINK = VFS_BASE + 7"
| "vfs_number VFS_CHDIR = VFS_BASE + 8"
| "vfs_number VFS_MKDIR = VFS_BASE + 9"
| "vfs_number VFS_MKNOD = VFS_BASE + 10"
| "vfs_number VFS_CHMOD = VFS_BASE + 11"
| "vfs_number VFS_CHOWN = VFS_BASE + 12"
| "vfs_number VFS_MOUNT = VFS_BASE + 13"
| "vfs_number VFS_UMOUNT = VFS_BASE + 14"
| "vfs_number VFS_ACCESS = VFS_BASE + 15"
| "vfs_number VFS_SYNC = VFS_BASE + 16"
| "vfs_number VFS_RENAME = VFS_BASE + 17"
| "vfs_number VFS_RMDIR = VFS_BASE + 18"
| "vfs_number VFS_SYMLINK = VFS_BASE + 19"
| "vfs_number VFS_READLINK = VFS_BASE + 20"
| "vfs_number VFS_STAT = VFS_BASE + 21"
| "vfs_number VFS_FSTAT = VFS_BASE + 22"
| "vfs_number VFS_LSTAT = VFS_BASE + 23"
| "vfs_number VFS_IOCTL = VFS_BASE + 24"
| "vfs_number VFS_FCNTL = VFS_BASE + 25"
| "vfs_number VFS_PIPE2 = VFS_BASE + 26"
| "vfs_number VFS_UMASK = VFS_BASE + 27"
| "vfs_number VFS_CHROOT = VFS_BASE + 28"
| "vfs_number VFS_GETDENTS = VFS_BASE + 29"
| "vfs_number VFS_SELECT = VFS_BASE + 30"
| "vfs_number VFS_FCHDIR = VFS_BASE + 31"
| "vfs_number VFS_FSYNC = VFS_BASE + 32"
| "vfs_number VFS_TRUNCATE = VFS_BASE + 33"
| "vfs_number VFS_FTRUNCATE = VFS_BASE + 34"
| "vfs_number VFS_FCHMOD = VFS_BASE + 35"
| "vfs_number VFS_FCHOWN = VFS_BASE + 36"
| "vfs_number VFS_UTIMENS = VFS_BASE + 37"
| "vfs_number VFS_VMCALL = VFS_BASE + 38"
| "vfs_number VFS_GETVFSSTAT = VFS_BASE + 39"
| "vfs_number VFS_STATVFS1 = VFS_BASE + 40"
| "vfs_number VFS_FSTATVFS1 = VFS_BASE + 41"
| "vfs_number VFS_GETRUSAGE = VFS_BASE + 42"
| "vfs_number VFS_SVRCTL = VFS_BASE + 43"
| "vfs_number VFS_GCOV_FLUSH = VFS_BASE + 44"
| "vfs_number VFS_MAPDRIVER = VFS_BASE + 45"
| "vfs_number VFS_COPYFD = VFS_BASE + 46"
| "vfs_number VFS_CHECKPERMS = VFS_BASE + 47"
| "vfs_number VFS_GETSYSINFO = VFS_BASE + 48"

fun vfs_number_get :: "vfs_call \<Rightarrow> nat" where
  "vfs_number_get VFS_READ = VFS_BASE + 0"
| "vfs_number_get VFS_WRITE = VFS_BASE + 1"
| "vfs_number_get VFS_LSEEK = VFS_BASE + 2"
| "vfs_number_get VFS_OPEN = VFS_BASE + 3"
| "vfs_number_get VFS_CREAT = VFS_BASE + 4"
| "vfs_number_get VFS_CLOSE = VFS_BASE + 5"
| "vfs_number_get VFS_LINK = VFS_BASE + 6"
| "vfs_number_get VFS_UNLINK = VFS_BASE + 7"
| "vfs_number_get VFS_CHDIR = VFS_BASE + 8"
| "vfs_number_get VFS_MKDIR = VFS_BASE + 9"
| "vfs_number_get VFS_MKNOD = VFS_BASE + 10"
| "vfs_number_get VFS_CHMOD = VFS_BASE + 11"
| "vfs_number_get VFS_CHOWN = VFS_BASE + 12"
| "vfs_number_get VFS_MOUNT = VFS_BASE + 13"
| "vfs_number_get VFS_UMOUNT = VFS_BASE + 14"
| "vfs_number_get VFS_ACCESS = VFS_BASE + 15"
| "vfs_number_get VFS_SYNC = VFS_BASE + 16"
| "vfs_number_get VFS_RENAME = VFS_BASE + 17"
| "vfs_number_get VFS_RMDIR = VFS_BASE + 18"
| "vfs_number_get VFS_SYMLINK = VFS_BASE + 19"
| "vfs_number_get VFS_READLINK = VFS_BASE + 20"
| "vfs_number_get VFS_STAT = VFS_BASE + 21"
| "vfs_number_get VFS_FSTAT = VFS_BASE + 22"
| "vfs_number_get VFS_LSTAT = VFS_BASE + 23"
| "vfs_number_get VFS_IOCTL = VFS_BASE + 24"
| "vfs_number_get VFS_FCNTL = VFS_BASE + 25"
| "vfs_number_get VFS_PIPE2 = VFS_BASE + 26"
| "vfs_number_get VFS_UMASK = VFS_BASE + 27"
| "vfs_number_get VFS_CHROOT = VFS_BASE + 28"
| "vfs_number_get VFS_GETDENTS = VFS_BASE + 29"
| "vfs_number_get VFS_SELECT = VFS_BASE + 30"
| "vfs_number_get VFS_FCHDIR = VFS_BASE + 31"
| "vfs_number_get VFS_FSYNC = VFS_BASE + 32"
| "vfs_number_get VFS_TRUNCATE = VFS_BASE + 33"
| "vfs_number_get VFS_FTRUNCATE = VFS_BASE + 34"
| "vfs_number_get VFS_FCHMOD = VFS_BASE + 35"
| "vfs_number_get VFS_FCHOWN = VFS_BASE + 36"
| "vfs_number_get VFS_UTIMENS = VFS_BASE + 37"
| "vfs_number_get VFS_VMCALL = VFS_BASE + 38"
| "vfs_number_get VFS_GETVFSSTAT = VFS_BASE + 39"
| "vfs_number_get VFS_STATVFS1 = VFS_BASE + 40"
| "vfs_number_get VFS_FSTATVFS1 = VFS_BASE + 41"
| "vfs_number_get VFS_GETRUSAGE = VFS_BASE + 42"
| "vfs_number_get VFS_SVRCTL = VFS_BASE + 43"
| "vfs_number_get VFS_GCOV_FLUSH = VFS_BASE + 44"
| "vfs_number_get VFS_MAPDRIVER = VFS_BASE + 45"
| "vfs_number_get VFS_COPYFD = VFS_BASE + 46"
| "vfs_number_get VFS_CHECKPERMS = VFS_BASE + 47"
| "vfs_number_get VFS_GETSYSINFO = VFS_BASE + 48"

text \<open>The macros mask the low byte of the message type.\<close>

definition IS_PM_CALL :: "u32 \<Rightarrow> bool" where
  "IS_PM_CALL ty \<longleftrightarrow> ty AND NOT 0xff = of_nat PM_BASE"

definition IS_VFS_CALL :: "u32 \<Rightarrow> bool" where
  "IS_VFS_CALL ty \<longleftrightarrow> ty AND NOT 0xff = of_nat VFS_BASE"

section \<open>The handlers of PM\<close>

datatype pm_handler =
    Do_exit | Do_fork | Do_waitpid | Do_get | Do_set | Do_stime | Do_trace | Do_kill |
    Do_exec | Do_itimer | Do_getmcontext | Do_setmcontext | Do_sigaction | Do_sigsuspend |
    Do_sigpending | Do_sigprocmask | Do_sigreturn | Do_sysuname | Do_getsetpriority | Do_time |
    Do_getres | Do_gettime | Do_settime | Do_getrusage | Do_reboot | Do_svrctl | Do_sprofile |
    Do_cprofile | Do_srv_fork | Do_srv_kill | Do_newexec | Do_execrestart | Do_getepinfo |
    Do_getprocnr | Do_getsysinfo | Do_checkifancestor

text \<open>The designated initialisers, in the order of the source.\<close>

definition initialisers_get :: "(pm_call \<times> pm_handler) list" where
  "initialisers_get =
    [
     (PM_EXIT, Do_exit), (PM_FORK, Do_fork), (PM_WAITPID, Do_waitpid), (PM_GETPID, Do_get),
     (PM_SETUID, Do_set), (PM_GETUID, Do_get), (PM_STIME, Do_stime), (PM_PTRACE, Do_trace),
     (PM_SETGROUPS, Do_set), (PM_GETGROUPS, Do_get), (PM_KILL, Do_kill), (PM_SETGID, Do_set),
     (PM_GETGID, Do_get), (PM_EXEC, Do_exec), (PM_SETSID, Do_set), (PM_GETPGRP, Do_get),
     (PM_ITIMER, Do_itimer), (PM_GETMCONTEXT, Do_getmcontext),
     (PM_SETMCONTEXT, Do_setmcontext), (PM_SIGACTION, Do_sigaction),
     (PM_SIGSUSPEND, Do_sigsuspend), (PM_SIGPENDING, Do_sigpending),
     (PM_SIGPROCMASK, Do_sigprocmask), (PM_SIGRETURN, Do_sigreturn),
     (PM_SYSUNAME, Do_sysuname), (PM_GETPRIORITY, Do_getsetpriority),
     (PM_SETPRIORITY, Do_getsetpriority), (PM_GETTIMEOFDAY, Do_time), (PM_SETEUID, Do_set),
     (PM_SETEGID, Do_set), (PM_ISSETUGID, Do_get), (PM_GETSID, Do_get),
     (PM_CLOCK_GETRES, Do_getres), (PM_CLOCK_GETTIME, Do_gettime),
     (PM_CLOCK_SETTIME, Do_settime), (PM_GETRUSAGE, Do_getrusage), (PM_REBOOT, Do_reboot),
     (PM_SVRCTL, Do_svrctl), (PM_SPROF, Do_sprofile), (PM_CPROF, Do_cprofile),
     (PM_SRV_FORK, Do_srv_fork), (PM_SRV_KILL, Do_srv_kill), (PM_EXEC_NEW, Do_newexec),
     (PM_EXEC_RESTART, Do_execrestart), (PM_GETEPINFO, Do_getepinfo),
     (PM_GETPROCNR, Do_getprocnr), (PM_GETSYSINFO, Do_getsysinfo)]"

definition initialisers :: "(pm_call \<times> pm_handler) list" where
  "initialisers =
    [
     (PM_EXIT, Do_exit), (PM_FORK, Do_fork), (PM_WAITPID, Do_waitpid), (PM_GETPID, Do_get),
     (PM_SETUID, Do_set), (PM_GETUID, Do_get), (PM_STIME, Do_stime), (PM_PTRACE, Do_trace),
     (PM_SETGROUPS, Do_set), (PM_GETGROUPS, Do_get), (PM_KILL, Do_kill), (PM_SETGID, Do_set),
     (PM_GETGID, Do_get), (PM_EXEC, Do_exec), (PM_SETSID, Do_set), (PM_GETPGRP, Do_get),
     (PM_ITIMER, Do_itimer), (PM_GETMCONTEXT, Do_getmcontext),
     (PM_SETMCONTEXT, Do_setmcontext), (PM_SIGACTION, Do_sigaction),
     (PM_SIGSUSPEND, Do_sigsuspend), (PM_SIGPENDING, Do_sigpending),
     (PM_SIGPROCMASK, Do_sigprocmask), (PM_SIGRETURN, Do_sigreturn),
     (PM_SYSUNAME, Do_sysuname), (PM_GETPRIORITY, Do_getsetpriority),
     (PM_SETPRIORITY, Do_getsetpriority), (PM_GETTIMEOFDAY, Do_time), (PM_SETEUID, Do_set),
     (PM_SETEGID, Do_set), (PM_ISSETUGID, Do_get), (PM_GETSID, Do_get),
     (PM_CLOCK_GETRES, Do_getres), (PM_CLOCK_GETTIME, Do_gettime),
     (PM_CLOCK_SETTIME, Do_settime), (PM_GETRUSAGE, Do_getrusage), (PM_REBOOT, Do_reboot),
     (PM_SVRCTL, Do_svrctl), (PM_SPROF, Do_sprofile), (PM_CPROF, Do_cprofile),
     (PM_SRV_FORK, Do_srv_fork), (PM_SRV_KILL, Do_srv_kill), (PM_EXEC_NEW, Do_newexec),
     (PM_EXEC_RESTART, Do_execrestart), (PM_GETEPINFO, Do_getepinfo),
     (PM_GETPROCNR, Do_getprocnr), (PM_GETSYSINFO, Do_getsysinfo),
     (PM_CHECKANCESTOR, Do_checkifancestor)]"

text \<open>An array of function pointers: elements without initialiser are null.\<close>

definition fill_table :: "nat \<Rightarrow> (pm_call \<times> pm_handler) list \<Rightarrow> pm_handler option list" where
  "fill_table n ini = fold (\<lambda>(c, h) v. v[pm_number c - PM_BASE := Some h]) ini (replicate n None)"

definition call_vec :: "pm_handler option list" where
  "call_vec = fill_table NR_PM_CALLS initialisers"

definition call_vec_get :: "pm_handler option list" where
  "call_vec_get = fill_table NR_PM_CALLS_get initialisers_get"

section \<open>Device numbers\<close>

definition NR_DEVICES :: nat where
  "NR_DEVICES = 135"

definition NR_DEVICES_get :: nat where
  "NR_DEVICES_get = 134"

definition major_numbers :: "(string \<times> nat) list" where
  "major_numbers =
    [
     (''NONE_MAJOR'', 0), (''MEMORY_MAJOR'', 1), (''FLOPPY_MAJOR'', 2), (''TTY_MAJOR'', 4),
     (''CTTY_MAJOR'', 5), (''PRINTER_MAJOR'', 6), (''INET_MAJOR'', 7), (''PTY_MAJOR'', 9),
     (''FILTER_MAJOR'', 11), (''AUDIO_MAJOR'', 13), (''FBD_MAJOR'', 14), (''LOG_MAJOR'', 15),
     (''RANDOM_MAJOR'', 16), (''HELLO_MAJOR'', 17), (''UDS_MAJOR'', 18), (''FB_MAJOR'', 19),
     (''I2C0_MAJOR'', 20), (''I2C1_MAJOR'', 21), (''I2C2_MAJOR'', 22),
     (''EEPROMB1S50_MAJOR'', 23), (''EEPROMB1S51_MAJOR'', 24), (''EEPROMB1S52_MAJOR'', 25),
     (''EEPROMB1S53_MAJOR'', 26), (''EEPROMB1S54_MAJOR'', 27), (''EEPROMB1S55_MAJOR'', 28),
     (''EEPROMB1S56_MAJOR'', 29), (''EEPROMB1S57_MAJOR'', 30), (''EEPROMB2S50_MAJOR'', 31),
     (''EEPROMB2S51_MAJOR'', 32), (''EEPROMB2S52_MAJOR'', 33), (''EEPROMB2S53_MAJOR'', 34),
     (''EEPROMB2S54_MAJOR'', 35), (''EEPROMB2S55_MAJOR'', 36), (''EEPROMB2S56_MAJOR'', 37),
     (''EEPROMB2S57_MAJOR'', 38), (''EEPROMB3S50_MAJOR'', 39), (''EEPROMB3S51_MAJOR'', 40),
     (''EEPROMB3S52_MAJOR'', 41), (''EEPROMB3S53_MAJOR'', 42), (''EEPROMB3S54_MAJOR'', 43),
     (''EEPROMB3S55_MAJOR'', 44), (''EEPROMB3S56_MAJOR'', 45), (''EEPROMB3S57_MAJOR'', 46),
     (''TSL2550B1S39_MAJOR'', 47), (''TSL2550B2S39_MAJOR'', 48), (''TSL2550B3S39_MAJOR'', 49),
     (''SHT21B1S40_MAJOR'', 50), (''SHT21B2S40_MAJOR'', 51), (''SHT21B3S40_MAJOR'', 52),
     (''BMP085B1S77_MAJOR'', 53), (''BMP085B2S77_MAJOR'', 54), (''BMP085B3S77_MAJOR'', 55),
     (''INPUT_MAJOR'', 64), (''CLIPBOARD_MAJOR'', 65), (''USB_BASE_MAJOR'', 66)]"

definition major_numbers_get :: "(string \<times> nat) list" where
  "major_numbers_get =
    [
     (''NONE_MAJOR'', 0), (''MEMORY_MAJOR'', 1), (''FLOPPY_MAJOR'', 2), (''TTY_MAJOR'', 4),
     (''CTTY_MAJOR'', 5), (''PRINTER_MAJOR'', 6), (''INET_MAJOR'', 7), (''PTY_MAJOR'', 9),
     (''FILTER_MAJOR'', 11), (''AUDIO_MAJOR'', 13), (''FBD_MAJOR'', 14), (''LOG_MAJOR'', 15),
     (''RANDOM_MAJOR'', 16), (''HELLO_MAJOR'', 17), (''UDS_MAJOR'', 18), (''FB_MAJOR'', 19),
     (''I2C0_MAJOR'', 20), (''I2C1_MAJOR'', 21), (''I2C2_MAJOR'', 22),
     (''EEPROMB1S50_MAJOR'', 23), (''EEPROMB1S51_MAJOR'', 24), (''EEPROMB1S52_MAJOR'', 25),
     (''EEPROMB1S53_MAJOR'', 26), (''EEPROMB1S54_MAJOR'', 27), (''EEPROMB1S55_MAJOR'', 28),
     (''EEPROMB1S56_MAJOR'', 29), (''EEPROMB1S57_MAJOR'', 30), (''EEPROMB2S50_MAJOR'', 31),
     (''EEPROMB2S51_MAJOR'', 32), (''EEPROMB2S52_MAJOR'', 33), (''EEPROMB2S53_MAJOR'', 34),
     (''EEPROMB2S54_MAJOR'', 35), (''EEPROMB2S55_MAJOR'', 36), (''EEPROMB2S56_MAJOR'', 37),
     (''EEPROMB2S57_MAJOR'', 38), (''EEPROMB3S50_MAJOR'', 39), (''EEPROMB3S51_MAJOR'', 40),
     (''EEPROMB3S52_MAJOR'', 41), (''EEPROMB3S53_MAJOR'', 42), (''EEPROMB3S54_MAJOR'', 43),
     (''EEPROMB3S55_MAJOR'', 44), (''EEPROMB3S56_MAJOR'', 45), (''EEPROMB3S57_MAJOR'', 46),
     (''TSL2550B1S39_MAJOR'', 47), (''TSL2550B2S39_MAJOR'', 48), (''TSL2550B3S39_MAJOR'', 49),
     (''SHT21B1S40_MAJOR'', 50), (''SHT21B2S40_MAJOR'', 51), (''SHT21B3S40_MAJOR'', 52),
     (''BMP085B1S77_MAJOR'', 53), (''BMP085B2S77_MAJOR'', 54), (''BMP085B3S77_MAJOR'', 55),
     (''INPUT_MAJOR'', 64), (''USB_BASE_MAJOR'', 65)]"

definition CTRLR :: "nat \<Rightarrow> nat" where
  "CTRLR n = (if n = 0 then 3 else 8 + 2 * (n - 1))"

text \<open>The minor numbers of the memory driver and of the log driver, and the full numbers of two RAM disks.\<close>

definition memory_minors :: "(string \<times> nat) list" where
  "memory_minors =
    [(''RAM_DEV_OLD'', 0), (''MEM_DEV'', 1), (''KMEM_DEV'', 2), (''NULL_DEV'', 3), (''BOOT_DEV'', 4),
     (''ZERO_DEV'', 5), (''IMGRD_DEV'', 6), (''RAM_DEV_FIRST'', 7)]"

definition memory_minors_get :: "(string \<times> nat) list" where
  "memory_minors_get =
    [(''RAM_DEV_OLD'', 0), (''MEM_DEV'', 1), (''KMEM_DEV'', 2), (''NULL_DEV'', 3), (''BOOT_DEV'', 4),
     (''ZERO_DEV'', 5), (''IMGRD_DEV'', 6), (''RAM_DEV_FIRST'', 7)]"

definition IS_KLOG_DEV :: nat where
  "IS_KLOG_DEV = 0"

definition DEV_RAM :: nat where
  "DEV_RAM = 0x0100"

definition DEV_IMGRD :: nat where
  "DEV_IMGRD = 0x0106"

section \<open>The tables as arrays\<close>

lemmas table_defs = fill_table_def initialisers_def initialisers_get_def NR_PM_CALLS_def
  NR_PM_CALLS_get_def PM_BASE_def VFS_BASE_def NR_VFS_CALLS_def

lemma call_vec_list: "call_vec = None # map (Some \<circ> snd) initialisers"
  by (simp add: call_vec_def table_defs numeral_eq_Suc)

lemma call_vec_get_list: "call_vec_get = None # map (Some \<circ> snd) initialisers_get"
  by (simp add: call_vec_get_def table_defs numeral_eq_Suc)

lemma initialisers_extend: "initialisers = initialisers_get @ [(PM_CHECKANCESTOR, Do_checkifancestor)]"
  by (simp add: initialisers_def initialisers_get_def)

lemma pm_number_nth: "initialisers ! (pm_number c - 1) = (c, snd (initialisers ! (pm_number c - 1)))"
  by (cases c) (simp_all add: initialisers_def PM_BASE_def)

lemma inj_pm_number: "inj pm_number"
  using pm_number_nth by (intro injI) (metis fst_conv)

lemma vfs_number_nth:
  "
    [VFS_READ, VFS_WRITE, VFS_LSEEK, VFS_OPEN, VFS_CREAT, VFS_CLOSE, VFS_LINK, VFS_UNLINK,
     VFS_CHDIR, VFS_MKDIR, VFS_MKNOD, VFS_CHMOD, VFS_CHOWN, VFS_MOUNT, VFS_UMOUNT, VFS_ACCESS,
     VFS_SYNC, VFS_RENAME, VFS_RMDIR, VFS_SYMLINK, VFS_READLINK, VFS_STAT, VFS_FSTAT, VFS_LSTAT,
     VFS_IOCTL, VFS_FCNTL, VFS_PIPE2, VFS_UMASK, VFS_CHROOT, VFS_GETDENTS, VFS_SELECT, VFS_FCHDIR,
     VFS_FSYNC, VFS_TRUNCATE, VFS_FTRUNCATE, VFS_FCHMOD, VFS_FCHOWN, VFS_UTIMENS, VFS_VMCALL,
     VFS_GETVFSSTAT, VFS_STATVFS1, VFS_FSTATVFS1, VFS_GETRUSAGE, VFS_SVRCTL, VFS_GCOV_FLUSH,
     VFS_MAPDRIVER, VFS_COPYFD, VFS_CHECKPERMS, VFS_GETSYSINFO] ! (vfs_number v - VFS_BASE) = v"
  by (cases v) simp_all

lemma inj_vfs_number: "inj vfs_number"
  using vfs_number_nth by (intro injI) metis

text \<open>Calls are ordered by their numbers.\<close>

instantiation pm_call :: linorder
begin

definition less_eq_pm_call :: "pm_call \<Rightarrow> pm_call \<Rightarrow> bool" where
  "less_eq_pm_call c d \<longleftrightarrow> pm_number c \<le> pm_number d"

definition less_pm_call :: "pm_call \<Rightarrow> pm_call \<Rightarrow> bool" where
  "less_pm_call c d \<longleftrightarrow> pm_number c < pm_number d"

instance
  by standard (auto simp: less_eq_pm_call_def less_pm_call_def dest: injD [OF inj_pm_number])

end

section \<open>Properties\<close>

text \<open>C40: The patched table of PM has an element for each call number, the handler its initialiser names; the numbers
  are distinct, lie between 1 and 48 and are recognised as calls of PM and not of VFS, and those of VFS the other way round.  The initialisers
  are in the order of the numbers.  The patch adds exactly the last element, the ancestor check, and leaves the numbers and handlers of all other calls, those
  of VFS included, which are distinct too.\<close>

theorem pm_table_extended:
  "length call_vec = NR_PM_CALLS \<and> call_vec = call_vec_get @ [Some Do_checkifancestor]
    \<and> (\<forall>c. 0 < pm_number c \<and> pm_number c < NR_PM_CALLS
        \<and> call_vec ! pm_number c = Some (the (map_of initialisers c))
        \<and> IS_PM_CALL (of_nat (pm_number c)) \<and> \<not> IS_VFS_CALL (of_nat (pm_number c)))
    \<and> inj pm_number \<and> sorted (map fst initialisers)
    \<and> (\<forall>v. vfs_number v < VFS_BASE + NR_VFS_CALLS \<and> IS_VFS_CALL (of_nat (vfs_number v))
        \<and> \<not> IS_PM_CALL (of_nat (vfs_number v)))
    \<and> (\<forall>c. pm_number_get c = (if c = PM_CHECKANCESTOR then None else Some (pm_number c)))
    \<and> inj vfs_number \<and> (\<forall>v. vfs_number_get v = vfs_number v)"
proof (intro conjI allI)
  show "length call_vec = NR_PM_CALLS"
    by (simp add: call_vec_list initialisers_def NR_PM_CALLS_def)
  show "call_vec = call_vec_get @ [Some Do_checkifancestor]"
    by (simp add: call_vec_list call_vec_get_list initialisers_extend)
  show "inj pm_number" by (rule inj_pm_number)
  show "sorted (map fst initialisers)"
    by (simp add: initialisers_def less_eq_pm_call_def)
  show "inj vfs_number" by (rule inj_vfs_number)
  fix v
  show "vfs_number_get v = vfs_number v" by (cases v) simp_all
  show "vfs_number v < VFS_BASE + NR_VFS_CALLS"
    by (cases v; simp add: VFS_BASE_def NR_VFS_CALLS_def)
  show "IS_VFS_CALL (of_nat (vfs_number v))" and "\<not> IS_PM_CALL (of_nat (vfs_number v))"
    by (cases v; simp add: IS_PM_CALL_def IS_VFS_CALL_def PM_BASE_def VFS_BASE_def)+
next
  fix c
  show "0 < pm_number c" and "pm_number c < NR_PM_CALLS"
    by (cases c; simp add: PM_BASE_def NR_PM_CALLS_def)+
  show "call_vec ! pm_number c = Some (the (map_of initialisers c))"
    by (cases c) (simp_all add: call_vec_list initialisers_def PM_BASE_def)
  show "IS_PM_CALL (of_nat (pm_number c))" and "\<not> IS_VFS_CALL (of_nat (pm_number c))"
    by (cases c; simp add: IS_PM_CALL_def IS_VFS_CALL_def PM_BASE_def VFS_BASE_def)+
  show "pm_number_get c = (if c = PM_CHECKANCESTOR then None else Some (pm_number c))"
    by (cases c) simp_all
qed

text \<open>The patched table of major device numbers gives the clipboard the number 65, which was the first of the USB range,
  and moves the base of that range, without its size, by one; all numbers are distinct and below the number of
  devices, no other device changes, and the full numbers of the RAM disks agree with the major and minor ones.\<close>

theorem device_numbers_extended:
  "map_of major_numbers ''CLIPBOARD_MAJOR'' = Some 65
    \<and> map_of major_numbers_get ''USB_BASE_MAJOR'' = Some 65 \<and> map_of major_numbers ''USB_BASE_MAJOR'' = Some 66
    \<and> NR_DEVICES - 66 = NR_DEVICES_get - 65
    \<and> DEV_RAM = 256 * the (map_of major_numbers ''MEMORY_MAJOR'') + the (map_of memory_minors ''RAM_DEV_OLD'')
    \<and> DEV_IMGRD = 256 * the (map_of major_numbers ''MEMORY_MAJOR'') + the (map_of memory_minors ''IMGRD_DEV'')
    \<and> distinct (map snd major_numbers) \<and> list_all (\<lambda>(name, n). n < NR_DEVICES) major_numbers
    \<and> filter (\<lambda>(name, n). name \<notin> {''CLIPBOARD_MAJOR'', ''USB_BASE_MAJOR''}) major_numbers =
       filter (\<lambda>(name, n). name \<noteq> ''USB_BASE_MAJOR'') major_numbers_get
    \<and> memory_minors = memory_minors_get"
  by code_simp

end
