(* ===== verification/Pm_Proto.thy ===== *)
theory Pm_Proto
  imports Unistd System_Tables
begin

text \<open>
  The function prototypes of PM, \<open>servers/pm/proto.h\<close>, before and after the patch, and how they fit the table
  of handlers.
\<close>

section \<open>The header\<close>

definition pm_proto_get :: "item list" where
  "pm_proto_get =
    [Tag ''mproc'',
     Include ''minix/timers.h'',
     Proto ''do_itimer'' T_int [] False None,
     Proto ''set_alarm'' T_void [Ptr (Named ''struct mproc''), Named ''clock_t''] False None,
     Proto ''check_vtimer'' T_void [T_int, T_int] False None,
     Proto ''do_exec'' T_int [] False None,
     Proto ''do_newexec'' T_int [] False None,
     Proto ''do_execrestart'' T_int [] False None,
     Proto ''exec_restart'' T_void [Ptr (Named ''struct mproc''), T_int, Named ''vir_bytes'', Named ''vir_bytes'', Named ''vir_bytes''] False None,
     Proto ''do_fork'' T_int [] False None,
     Proto ''do_srv_fork'' T_int [] False None,
     Proto ''do_exit'' T_int [] False None,
     Proto ''exit_proc'' T_void [Ptr (Named ''struct mproc''), T_int, T_int] False None,
     Proto ''exit_restart'' T_void [Ptr (Named ''struct mproc''), T_int] False None,
     Proto ''do_waitpid'' T_int [] False None,
     Proto ''wait_test'' T_int [Ptr (Named ''struct mproc''), Ptr (Named ''struct mproc'')] False None,
     Proto ''do_get'' T_int [] False None,
     Proto ''do_set'' T_int [] False None,
     Proto ''main'' T_int [] False None,
     Proto ''reply'' T_void [T_int, T_int] False None,
     Proto ''do_getmcontext'' T_int [] False None,
     Proto ''do_setmcontext'' T_int [] False None,
     Proto ''do_reboot'' T_int [] False None,
     Proto ''do_sysuname'' T_int [] False None,
     Proto ''do_getsysinfo'' T_int [] False None,
     Proto ''do_getprocnr'' T_int [] False None,
     Proto ''do_getepinfo'' T_int [] False None,
     Proto ''do_svrctl'' T_int [] False None,
     Proto ''do_getsetpriority'' T_int [] False None,
     Proto ''do_getrusage'' T_int [] False None,
     Proto ''sched_init'' T_void [] False None,
     Proto ''sched_start_user'' T_int [Named ''endpoint_t'', Ptr (Named ''struct mproc'')] False None,
     Proto ''sched_nice'' T_int [Ptr (Named ''struct mproc''), T_int] False None,
     Proto ''do_sprofile'' T_int [] False None,
     Proto ''do_cprofile'' T_int [] False None,
     Proto ''do_kill'' T_int [] False None,
     Proto ''do_srv_kill'' T_int [] False None,
     Proto ''process_ksig'' T_int [Named ''endpoint_t'', T_int] False None,
     Proto ''check_sig'' T_int [Named ''pid_t'', T_int, T_int] False None,
     Proto ''sig_proc'' T_void [Ptr (Named ''struct mproc''), T_int, T_int, T_int] False None,
     Proto ''do_sigaction'' T_int [] False None,
     Proto ''do_sigpending'' T_int [] False None,
     Proto ''do_sigprocmask'' T_int [] False None,
     Proto ''do_sigreturn'' T_int [] False None,
     Proto ''do_sigsuspend'' T_int [] False None,
     Proto ''check_pending'' T_void [Ptr (Named ''struct mproc'')] False None,
     Proto ''restart_sigs'' T_void [Ptr (Named ''struct mproc'')] False None,
     Proto ''vm_notify_sig_wrapper'' T_void [Named ''endpoint_t''] False None,
     Proto ''do_stime'' T_int [] False None,
     Proto ''do_time'' T_int [] False None,
     Proto ''do_getres'' T_int [] False None,
     Proto ''do_gettime'' T_int [] False None,
     Proto ''do_settime'' T_int [] False None,
     Proto ''do_trace'' T_int [] False None,
     Proto ''trace_stop'' T_void [Ptr (Named ''struct mproc''), T_int] False None,
     Proto ''get_free_pid'' (Named ''pid_t'') [] False None,
     Proto ''find_param'' (Ptr T_char) [Ptr (Const T_char)] False None,
     Proto ''find_proc'' (Ptr (Named ''struct mproc'')) [Named ''pid_t''] False None,
     Proto ''nice_to_priority'' T_int [T_int, Ptr T_unsigned] False None,
     Proto ''pm_isokendpt'' T_int [T_int, Ptr T_int] False None,
     Proto ''tell_vfs'' T_void [Ptr (Named ''struct mproc''), Ptr (Named ''message'')] False None]"

definition pm_proto :: "item list" where
  "pm_proto =
    [Tag ''mproc'',
     Include ''minix/timers.h'',
     Proto ''do_itimer'' T_int [] False None,
     Proto ''set_alarm'' T_void [Ptr (Named ''struct mproc''), Named ''clock_t''] False None,
     Proto ''check_vtimer'' T_void [T_int, T_int] False None,
     Proto ''do_checkifancestor'' T_int [] False None,
     Proto ''do_exec'' T_int [] False None,
     Proto ''do_newexec'' T_int [] False None,
     Proto ''do_execrestart'' T_int [] False None,
     Proto ''exec_restart'' T_void [Ptr (Named ''struct mproc''), T_int, Named ''vir_bytes'', Named ''vir_bytes'', Named ''vir_bytes''] False None,
     Proto ''do_fork'' T_int [] False None,
     Proto ''do_srv_fork'' T_int [] False None,
     Proto ''do_exit'' T_int [] False None,
     Proto ''exit_proc'' T_void [Ptr (Named ''struct mproc''), T_int, T_int] False None,
     Proto ''exit_restart'' T_void [Ptr (Named ''struct mproc''), T_int] False None,
     Proto ''do_waitpid'' T_int [] False None,
     Proto ''wait_test'' T_int [Ptr (Named ''struct mproc''), Ptr (Named ''struct mproc'')] False None,
     Proto ''do_get'' T_int [] False None,
     Proto ''do_set'' T_int [] False None,
     Proto ''main'' T_int [] False None,
     Proto ''reply'' T_void [T_int, T_int] False None,
     Proto ''do_getmcontext'' T_int [] False None,
     Proto ''do_setmcontext'' T_int [] False None,
     Proto ''do_reboot'' T_int [] False None,
     Proto ''do_sysuname'' T_int [] False None,
     Proto ''do_getsysinfo'' T_int [] False None,
     Proto ''do_getprocnr'' T_int [] False None,
     Proto ''do_getepinfo'' T_int [] False None,
     Proto ''do_svrctl'' T_int [] False None,
     Proto ''do_getsetpriority'' T_int [] False None,
     Proto ''do_getrusage'' T_int [] False None,
     Proto ''sched_init'' T_void [] False None,
     Proto ''sched_start_user'' T_int [Named ''endpoint_t'', Ptr (Named ''struct mproc'')] False None,
     Proto ''sched_nice'' T_int [Ptr (Named ''struct mproc''), T_int] False None,
     Proto ''do_sprofile'' T_int [] False None,
     Proto ''do_cprofile'' T_int [] False None,
     Proto ''do_kill'' T_int [] False None,
     Proto ''do_srv_kill'' T_int [] False None,
     Proto ''process_ksig'' T_int [Named ''endpoint_t'', T_int] False None,
     Proto ''check_sig'' T_int [Named ''pid_t'', T_int, T_int] False None,
     Proto ''sig_proc'' T_void [Ptr (Named ''struct mproc''), T_int, T_int, T_int] False None,
     Proto ''do_sigaction'' T_int [] False None,
     Proto ''do_sigpending'' T_int [] False None,
     Proto ''do_sigprocmask'' T_int [] False None,
     Proto ''do_sigreturn'' T_int [] False None,
     Proto ''do_sigsuspend'' T_int [] False None,
     Proto ''check_pending'' T_void [Ptr (Named ''struct mproc'')] False None,
     Proto ''restart_sigs'' T_void [Ptr (Named ''struct mproc'')] False None,
     Proto ''vm_notify_sig_wrapper'' T_void [Named ''endpoint_t''] False None,
     Proto ''do_stime'' T_int [] False None,
     Proto ''do_time'' T_int [] False None,
     Proto ''do_getres'' T_int [] False None,
     Proto ''do_gettime'' T_int [] False None,
     Proto ''do_settime'' T_int [] False None,
     Proto ''do_trace'' T_int [] False None,
     Proto ''trace_stop'' T_void [Ptr (Named ''struct mproc''), T_int] False None,
     Proto ''get_free_pid'' (Named ''pid_t'') [] False None,
     Proto ''find_param'' (Ptr T_char) [Ptr (Const T_char)] False None,
     Proto ''find_proc'' (Ptr (Named ''struct mproc'')) [Named ''pid_t''] False None,
     Proto ''nice_to_priority'' T_int [T_int, Ptr T_unsigned] False None,
     Proto ''pm_isokendpt'' T_int [T_int, Ptr T_int] False None,
     Proto ''tell_vfs'' T_void [Ptr (Named ''struct mproc''), Ptr (Named ''message'')] False None]"

text \<open>The C functions behind the names of the table, and the names a header declares.\<close>

fun handler_symbol :: "pm_handler \<Rightarrow> string" where
  "handler_symbol Do_exit = ''do_exit''"
| "handler_symbol Do_fork = ''do_fork''"
| "handler_symbol Do_waitpid = ''do_waitpid''"
| "handler_symbol Do_get = ''do_get''"
| "handler_symbol Do_set = ''do_set''"
| "handler_symbol Do_stime = ''do_stime''"
| "handler_symbol Do_trace = ''do_trace''"
| "handler_symbol Do_kill = ''do_kill''"
| "handler_symbol Do_exec = ''do_exec''"
| "handler_symbol Do_itimer = ''do_itimer''"
| "handler_symbol Do_getmcontext = ''do_getmcontext''"
| "handler_symbol Do_setmcontext = ''do_setmcontext''"
| "handler_symbol Do_sigaction = ''do_sigaction''"
| "handler_symbol Do_sigsuspend = ''do_sigsuspend''"
| "handler_symbol Do_sigpending = ''do_sigpending''"
| "handler_symbol Do_sigprocmask = ''do_sigprocmask''"
| "handler_symbol Do_sigreturn = ''do_sigreturn''"
| "handler_symbol Do_sysuname = ''do_sysuname''"
| "handler_symbol Do_getsetpriority = ''do_getsetpriority''"
| "handler_symbol Do_time = ''do_time''"
| "handler_symbol Do_getres = ''do_getres''"
| "handler_symbol Do_gettime = ''do_gettime''"
| "handler_symbol Do_settime = ''do_settime''"
| "handler_symbol Do_getrusage = ''do_getrusage''"
| "handler_symbol Do_reboot = ''do_reboot''"
| "handler_symbol Do_svrctl = ''do_svrctl''"
| "handler_symbol Do_sprofile = ''do_sprofile''"
| "handler_symbol Do_cprofile = ''do_cprofile''"
| "handler_symbol Do_srv_fork = ''do_srv_fork''"
| "handler_symbol Do_srv_kill = ''do_srv_kill''"
| "handler_symbol Do_newexec = ''do_newexec''"
| "handler_symbol Do_execrestart = ''do_execrestart''"
| "handler_symbol Do_getepinfo = ''do_getepinfo''"
| "handler_symbol Do_getprocnr = ''do_getprocnr''"
| "handler_symbol Do_getsysinfo = ''do_getsysinfo''"
| "handler_symbol Do_checkifancestor = ''do_checkifancestor''"

definition handler_proto :: "pm_handler \<Rightarrow> item" where
  "handler_proto h = Proto (handler_symbol h) T_int [] False None"

fun declared :: "item list \<Rightarrow> string list" where
  "declared [] = []"
| "declared (Proto n r ps v rn # ds) = n # declared ds"
| "declared (d # ds) = declared ds"

text \<open>The header has no conditions: what a compilation sees are its declarations.\<close>

definition declarations :: "item list \<Rightarrow> item list" where
  "declarations = filter (\<lambda>d. case d of Include f \<Rightarrow> False | _ \<Rightarrow> True)"

lemma proto_seen:
  "fst (preprocess inc pm_proto e) = declarations pm_proto"
  "fst (preprocess inc pm_proto_get e) = declarations pm_proto_get"
  by (simp_all add: pm_proto_def pm_proto_get_def declarations_def case_prod_beta)

lemma handlers_called: "Some h \<in> set call_vec"
  by (cases h) (simp_all add: call_vec_list initialisers_def)

lemma handlers_declared: "handler_proto h \<in> set (declarations pm_proto)"
  by (cases h) (simp_all add: handler_proto_def declarations_def pm_proto_def)

lemma declared_names:
  "filter (\<lambda>n. take 3 n = ''do_'') (declared (declarations pm_proto)) = map handler_symbol
    [Do_itimer, Do_checkifancestor, Do_exec, Do_newexec, Do_execrestart, Do_fork, Do_srv_fork,
     Do_exit, Do_waitpid, Do_get, Do_set, Do_getmcontext, Do_setmcontext, Do_reboot, Do_sysuname,
     Do_getsysinfo, Do_getprocnr, Do_getepinfo, Do_svrctl, Do_getsetpriority, Do_getrusage,
     Do_sprofile, Do_cprofile, Do_kill, Do_srv_kill, Do_sigaction, Do_sigpending, Do_sigprocmask,
     Do_sigreturn, Do_sigsuspend, Do_stime, Do_time, Do_getres, Do_gettime, Do_settime, Do_trace]"
  by code_simp

lemma handler_names:
  "set (filter (\<lambda>n. take 3 n = ''do_'') (declared (declarations pm_proto))) = range handler_symbol"
proof
  show "set (filter (\<lambda>n. take 3 n = ''do_'') (declared (declarations pm_proto))) \<subseteq> range handler_symbol"
    unfolding declared_names set_map by blast
  show "range handler_symbol \<subseteq> set (filter (\<lambda>n. take 3 n = ''do_'') (declared (declarations pm_proto)))"
  proof
    fix n assume "n \<in> range handler_symbol"
    then obtain h where "n = handler_symbol h" by blast
    then show "n \<in> set (filter (\<lambda>n. take 3 n = ''do_'') (declared (declarations pm_proto)))"
      unfolding declared_names set_map by (cases h) simp_all
  qed
qed

lemma names_distinct: "distinct (declared (declarations pm_proto))"
  by code_simp

lemma proto_extends:
  "declarations pm_proto_get =
     filter (\<lambda>d. d \<noteq> handler_proto Do_checkifancestor) (declarations pm_proto)"
  by code_simp

section \<open>Properties\<close>

text \<open>The patched header declares every function of PM's table of handlers exactly once, without parameters and with
  an \<open>int\<close> result as the table needs it, and every handler it declares is called by the table; the patch adds exactly the
  declaration of the ancestor check.\<close>

theorem pm_proto_declares:
  "(\<forall>h. handler_proto h \<in> set (fst (preprocess inc pm_proto e)) \<and> Some h \<in> set call_vec)
    \<and> distinct (declared (fst (preprocess inc pm_proto e)))
    \<and> set (filter (\<lambda>n. take 3 n = ''do_'') (declared (fst (preprocess inc pm_proto e)))) = range handler_symbol
    \<and> fst (preprocess inc pm_proto_get e) =
       filter (\<lambda>d. d \<noteq> handler_proto Do_checkifancestor) (fst (preprocess inc pm_proto e))"
  unfolding proto_seen using handlers_declared handlers_called names_distinct handler_names proto_extends by blast

end
