(* ===== verification/Spec2Isabelle.thy ===== *)
theory Spec2Isabelle
  imports Served_Theorems Abandoned_Locks Fork_Test Asm_Tester Clipboard_Log Pm_Proto
begin

text \<open>
  A model of a clipboard service for MINIX 3, with the theorems that make it correct.

  The program.  Processes exchange short texts through a character device.  The library functions
  \<open>copy_to_clipboard\<close> and \<open>paste_from_clipboard\<close> (\<open>new/usr/src/lib/libc/misc/copy_paste_clipboard.c\<close>) talk to
  the driver (\<open>new/usr/src/minix/drivers/examples/clipboard/bw386389.c\<close>) through \<open>read\<close> and \<open>write\<close>: a \<open>write\<close> is a
  message whose size tells its kind, a \<open>read\<close> carries its request in the size.  A text is stored in one of 100
  entries, whose free indices are kept on a stack (\<open>stack.c\<close>); it is locked before it is taken, and only
  descendants of the process that copied it may do that, which the library asks the process manager
  (\<open>servers/pm/do_check_if_ancestor.c\<close>).  The driver runs in the main loop of MINIX's framework for character drivers
  (\<open>lib/libchardriver/chardriver.c\<close>) and is updated without losing the texts.  A test library
  (\<open>test/compress.c\<close>) compresses and enciphers texts before it copies them, to the device or to a clipboard of its
  own (\<open>test/asm/clipboard.c\<close>).  The directories \<open>get\<close> and \<open>new\<close> hold the system's files before and after the patch
  that installs all this.

  Theories, from the bottom.
  \<^item> \<open>Prelude\<close>: machine types, outcomes of C code (a value, or a fault: a failed assertion, an access outside an
    array or block, a bad pointer or \<open>free\<close>, a division by zero, a panic, or a call that waits for ever), arrays, loops over indices.
  \<^item> \<open>Stack\<close> (\<open>stack.h\<close>, \<open>stack.c\<close>): the stack with its absolute pointer; locale \<open>bounded_stack\<close>.
  \<^item> \<open>CHeap\<close>: \<open>malloc\<close>, \<open>free\<close>, \<open>memcpy\<close>; locale \<open>allocator\<close>.
  \<^item> \<open>Protocol\<close> (\<open>clipboard_protocol.h\<close>): encoded requests, and messages with their layout in memory.
  \<^item> \<open>Clipboard\<close>, \<open>Device_IO\<close> (\<open>bw386389.h\<close>, \<open>bw386389.c\<close>): entries, storing, locking, taking, and the handlers
    \<open>clipboard_read\<close> and \<open>clipboard_write\<close> as a step relation \<open>serves\<close> with its reachable states.
  \<^item> \<open>Clipboard_Spec\<close>: the invariant \<open>wf_driver\<close>, the abstract clipboard \<open>board_of\<close> (a map from identifiers to
    texts with owner, expanded length and lock), and the refinement of each operation.
  \<^item> \<open>Device_Port\<close>: the device as a process sees it; locale \<open>clipboard_device\<close> and its extension \<open>recycling_device\<close>
    (the identifier given back last is handed out next), both interpreted on the driver.
  \<^item> \<open>Driver_Theorems\<close>: what a request does, in every state and in the reachable ones.
  \<^item> \<open>Clipboard_Log\<close>: the log of debug builds.
  \<^item> \<open>Decimal\<close>, \<open>Live_Update\<close>, \<open>Update_Theorems\<close> (the callbacks of \<open>bw386389.c\<close>): saving, restoring, starting.
  \<^item> \<open>Chardriver\<close> (\<open>chardriver.c\<close>): the framework, over an arbitrary driver; locale \<open>driver_hooks\<close>.
  \<^item> \<open>Clipboard_Task\<close>, \<open>Hello\<close>, \<open>Task_Theorems\<close>: the clipboard and the example driver \<open>hello.c\<close> in the framework.
  \<^item> \<open>Ancestor\<close> (\<open>do_check_if_ancestor.c\<close>, \<open>check_if_ancestor.c\<close>): the climb up the process tree.
  \<^item> \<open>Text_Size\<close>, \<open>Client\<close>, \<open>Client_Theorems\<close>, \<open>System_Theorems\<close>: the library functions, alone, with the driver,
    with PM, and in the test programs \<open>tclip.c\<close> and \<open>tdown.c\<close>; \<open>Fork_Test\<close>: the test program \<open>tfork.c\<close>.
  \<^item> \<open>Paste_Steps\<close>, \<open>Interleaving\<close>, \<open>Interleaving_Moves\<close>, \<open>Interleaving_Theorems\<close>: \<open>paste_from_clipboard\<close> cut at its
    system calls (\<open>paste_step\<close>), processes that take such steps in any order over one device (the relation \<open>moves\<close> on
    configurations), the same system over the abstract clipboard (\<open>board_moves\<close>), and the simulation between them.
  \<^item> \<open>Abandoned_Locks\<close>: runs in which the processes that hold the locks have ended.
  \<^item> \<open>Carried_Device\<close>: a layer between the processes and a device, as the locale \<open>carried_device\<close>, and the copies and pastes
    through it; \<open>Served_Port\<close>: the framework with an opened device and the driver's hooks are such a layer;
    \<open>Served_Calls\<close>: the system calls as messages, the open and the close among them, also on a device that is not opened;
    \<open>Served_Theorems\<close>: the runs of such processes with live updates (\<open>served_run\<close>).
  \<^item> \<open>Compress\<close>, \<open>Cipher\<close>, \<open>Asm_Clipboard\<close>, \<open>Safe_Copy\<close>: the test library and the clipboard of its bench; locale
    \<open>text_store\<close>; \<open>Asm_Tester\<close>: the test program of the bench.
  \<^item> \<open>System_Tables\<close>, \<open>Unistd\<close>, \<open>Pm_Proto\<close>: call numbers, handlers, device numbers, the header \<open>unistd.h\<close> and PM's
    prototypes, before and after the patch.

  State.  The driver's static variable \<open>CLIPBOARD\<close> and its heap are the record \<open>driver\<close>; operations take it and
  return it.  A function that can leave the defined behaviour of C, or stop the process, has a result of type
  \<open>cres\<close>, and a theorem that it does not is an equation with \<open>Inr\<close>.  32-bit values are words; where the code
  compares them as signed numbers the model writes \<open>sint\<close>.  Uninitialised local memory is an argument (\<open>junk\<close>).

  What the lemmas show.  One preservation and one refinement lemma per operation against the abstract clipboard;
  from them the behaviour of every request on every branch, safety of all reachable states and of the whole main
  loop, the round trips of copy and paste, of messages, of compression and cipher, and of a live update; and
  where the code falls short of that, the exact conditions: lengths and identifiers of messages are trusted, a failed
  copy to the caller loses the text, an update to another address breaks the stack.

  Composition.  The library functions are proved once against the contract of a device; the driver provides the contract
  (\<open>Device_Port\<close>), the framework survives and answers every acceptable request (\<open>Task_Theorems\<close>), and it
  carries the driver: a request made of a message, the table of opened devices, the hook and the one reply has the outcome of the handler, so that
  every run of processes served by the task is one on the driver and every theorem about those applies.  Between the process and the
  task stands VFS, which is not here: the model hands the caller the status of the reply to its message and the bytes copied
  under its grant, and a caller without a reply is \<open>Blocked\<close>.  That happens after a live update or a restart: the
  table of opened devices starts empty, so requests are dropped until a process opens the device.  A process whose
  request was dropped makes no further step in \<open>served_run\<close>; one that has not sent its request yet is served after the
  next open.

  Concurrency.  The driver handles one request at a time, so the steps of concurrent calls interleave at requests; a copy
  makes one request and is one step, with its open and its close, a paste makes three, and its close is part of the step that
  takes.  An update between the messages of such a step is two steps of \<open>served_run\<close>: \<open>opened\<close> or the whole take before it, \<open>lost\<close>
  after it.  The theorems show that the locks are exactly the pastes between
  their lock and their take and that a locked text is delivered unchanged, that the ancestor check is worth something as long as the
  entry is not emptied, and a run in which it is emptied and filled again between the check and the lock.  The relation
  \<open>descends from\<close> and the numbers of the processes are fixed in a run; a process that ends is one that makes no further step.

  Bounds and fuel.  100 entries of at most 1024 bytes; the heap is assumed to have room for all of them at the
  start, and the theorems show that it then always has.  The climb of \<open>do_checkifancestor\<close> is a partial function,
  as nothing in the code bounds it; all other loops are total by a measure.  \<open>hello_cat\<close>, a reader used in one theorem,
  has fuel: one read per byte of the text is enough.

  Parameters.  The process table and \<open>_syscall\<close>, \<open>sys_safecopyfrom\<close> and \<open>sys_safecopyto\<close>, the data store
  (\<open>ds_laws\<close>: what was published is retrieved until it is deleted), the codes and structures of MINIX's headers
  (\<open>codes\<close>, \<open>message\<close>, \<open>chardriver\<close>), received messages (\<open>event\<close>), and the contents of fresh memory.

  Not modelled.  The files \<open>chardriver.c\<close> and \<open>hello.c\<close> under \<open>get\<close> and the installed headers under
  \<open>usr/include\<close>, which are byte for byte the ones modelled; the rest of PM, VFS, the kernel and SEF, whose code is not here; printed messages other than the log;
  the second copies of the test library under \<open>test/asm\<close> (\<open>compress.c\<close>, \<open>compress_source.c\<close>, \<open>stack.c\<close>), which hold
  the same functions, its assembly version, and \<open>test2.cpp\<close>, which does not compile; build files, scripts and service configuration.
\<close>

end
